(* ===== verification/Systems.thy ===== *)
theory Systems
  imports Main
begin

text \<open>
  The contracts the components share, as locales. \<open>inv_system\<close> is a state machine whose steps keep an
  invariant; \<open>simulation\<close> is an implementation that answers every operation as its abstract
  specification does; \<open>one_shot\<close> is a task that an attempt takes away. Each has a world \<open>'w\<close> (a
  server with its view, a configuration, the clock) for which the laws are promised, and carries
  the laws from one step to runs of any length. The components interpret them on their own operations.
\<close>

section \<open>Invariants of state machines\<close>

locale inv_system =
  fixes wf :: "'w \<Rightarrow> bool"
    and start :: "'w \<Rightarrow> 's \<Rightarrow> bool"
    and step :: "'w \<Rightarrow> 's \<Rightarrow> 's \<Rightarrow> bool"
    and inv :: "'w \<Rightarrow> 's \<Rightarrow> bool"
  assumes start_inv: "wf w \<Longrightarrow> start w s \<Longrightarrow> inv w s"
    and step_inv: "wf w \<Longrightarrow> step w s s' \<Longrightarrow> inv w s \<Longrightarrow> inv w s'"
begin

lemma run_inv:
  assumes "wf w" and "(step w)\<^sup>*\<^sup>* s s'" and "inv w s"
  shows "inv w s'"
  using assms(2,3) by (induction rule: rtranclp_induct) (auto intro: step_inv [OF assms(1)])

lemma reachable_inv: "wf w \<Longrightarrow> start w s \<Longrightarrow> (step w)\<^sup>*\<^sup>* s s' \<Longrightarrow> inv w s'"
  by (blast intro: run_inv start_inv)

end

section \<open>Operations and their specification\<close>

text \<open>A run of operations with their answers; a specification is undefined where nothing is promised.\<close>

fun run_ops :: "('op \<Rightarrow> 'c \<Rightarrow> 'o \<times> 'c) \<Rightarrow> 'op list \<Rightarrow> 'c \<Rightarrow> 'o list \<times> 'c" where
  "run_ops f [] c = ([], c)"
| "run_ops f (x # xs) c = (let (r, c1) = f x c; (rs, c2) = run_ops f xs c1 in (r # rs, c2))"

fun run_spec :: "('op \<Rightarrow> 'a \<Rightarrow> ('o \<times> 'a) option) \<Rightarrow> 'op list \<Rightarrow> 'a \<Rightarrow> ('o list \<times> 'a) option" where
  "run_spec g [] a = Some ([], a)"
| "run_spec g (x # xs) a =
     (case g x a of
        None \<Rightarrow> None
      | Some (r, a1) \<Rightarrow> (case run_spec g xs a1 of None \<Rightarrow> None | Some (rs, a2) \<Rightarrow> Some (r # rs, a2)))"

locale simulation =
  fixes wf :: "'w \<Rightarrow> bool"
    and rel :: "'w \<Rightarrow> 'c \<Rightarrow> 'a \<Rightarrow> bool"
    and impl :: "'w \<Rightarrow> 'op \<Rightarrow> 'c \<Rightarrow> 'o \<times> 'c"
    and spec :: "'w \<Rightarrow> 'op \<Rightarrow> 'a \<Rightarrow> ('o \<times> 'a) option"
  assumes simulates: "wf w \<Longrightarrow> rel w c a \<Longrightarrow> spec w x a = Some (r, a') \<Longrightarrow>
    fst (impl w x c) = r \<and> rel w (snd (impl w x c)) a'"
begin

lemma run_simulates:
  assumes "wf w" and "rel w c a" and "run_spec (spec w) xs a = Some (rs, a')"
  shows "fst (run_ops (impl w) xs c) = rs \<and> rel w (snd (run_ops (impl w) xs c)) a'"
  using assms(2,3)
proof (induction xs arbitrary: c a rs)
  case Nil
  then show ?case by simp
next
  case (Cons x xs)
  from Cons.prems(2) obtain r a1 rs' where one: "spec w x a = Some (r, a1)" and rest: "run_spec (spec w) xs a1 = Some (rs', a')"
    and rs: "rs = r # rs'" by (auto split: option.splits)
  note sim = simulates [OF assms(1) Cons.prems(1) one]
  with Cons.IH [OF conjunct2 [OF sim] rest] rs show ?case by (simp add: case_prod_beta Let_def)
qed

end

section \<open>Tasks that are taken once\<close>

text \<open>How many of the attempts, made one after the other, carried the task out.\<close>

fun successes :: "('e \<Rightarrow> 's \<Rightarrow> bool \<times> 's) \<Rightarrow> 'e list \<Rightarrow> 's \<Rightarrow> nat" where
  "successes f [] s = 0"
| "successes f (e # es) s = (if fst (f e s) then 1 else 0) + successes f es (snd (f e s))"

locale one_shot =
  fixes wf :: "'w \<Rightarrow> 'e \<Rightarrow> bool"
    and present :: "'w \<Rightarrow> 's \<Rightarrow> bool"
    and attempt :: "'w \<Rightarrow> 'e \<Rightarrow> 's \<Rightarrow> bool \<times> 's"
  assumes takes_away: "wf w e \<Longrightarrow> fst (attempt w e s) \<Longrightarrow> present w s \<and> \<not> present w (snd (attempt w e s))"
    and stays_away: "wf w e \<Longrightarrow> \<not> present w s \<Longrightarrow> \<not> present w (snd (attempt w e s))"
begin

lemma absent_never:
  "\<forall>e \<in> set es. wf w e \<Longrightarrow> \<not> present w s \<Longrightarrow> successes (attempt w) es s = 0"
  by (induction es arbitrary: s) (use takes_away stays_away in auto)

lemma at_most_once:
  assumes "\<forall>e \<in> set es. wf w e"
  shows "successes (attempt w) es s \<le> 1"
  using assms
proof (induction es arbitrary: s)
  case Nil
  then show ?case by simp
next
  case (Cons e es)
  then show ?case using takes_away [of w e s] absent_never [of es w "snd (attempt w e s)"] by simp
qed

end

end
