(* ===== verification/Prelude.thy ===== *)
theory Prelude
  imports Systems "HOL-Library.Sublist"
begin

text \<open>
  The shared prelude of the development: the Go values every component uses. It holds
  the error values, the functions of the Go packages \<^verbatim>\<open>strings\<close> and \<^verbatim>\<open>strconv\<close> that the
  sources call, two's complement wrap-around of \<^verbatim>\<open>int64\<close>, and the lemmas on them that the
  components share. A Go string is a \<^typ>\<open>string\<close> whose characters are its bytes; the
  \<^verbatim>\<open>strings\<close> functions below are the byte-wise ones, which agree with Go's on ASCII text.
\<close>

named_theorems go_simps \<open>characteristic equations of the Go library functions\<close>

section \<open>Errors\<close>

text \<open>
  A Go error is a value. The package-level sentinels of the sources are constructors, an
  error built by \<^verbatim>\<open>errors.New\<close> or by \<^verbatim>\<open>fmt.Errorf\<close> without \<^verbatim>\<open>%w\<close> is \<open>Err\<close> with its text, and
  \<^verbatim>\<open>fmt.Errorf("pre: %w", e)\<close> is \<open>Wrap\<close> with the text before the wrapped error and the
  text after it. A run-time panic ends the call like an error does, and is the value \<open>Panic\<close>.
\<close>

datatype goerr =
    Err string
  | Wrap string goerr string
  | RedisNil
  | DeadlineExceeded
  | Canceled
  | ErrLockHeldByOther
  | ErrLockNotHeld
  | ErrDenied
  | ErrUnauthorized
  | ErrBlocked
  | Panic string

fun Error :: "goerr \<Rightarrow> string" where
  "Error (Err m) = m"
| "Error (Wrap pre e post) = pre @ Error e @ post"
| "Error RedisNil = ''redis: nil''"
| "Error DeadlineExceeded = ''context deadline exceeded''"
| "Error Canceled = ''context canceled''"
| "Error ErrLockHeldByOther = ''topic locked by another holder''"
| "Error ErrLockNotHeld = ''lock not held by caller''"
| "Error ErrDenied = ''not authorized for topic''"
| "Error ErrUnauthorized = ''unauthorized''"
| "Error ErrBlocked = ''blocked by SSRF policy''"
| "Error (Panic m) = ''panic: '' @ m"

text \<open>\<^verbatim>\<open>errors.Is(err, target)\<close>: the error itself or one it wraps.\<close>

fun errors_Is :: "goerr \<Rightarrow> goerr \<Rightarrow> bool" where
  "errors_Is (Wrap pre e post) t = (Wrap pre e post = t \<or> errors_Is e t)"
| "errors_Is e t = (e = t)"

type_synonym 'a result = "goerr + 'a"

section \<open>Machine integers\<close>

definition min_int64 :: int where "min_int64 = - (2 ^ 63)"

definition max_int64 :: int where "max_int64 = 2 ^ 63 - 1"

text \<open>The value a 64-bit signed addition or product leaves behind.\<close>

definition wrap64 :: "int \<Rightarrow> int" where
  "wrap64 x = (x + 2 ^ 63) mod 2 ^ 64 - 2 ^ 63"

lemma wrap64_id: "min_int64 \<le> x \<Longrightarrow> x \<le> max_int64 \<Longrightarrow> wrap64 x = x"
  by (simp add: wrap64_def min_int64_def max_int64_def)

lemma wrap64_range: "min_int64 \<le> wrap64 x \<and> wrap64 x \<le> max_int64"
  by (simp add: wrap64_def min_int64_def max_int64_def)

section \<open>Package strings\<close>

definition HasPrefix :: "string \<Rightarrow> string \<Rightarrow> bool" where
  "HasPrefix s p \<longleftrightarrow> take (length p) s = p"

definition HasSuffix :: "string \<Rightarrow> string \<Rightarrow> bool" where
  "HasSuffix s p \<longleftrightarrow> length p \<le> length s \<and> drop (length s - length p) s = p"

lemma HasPrefix_append [go_simps]: "HasPrefix (p @ s) p"
  by (simp add: HasPrefix_def)

lemma HasPrefix_iff: "HasPrefix s p \<longleftrightarrow> (\<exists>r. s = p @ r)"
  by (metis HasPrefix_append HasPrefix_def append_take_drop_id)

lemma HasSuffix_append [go_simps]: "HasSuffix (r @ p) p"
  by (simp add: HasSuffix_def)

lemma HasSuffix_iff: "HasSuffix s p \<longleftrightarrow> (\<exists>r. s = r @ p)"
  by (metis HasSuffix_append HasSuffix_def append_take_drop_id)

text \<open>\<^verbatim>\<open>strings.IndexByte\<close>: the first position of a byte, \<open>-1\<close> when there is none.\<close>

fun IndexByte :: "string \<Rightarrow> char \<Rightarrow> int" where
  "IndexByte [] c = -1"
| "IndexByte (x # xs) c =
     (if x = c then 0 else let i = IndexByte xs c in if i < 0 then -1 else i + 1)"

lemma IndexByte_ge: "-1 \<le> IndexByte s c"
  by (induction s) (auto simp: Let_def)

lemma IndexByte_neg_iff: "IndexByte s c < 0 \<longleftrightarrow> c \<notin> set s"
  by (induction s) (auto simp: Let_def)

lemma IndexByte_append_hit: "c \<notin> set a \<Longrightarrow> IndexByte (a @ c # b) c = int (length a)"
  by (induction a) (auto simp: Let_def)

lemma IndexByte_split:
  assumes "0 \<le> IndexByte s c"
  shows "s = take (nat (IndexByte s c)) s @ c # drop (nat (IndexByte s c) + 1) s
    \<and> c \<notin> set (take (nat (IndexByte s c)) s)"
  using assms
proof (induction s)
  case Nil
  then show ?case by simp
next
  case (Cons x xs)
  show ?case
  proof (cases "x = c")
    case True
    then show ?thesis by simp
  next
    case False
    with Cons.prems have hit: "0 \<le> IndexByte xs c"
      by (auto simp: Let_def split: if_splits)
    with False have eq: "nat (IndexByte (x # xs) c) = Suc (nat (IndexByte xs c))"
      by (simp add: Let_def nat_add_distrib)
    from Cons.IH [OF hit] False show ?thesis unfolding eq by auto
  qed
qed

text \<open>\<^verbatim>\<open>strings.Cut(s, sep)\<close> for a separator of one byte.\<close>

fun Cut :: "string \<Rightarrow> char \<Rightarrow> string \<times> string \<times> bool" where
  "Cut [] c = ([], [], False)"
| "Cut (x # xs) c =
     (if x = c then ([], xs, True)
      else let (before, after, found) = Cut xs c in (x # before, after, found))"

lemma Cut_miss: "c \<notin> set s \<Longrightarrow> Cut s c = (s, [], False)"
  by (induction s) auto

lemma Cut_hit: "c \<notin> set a \<Longrightarrow> Cut (a @ c # b) c = (a, b, True)"
  by (induction a) auto

text \<open>\<^verbatim>\<open>strings.ToLower\<close> and \<^verbatim>\<open>strings.TrimSpace\<close> on ASCII.\<close>

definition lower_char :: "char \<Rightarrow> char" where
  "lower_char c =
     (let n = of_char c :: nat in if 65 \<le> n \<and> n \<le> 90 then char_of (n + 32) else c)"

definition ToLower :: "string \<Rightarrow> string" where
  "ToLower s = map lower_char s"

definition is_space :: "char \<Rightarrow> bool" where
  "is_space c \<longleftrightarrow> (let n = of_char c :: nat in n = 32 \<or> (9 \<le> n \<and> n \<le> 13))"

definition TrimSpace :: "string \<Rightarrow> string" where
  "TrimSpace s = rev (dropWhile is_space (rev (dropWhile is_space s)))"

text \<open>\<^verbatim>\<open>strings.Split(s, sep)\<close> for a separator of one byte.\<close>

fun Split :: "string \<Rightarrow> char \<Rightarrow> string list" where
  "Split [] c = [[]]"
| "Split (x # xs) c =
     (if x = c then [] # Split xs c
      else case Split xs c of [] \<Rightarrow> [[x]] | p # ps \<Rightarrow> (x # p) # ps)"

text \<open>\<^verbatim>\<open>strings.ReplaceAll(s, old, new)\<close> for a non-empty \<open>old\<close>.\<close>

function ReplaceAll :: "string \<Rightarrow> string \<Rightarrow> string \<Rightarrow> string" where
  "ReplaceAll s old new =
     (if s = [] \<or> old = [] then s
      else if HasPrefix s old then new @ ReplaceAll (drop (length old) s) old new
      else hd s # ReplaceAll (tl s) old new)"
  by pat_completeness auto
termination
  by (relation "measure (\<lambda>(s, old, new). length s)") auto

declare ReplaceAll.simps [simp del]

text \<open>\<^verbatim>\<open>strings.Contains(s, sub)\<close>.\<close>

fun Contains :: "string \<Rightarrow> string \<Rightarrow> bool" where
  "Contains [] p \<longleftrightarrow> p = []"
| "Contains (x # xs) p \<longleftrightarrow> HasPrefix (x # xs) p \<or> Contains xs p"

section \<open>Package strconv\<close>

text \<open>
  \<^verbatim>\<open>ParseInt(s, 10, 64)\<close>. The sources often drop its error and use the value it returns
  with the error, so the value is modelled on every path: 0 for a syntax error, the nearest
  bound for a value out of range. \<open>parse_uint\<close> is the digit loop of \<^verbatim>\<open>ParseUint\<close>, which
  reports the overflow at the digit where it happens, before it looks at the rest.
\<close>

datatype numerr = ErrSyntax | ErrRange

definition is_digit :: "char \<Rightarrow> bool" where
  "is_digit c \<longleftrightarrow> (let n = of_char c :: nat in 48 \<le> n \<and> n \<le> 57)"

definition digit_val :: "char \<Rightarrow> nat" where
  "digit_val c = of_char c - 48"

fun parse_uint :: "string \<Rightarrow> nat \<Rightarrow> nat \<times> numerr option" where
  "parse_uint [] n = (n, None)"
| "parse_uint (c # cs) n =
     (if \<not> is_digit c then (0, Some ErrSyntax)
      else let m = n * 10 + digit_val c in
        if m > 2 ^ 64 - 1 then (2 ^ 64 - 1, Some ErrRange) else parse_uint cs m)"

definition ParseUint :: "string \<Rightarrow> nat \<times> numerr option" where
  "ParseUint s = (if s = [] then (0, Some ErrSyntax) else parse_uint s 0)"

definition ParseInt :: "string \<Rightarrow> int \<times> numerr option" where
  "ParseInt s =
     (if s = [] then (0, Some ErrSyntax)
      else let neg = (hd s = CHR ''-'');
               body = (if hd s = CHR ''-'' \<or> hd s = CHR ''+'' then tl s else s);
               (un, err) = ParseUint body
           in if err = Some ErrSyntax then (0, Some ErrSyntax)
              else if \<not> neg \<and> un \<ge> 2 ^ 63 then (max_int64, Some ErrRange)
              else if neg \<and> un > 2 ^ 63 then (min_int64, Some ErrRange)
              else (if neg then - int un else int un, None))"

text \<open>\<^verbatim>\<open>strconv.FormatInt(n, 10)\<close>, \<^verbatim>\<open>strconv.Itoa\<close> and \<^verbatim>\<open>%d\<close>.\<close>

definition digit_char :: "nat \<Rightarrow> char" where
  "digit_char d = char_of (48 + d)"

fun FormatUint :: "nat \<Rightarrow> string" where
  "FormatUint n =
     (if n < 10 then [digit_char n] else FormatUint (n div 10) @ [digit_char (n mod 10)])"

declare FormatUint.simps [simp del]

definition FormatInt :: "int \<Rightarrow> string" where
  "FormatInt n = (if n < 0 then CHR ''-'' # FormatUint (nat (- n)) else FormatUint (nat n))"

lemma digit_char_eval:
  "digit_char 0 = CHR ''0''" "digit_char (Suc 0) = CHR ''1''" "digit_char 2 = CHR ''2''"
  "digit_char 3 = CHR ''3''" "digit_char 4 = CHR ''4''" "digit_char 5 = CHR ''5''"
  "digit_char 6 = CHR ''6''" "digit_char 7 = CHR ''7''" "digit_char 8 = CHR ''8''" "digit_char 9 = CHR ''9''"
  by code_simp+

lemma digit_char_val [simp]: "d < 10 \<Longrightarrow> is_digit (digit_char d) \<and> digit_val (digit_char d) = d"
  by (simp add: is_digit_def digit_val_def digit_char_def)

lemma parse_uint_bound: "n < 2 ^ 64 \<Longrightarrow> fst (parse_uint s n) < 2 ^ 64"
  by (induction s arbitrary: n) (auto simp: Let_def)

lemma parse_uint_append:
  "parse_uint s n = (m, None) \<Longrightarrow> parse_uint (s @ t) n = parse_uint t m"
  by (induction s arbitrary: n) (auto simp: Let_def split: if_splits)

lemma FormatUint_not_Nil [simp]: "FormatUint n \<noteq> []"
  by (subst FormatUint.simps) simp

lemma FormatUint_digits: "c \<in> set (FormatUint n) \<Longrightarrow> is_digit c"
proof (induction n rule: FormatUint.induct)
  case (1 n)
  show ?case
  proof (cases "n < 10")
    case True
    with "1.prems" show ?thesis by (auto simp: FormatUint.simps [of n])
  next
    case False
    with "1.prems" have "c \<in> set (FormatUint (n div 10)) \<or> c = digit_char (n mod 10)"
      by (auto simp: FormatUint.simps [of n])
    with "1.IH" False show ?thesis by auto
  qed
qed

lemma parse_uint_FormatUint: "n < 2 ^ 64 \<Longrightarrow> parse_uint (FormatUint n) 0 = (n, None)"
proof (induction n rule: FormatUint.induct)
  case (1 n)
  show ?case
  proof (cases "n < 10")
    case True
    then show ?thesis by (simp add: FormatUint.simps [of n] Let_def)
  next
    case False
    with "1.prems" have "parse_uint (FormatUint (n div 10)) 0 = (n div 10, None)"
      by (intro "1.IH") auto
    from parse_uint_append [OF this, of "[digit_char (n mod 10)]"] False "1.prems"
    show ?thesis by (simp add: FormatUint.simps [of n] Let_def)
  qed
qed

lemma not_digit_minus [simp]: "\<not> is_digit (CHR ''-'')" and not_digit_plus [simp]: "\<not> is_digit (CHR ''+'')"
  by (simp_all add: is_digit_def)

lemma minus_notin_FormatUint [simp]: "CHR ''-'' \<notin> set (FormatUint n)"
  using FormatUint_digits not_digit_minus by blast

lemma hd_FormatUint: "is_digit (hd (FormatUint n))"
  by (rule FormatUint_digits [of _ n]) simp

lemma ParseInt_FormatUint [go_simps]:
  assumes "int n \<le> max_int64"
  shows "ParseInt (FormatUint n) = (int n, None)"
proof -
  from assms have n: "n < 2 ^ 63" by (simp add: max_int64_def)
  then have "parse_uint (FormatUint n) 0 = (n, None)"
    by (intro parse_uint_FormatUint) simp
  moreover from hd_FormatUint [of n]
  have "hd (FormatUint n) \<noteq> CHR ''-'' \<and> hd (FormatUint n) \<noteq> CHR ''+''" by auto
  ultimately show ?thesis using n by (simp add: ParseInt_def ParseUint_def)
qed

lemma ParseInt_range: "min_int64 \<le> fst (ParseInt s) \<and> fst (ParseInt s) \<le> max_int64"
  by (auto simp: ParseInt_def Let_def min_int64_def max_int64_def split: prod.splits)

section \<open>Quoted strings\<close>

text \<open>\<^verbatim>\<open>%q\<close>: \<^verbatim>\<open>strconv.Quote\<close> on ASCII.\<close>

definition hex_digit :: "nat \<Rightarrow> char" where
  "hex_digit d = char_of (if d < 10 then 48 + d else 87 + d)"

definition quote_char :: "char \<Rightarrow> string" where
  "quote_char c =
     (let n = of_char c :: nat; bs = char_of (92 :: nat) in
      if n = 34 \<or> n = 92 then [bs, c]
      else if n = 7 then [bs, CHR ''a''] else if n = 8 then [bs, CHR ''b'']
      else if n = 12 then [bs, CHR ''f''] else if n = 10 then [bs, CHR ''n'']
      else if n = 13 then [bs, CHR ''r''] else if n = 9 then [bs, CHR ''t'']
      else if n = 11 then [bs, CHR ''v'']
      else if n < 32 \<or> n = 127 then [bs, CHR ''x'', hex_digit (n div 16), hex_digit (n mod 16)]
      else [c])"

definition Quote :: "string \<Rightarrow> string" where
  "Quote s = [char_of (34 :: nat)] @ concat (map quote_char s) @ [char_of (34 :: nat)]"

end
