(* ===== verification/Config.thy ===== *)
theory Config
  imports Prelude
begin

text \<open>
  The configuration: \<^verbatim>\<open>internal/config/config.go\<close>. The process environment maps a variable to its
  text, or to nothing when it is unset. The package \<^verbatim>\<open>godotenv\<close> is the parameter \<open>dotenv\<close>, the change
  that loading a \<^verbatim>\<open>.env\<close> file makes to the environment, and \<open>uuid\<close> is the fresh identifier. A
  \<^verbatim>\<open>time.Duration\<close> is a number of nanoseconds at 64 bits.
\<close>

section \<open>Reading the environment\<close>

type_synonym osenv = "string \<Rightarrow> string option"

definition os_Getenv :: "osenv \<Rightarrow> string \<Rightarrow> string" where
  "os_Getenv env k = (case env k of None \<Rightarrow> [] | Some v \<Rightarrow> v)"

definition getbool :: "osenv \<Rightarrow> string \<Rightarrow> bool \<Rightarrow> bool" where
  "getbool env key fallback =
     (let v = TrimSpace (ToLower (os_Getenv env key)) in
      if v = [] then fallback else v = ''1'' \<or> v = ''true'' \<or> v = ''yes'' \<or> v = ''on'')"

definition getcsv :: "osenv \<Rightarrow> string \<Rightarrow> string list" where
  "getcsv env key = filter (\<lambda>p. p \<noteq> []) (map TrimSpace (Split (os_Getenv env key) (CHR '','')))"

definition getenv :: "osenv \<Rightarrow> string \<Rightarrow> string \<Rightarrow> string" where
  "getenv env key fallback = (let v = os_Getenv env key in if v \<noteq> [] then v else fallback)"

definition num_error :: "string \<Rightarrow> string \<Rightarrow> numerr \<Rightarrow> goerr" where
  "num_error fn v e = Err (''strconv.'' @ fn @ '': parsing '' @ Quote v @ '': ''
     @ (case e of ErrSyntax \<Rightarrow> ''invalid syntax'' | ErrRange \<Rightarrow> ''value out of range''))"

definition Atoi :: "string \<Rightarrow> int result" where
  "Atoi v = (case ParseInt v of (n, None) \<Rightarrow> Inr n | (n, Some e) \<Rightarrow> Inl (num_error ''Atoi'' v e))"

definition getintOr :: "osenv \<Rightarrow> string \<Rightarrow> int \<Rightarrow> int result" where
  "getintOr env key fallback =
     (let v = os_Getenv env key in
      if v = [] then Inr fallback
      else case Atoi v of Inl e \<Rightarrow> Inl (Wrap (key @ '': '') e []) | Inr n \<Rightarrow> Inr n)"

definition getint64Or :: "osenv \<Rightarrow> string \<Rightarrow> int \<Rightarrow> int result" where
  "getint64Or env key fallback =
     (let v = os_Getenv env key in
      if v = [] then Inr fallback
      else case ParseInt v of
          (n, Some e) \<Rightarrow> Inl (Wrap (key @ '': '') (num_error ''ParseInt'' v e) [])
        | (n, None) \<Rightarrow> Inr n)"

section \<open>The configuration\<close>

record Config =
  RedisHost :: string
  RedisPort :: int
  RedisPassword :: string
  RedisAddrs :: "string list"
  RedisMasterName :: string
  WebSocketPort :: int
  WebSocketTimeout :: int
  MaxPayloadBytes :: int
  conf_MaxBufferedBytes :: int
  conf_MaxConsecutiveDrops :: int
  EnableCompression :: bool
  AllowedOrigins :: "string list"
  MetricsAddr :: string
  TLSKeyPath :: string
  TLSCertPath :: string
  AuthzRules :: string
  conf_PresenceTopic :: string
  AuthJWTSecret :: string
  AuthJWTAudience :: string
  AuthJWTIssuer :: string
  conf_StreamMaxLength :: int
  conf_StreamTTL :: int
  conf_AckCursorTTL :: int
  RateLimitMessagesPerSec :: int
  RateLimitJobsPerMin :: int
  SchedulerAllowedHosts :: "string list"
  ReadinessTimeout :: int
  ShutdownTimeout :: int
  LogLevel :: string
  conf_InstanceID :: string

definition Millisecond :: int where "Millisecond = 1000000"
definition Second :: int where "Second = 1000000000"

definition DefaultReadinessTimeout :: int where "DefaultReadinessTimeout = 2 * Second"
definition DefaultShutdownTimeout :: int where "DefaultShutdownTimeout = 10 * Second"

definition TLSEnabled :: "Config \<Rightarrow> bool" where
  "TLSEnabled c \<longleftrightarrow> TLSKeyPath c \<noteq> [] \<and> TLSCertPath c \<noteq> []"

text \<open>\<^verbatim>\<open>net.JoinHostPort\<close> brackets a host that has a colon or a percent sign.\<close>

definition JoinHostPort :: "string \<Rightarrow> string \<Rightarrow> string" where
  "JoinHostPort host port =
     (if CHR '':'' \<in> set host \<or> CHR ''%'' \<in> set host then ''['' @ host @ '']:'' @ port else host @ '':'' @ port)"

definition RedisAddrList :: "Config \<Rightarrow> string list" where
  "RedisAddrList c = (if RedisAddrs c \<noteq> [] then RedisAddrs c else [JoinHostPort (RedisHost c) (FormatInt (RedisPort c))])"

definition validate :: "Config \<Rightarrow> unit result" where
  "validate c =
     (if RedisHost c = [] \<and> RedisAddrs c = [] then Inl (Err ''REDIS_HOST or REDIS_ADDRS is required'')
      else if (TLSKeyPath c = []) \<noteq> (TLSCertPath c = []) then
        Inl (Err ''TLS_KEY_PATH and TLS_CERT_PATH must both be set, or both be unset'')
      else if WebSocketPort c < 1 \<or> WebSocketPort c > 65535 then
        Inl (Err (''WEBSOCKET_PORT out of range: '' @ FormatInt (WebSocketPort c)))
      else if MaxPayloadBytes c \<le> 0 then Inl (Err ''MAX_PAYLOAD_BYTES must be positive'')
      else if conf_MaxBufferedBytes c \<le> 0 then Inl (Err ''MAX_BUFFERED_BYTES must be positive'')
      else Inr ())"

text \<open>The hosts of the scheduler's allow list, lowered.\<close>

definition allowed_hosts :: "osenv \<Rightarrow> string list" where
  "allowed_hosts env =
     (let hosts = TrimSpace (os_Getenv env ''SCHEDULER_ALLOWED_HOSTS'') in
      if hosts = [] then []
      else filter (\<lambda>h. h \<noteq> []) (map (\<lambda>h. ToLower (TrimSpace h)) (Split hosts (CHR '',''))))"

definition and_then :: "'a result \<Rightarrow> ('a \<Rightarrow> 'b result) \<Rightarrow> 'b result" where
  "and_then r k = (case r of Inl e \<Rightarrow> Inl e | Inr a \<Rightarrow> k a)"

text \<open>A timeout in milliseconds, with its default for a value that is not positive.\<close>

definition positive_ms :: "int \<Rightarrow> int \<Rightarrow> int" where
  "positive_ms ms dflt = (if ms \<le> 0 then dflt div Millisecond else ms)"

definition load_env :: "osenv \<Rightarrow> string \<Rightarrow> Config result" where
  "load_env env uuid =
     and_then (getintOr env ''REDIS_PORT'' 6379) (\<lambda>redisPort.
     and_then (getintOr env ''WEBSOCKET_PORT'' 8080) (\<lambda>wsPort.
     and_then (getint64Or env ''WEBSOCKET_TIMEOUT'' (5 * 60 * 1000)) (\<lambda>timeoutMs.
     and_then (getint64Or env ''MAX_PAYLOAD_BYTES'' (64 * 1024)) (\<lambda>maxPayload.
     and_then (getint64Or env ''MAX_BUFFERED_BYTES'' (1024 * 1024)) (\<lambda>maxBuffered.
     and_then (getintOr env ''MAX_CONSECUTIVE_DROPS'' 100) (\<lambda>drops.
     and_then (getint64Or env ''STREAM_MAX_LENGTH'' 1000) (\<lambda>streamMax.
     and_then (getint64Or env ''STREAM_TTL_SECONDS'' 0) (\<lambda>streamTTLSec.
     and_then (getint64Or env ''ACK_CURSOR_TTL_SECONDS'' (7 * 24 * 3600)) (\<lambda>ackTTLSec.
     and_then (getint64Or env ''READINESS_TIMEOUT_MS'' (DefaultReadinessTimeout div Millisecond)) (\<lambda>readyMs.
     and_then (getint64Or env ''SHUTDOWN_TIMEOUT_MS'' (DefaultShutdownTimeout div Millisecond)) (\<lambda>shutdownMs.
     and_then (getintOr env ''RATE_LIMIT_MESSAGES_PER_SEC'' 50) (\<lambda>msgs.
     and_then (getintOr env ''RATE_LIMIT_JOBS_PER_MIN'' 30) (\<lambda>jobs.
     let cfg = \<lparr>RedisHost = getenv env ''REDIS_HOST'' [], RedisPort = redisPort,
           RedisPassword = os_Getenv env ''REDIS_PASSWORD'',
           RedisAddrs = getcsv env ''REDIS_ADDRS'', RedisMasterName = os_Getenv env ''REDIS_MASTER_NAME'',
           WebSocketPort = wsPort, WebSocketTimeout = wrap64 (timeoutMs * Millisecond),
           MaxPayloadBytes = maxPayload, conf_MaxBufferedBytes = maxBuffered, conf_MaxConsecutiveDrops = drops,
           EnableCompression = getbool env ''ENABLE_COMPRESSION'' False,
           AllowedOrigins = getcsv env ''ALLOWED_ORIGINS'', MetricsAddr = os_Getenv env ''METRICS_ADDR'',
           TLSKeyPath = os_Getenv env ''TLS_KEY_PATH'', TLSCertPath = os_Getenv env ''TLS_CERT_PATH'',
           AuthzRules = getenv env ''AUTHZ_RULES'' [], conf_PresenceTopic = getenv env ''PRESENCE_TOPIC'' [],
           AuthJWTSecret = os_Getenv env ''AUTH_JWT_SECRET'', AuthJWTAudience = os_Getenv env ''AUTH_JWT_AUDIENCE'',
           AuthJWTIssuer = os_Getenv env ''AUTH_JWT_ISSUER'',
           conf_StreamMaxLength = streamMax, conf_StreamTTL = wrap64 (streamTTLSec * Second),
           conf_AckCursorTTL = wrap64 (ackTTLSec * Second),
           RateLimitMessagesPerSec = msgs, RateLimitJobsPerMin = jobs, SchedulerAllowedHosts = allowed_hosts env,
           ReadinessTimeout = wrap64 (positive_ms readyMs DefaultReadinessTimeout * Millisecond),
           ShutdownTimeout = wrap64 (positive_ms shutdownMs DefaultShutdownTimeout * Millisecond),
           LogLevel = getenv env ''LOG_LEVEL'' ''info'', conf_InstanceID = getenv env ''INSTANCE_ID'' uuid\<rparr>
     in and_then (validate cfg) (\<lambda>_. Inr cfg))))))))))))))"

definition Load :: "(osenv \<Rightarrow> osenv) \<Rightarrow> string \<Rightarrow> osenv \<Rightarrow> Config result" where
  "Load dotenv uuid env = load_env (dotenv env) uuid"

section \<open>When loading succeeds\<close>

definition num_ok :: "osenv \<Rightarrow> string \<Rightarrow> bool" where
  "num_ok env k \<longleftrightarrow> os_Getenv env k = [] \<or> snd (ParseInt (os_Getenv env k)) = None"

definition num_of :: "osenv \<Rightarrow> string \<Rightarrow> int \<Rightarrow> int" where
  "num_of env k dflt = (if os_Getenv env k = [] then dflt else fst (ParseInt (os_Getenv env k)))"

definition numeric_vars :: "string list" where
  "numeric_vars = [''REDIS_PORT'', ''WEBSOCKET_PORT'', ''WEBSOCKET_TIMEOUT'', ''MAX_PAYLOAD_BYTES'', ''MAX_BUFFERED_BYTES'',
     ''MAX_CONSECUTIVE_DROPS'', ''STREAM_MAX_LENGTH'', ''STREAM_TTL_SECONDS'', ''ACK_CURSOR_TTL_SECONDS'',
     ''READINESS_TIMEOUT_MS'', ''SHUTDOWN_TIMEOUT_MS'', ''RATE_LIMIT_MESSAGES_PER_SEC'', ''RATE_LIMIT_JOBS_PER_MIN'']"

lemma getintOr_Inr: "getintOr env k d = Inr n \<longleftrightarrow> num_ok env k \<and> n = num_of env k d"
  by (auto simp: getintOr_def Atoi_def num_ok_def num_of_def Let_def split: prod.splits option.splits sum.splits)

lemma getint64Or_Inr: "getint64Or env k d = Inr n \<longleftrightarrow> num_ok env k \<and> n = num_of env k d"
  by (auto simp: getint64Or_def num_ok_def num_of_def Let_def split: prod.splits option.splits)

lemma and_then_Inr: "and_then r k = Inr b \<longleftrightarrow> (\<exists>a. r = Inr a \<and> k a = Inr b)"
  by (auto simp: and_then_def split: sum.splits)

lemma validate_Inr:
  "validate c = Inr u \<longleftrightarrow> (RedisHost c \<noteq> [] \<or> RedisAddrs c \<noteq> []) \<and> (TLSKeyPath c = []) = (TLSCertPath c = [])
     \<and> 1 \<le> WebSocketPort c \<and> WebSocketPort c \<le> 65535 \<and> 0 < MaxPayloadBytes c \<and> 0 < conf_MaxBufferedBytes c"
  by (auto simp: validate_def)

text \<open>The configuration an accepted environment gives.\<close>

definition env_config :: "osenv \<Rightarrow> string \<Rightarrow> Config" where
  "env_config env uuid = \<lparr>RedisHost = getenv env ''REDIS_HOST'' [], RedisPort = num_of env ''REDIS_PORT'' 6379,
     RedisPassword = os_Getenv env ''REDIS_PASSWORD'',
     RedisAddrs = getcsv env ''REDIS_ADDRS'', RedisMasterName = os_Getenv env ''REDIS_MASTER_NAME'',
     WebSocketPort = num_of env ''WEBSOCKET_PORT'' 8080,
     WebSocketTimeout = wrap64 (num_of env ''WEBSOCKET_TIMEOUT'' 300000 * 1000000),
     MaxPayloadBytes = num_of env ''MAX_PAYLOAD_BYTES'' 65536,
     conf_MaxBufferedBytes = num_of env ''MAX_BUFFERED_BYTES'' 1048576,
     conf_MaxConsecutiveDrops = num_of env ''MAX_CONSECUTIVE_DROPS'' 100,
     EnableCompression = getbool env ''ENABLE_COMPRESSION'' False,
     AllowedOrigins = getcsv env ''ALLOWED_ORIGINS'', MetricsAddr = os_Getenv env ''METRICS_ADDR'',
     TLSKeyPath = os_Getenv env ''TLS_KEY_PATH'', TLSCertPath = os_Getenv env ''TLS_CERT_PATH'',
     AuthzRules = getenv env ''AUTHZ_RULES'' [], conf_PresenceTopic = getenv env ''PRESENCE_TOPIC'' [],
     AuthJWTSecret = os_Getenv env ''AUTH_JWT_SECRET'', AuthJWTAudience = os_Getenv env ''AUTH_JWT_AUDIENCE'',
     AuthJWTIssuer = os_Getenv env ''AUTH_JWT_ISSUER'',
     conf_StreamMaxLength = num_of env ''STREAM_MAX_LENGTH'' 1000,
     conf_StreamTTL = wrap64 (num_of env ''STREAM_TTL_SECONDS'' 0 * 1000000000),
     conf_AckCursorTTL = wrap64 (num_of env ''ACK_CURSOR_TTL_SECONDS'' 604800 * 1000000000),
     RateLimitMessagesPerSec = num_of env ''RATE_LIMIT_MESSAGES_PER_SEC'' 50,
     RateLimitJobsPerMin = num_of env ''RATE_LIMIT_JOBS_PER_MIN'' 30, SchedulerAllowedHosts = allowed_hosts env,
     ReadinessTimeout = (let ms = num_of env ''READINESS_TIMEOUT_MS'' 2000 in wrap64 ((if ms \<le> 0 then 2000 else ms) * 1000000)),
     ShutdownTimeout = (let ms = num_of env ''SHUTDOWN_TIMEOUT_MS'' 10000 in wrap64 ((if ms \<le> 0 then 10000 else ms) * 1000000)),
     LogLevel = getenv env ''LOG_LEVEL'' ''info'', conf_InstanceID = getenv env ''INSTANCE_ID'' uuid\<rparr>"

lemma load_env_Inr:
  "load_env env uuid = Inr c \<longleftrightarrow>
     list_all (num_ok env) numeric_vars \<and> c = env_config env uuid \<and> validate c = Inr ()"
  by (simp only: load_env_def and_then_Inr getintOr_Inr getint64Or_Inr Let_def)
    (auto simp: and_then_Inr numeric_vars_def env_config_def Millisecond_def Second_def DefaultReadinessTimeout_def
      DefaultShutdownTimeout_def positive_ms_def Let_def)

section \<open>A loaded configuration is well formed\<close>

definition in_int64 :: "int \<Rightarrow> bool" where
  "in_int64 n \<longleftrightarrow> min_int64 \<le> n \<and> n \<le> max_int64"

lemma in_int64_wrap [simp]: "in_int64 (wrap64 n)"
  using wrap64_range [of n] by (simp add: in_int64_def)

lemma in_int64_small [simp]: "0 \<le> n \<Longrightarrow> n \<le> 2000000 \<Longrightarrow> in_int64 n"
  by (simp add: in_int64_def min_int64_def max_int64_def)

lemma in_int64_num_of [simp]: "in_int64 d \<Longrightarrow> in_int64 (num_of env k d)"
  using ParseInt_range by (simp add: num_of_def in_int64_def)

text \<open>A text with no blank at either end.\<close>

definition trimmed :: "string \<Rightarrow> bool" where
  "trimmed s \<longleftrightarrow> s \<noteq> [] \<and> \<not> is_space (hd s) \<and> \<not> is_space (last s)"

lemma dropWhile_last: "dropWhile P xs \<noteq> [] \<Longrightarrow> last (dropWhile P xs) = last xs"
  by (induction xs) auto

lemma TrimSpace_trimmed:
  assumes "TrimSpace s \<noteq> []"
  shows "trimmed (TrimSpace s)"
proof -
  define u where "u = dropWhile is_space s"
  define v where "v = dropWhile is_space (rev u)"
  have t: "TrimSpace s = rev v" by (simp add: TrimSpace_def u_def v_def)
  with assms have v: "v \<noteq> []" by simp
  then have hv: "\<not> is_space (hd v)" unfolding v_def by (rule hd_dropWhile)
  from v have lv: "last v = last (rev u)" unfolding v_def by (rule dropWhile_last)
  from v have u: "u \<noteq> []" unfolding v_def by auto
  then have "\<not> is_space (hd u)" unfolding u_def by (rule hd_dropWhile)
  with u lv have "\<not> is_space (last v)" by (simp add: last_rev)
  with v hv t show ?thesis by (simp add: trimmed_def hd_rev last_rev)
qed

lemma lower_char_idem [simp]: "lower_char (lower_char c) = lower_char c"
  by (simp add: lower_char_def Let_def)

lemma ToLower_idem [simp]: "ToLower (ToLower s) = ToLower s"
  by (simp add: ToLower_def)

lemma getcsv_trimmed: "list_all trimmed (getcsv env key)"
  by (auto simp: getcsv_def list_all_iff dest: TrimSpace_trimmed)

lemma allowed_hosts_lower: "list_all (\<lambda>h. h \<noteq> [] \<and> ToLower h = h) (allowed_hosts env)"
  by (auto simp: allowed_hosts_def Let_def list_all_iff)

definition config_ints :: "Config \<Rightarrow> int list" where
  "config_ints c = [RedisPort c, WebSocketPort c, WebSocketTimeout c, MaxPayloadBytes c, conf_MaxBufferedBytes c,
     conf_MaxConsecutiveDrops c, conf_StreamMaxLength c, conf_StreamTTL c, conf_AckCursorTTL c, RateLimitMessagesPerSec c,
     RateLimitJobsPerMin c, ReadinessTimeout c, ShutdownTimeout c]"

definition wf_config :: "Config \<Rightarrow> bool" where
  "wf_config c \<longleftrightarrow> list_all in_int64 (config_ints c)
     \<and> 1 \<le> WebSocketPort c \<and> WebSocketPort c \<le> 65535 \<and> 0 < MaxPayloadBytes c \<and> 0 < conf_MaxBufferedBytes c
     \<and> (TLSEnabled c \<or> (TLSKeyPath c = [] \<and> TLSCertPath c = []))
     \<and> list_all trimmed (RedisAddrs c) \<and> list_all trimmed (AllowedOrigins c)
     \<and> (RedisHost c \<noteq> [] \<or> RedisAddrs c \<noteq> [])
     \<and> list_all (\<lambda>h. h \<noteq> [] \<and> ToLower h = h) (SchedulerAllowedHosts c) \<and> LogLevel c \<noteq> []"

lemma env_config_ints: "list_all in_int64 (config_ints (env_config env uuid))"
  by (simp add: config_ints_def env_config_def Let_def)

text \<open>
  Loading either fails or gives a well-formed configuration (C31). A configuration that \<^verbatim>\<open>Load\<close> returns has
  every number within 64 bits (durations after their wrap-around), a TCP port, positive frame and
  buffer sizes, both TLS paths or none, a Redis address, list entries with no blanks around them
  and lowered host names; and it is the one the environment spells out.
\<close>

theorem load_well_formed:
  assumes "Load dotenv uuid env = Inr c"
  shows "wf_config c \<and> c = env_config (dotenv env) uuid"
proof -
  from assms have c: "c = env_config (dotenv env) uuid" and v: "validate c = Inr ()"
    by (auto simp: Load_def load_env_Inr)
  have "list_all trimmed (RedisAddrs c)" "list_all trimmed (AllowedOrigins c)"
    "list_all (\<lambda>h. h \<noteq> [] \<and> ToLower h = h) (SchedulerAllowedHosts c)" "LogLevel c \<noteq> []"
    unfolding c using getcsv_trimmed allowed_hosts_lower by (simp_all add: env_config_def getenv_def Let_def)
  moreover have "list_all in_int64 (config_ints c)" unfolding c by (rule env_config_ints)
  ultimately show ?thesis using v c by (auto simp: wf_config_def validate_Inr TLSEnabled_def)
qed

definition one_var_env :: osenv where
  "one_var_env k = (if k = ''REDIS_HOST'' then Some ''localhost'' else None)"

lemma one_var_env_other: "k \<noteq> ''REDIS_HOST'' \<Longrightarrow> os_Getenv one_var_env k = []"
  by (simp add: one_var_env_def os_Getenv_def)

lemma one_var_env_loads: "Load (\<lambda>e. e) ''u'' one_var_env = Inr (env_config one_var_env ''u'')"
  by (simp add: Load_def load_env_Inr numeric_vars_def num_ok_def one_var_env_other validate_Inr)
    (simp add: env_config_def num_of_def one_var_env_other getenv_def Let_def, simp add: os_Getenv_def one_var_env_def)

theorem load_well_formed_witness:
  "wf_config (env_config one_var_env ''u'') \<and> WebSocketPort (env_config one_var_env ''u'') = 8080"
  using load_well_formed [OF one_var_env_loads] by (simp add: env_config_def num_of_def one_var_env_other)

text \<open>
  What makes loading fail. It fails exactly when a numeric variable that is set is not a 64-bit
  number in base ten, no Redis host or address is given, one TLS path is set without the other,
  the port is no TCP port, or a size limit is not positive; an unset or empty variable never makes
  it fail, except for the Redis host.
\<close>

theorem load_decides:
  "(\<exists>c. Load dotenv uuid env = Inr c) \<longleftrightarrow>
     (let e = dotenv env; port = num_of e ''WEBSOCKET_PORT'' 8080 in
      list_all (num_ok e) numeric_vars
      \<and> \<not> (os_Getenv e ''REDIS_HOST'' = [] \<and> getcsv e ''REDIS_ADDRS'' = [])
      \<and> (os_Getenv e ''TLS_KEY_PATH'' = []) = (os_Getenv e ''TLS_CERT_PATH'' = [])
      \<and> 1 \<le> port \<and> port \<le> 65535
      \<and> 0 < num_of e ''MAX_PAYLOAD_BYTES'' 65536 \<and> 0 < num_of e ''MAX_BUFFERED_BYTES'' 1048576)"
  by (auto simp: Load_def load_env_Inr validate_Inr env_config_def getenv_def Let_def)

end
