(* ===== verification/Json.thy ===== *)
theory Json
  imports Prelude
begin

text \<open>
  JSON as the sources use it through \<^verbatim>\<open>encoding/json\<close>. A byte string that is sent on is either
  plain text or the rendering of a JSON value, and \<^verbatim>\<open>json.Marshal\<close> and \<^verbatim>\<open>json.Unmarshal\<close> are
  modelled on values: the text in between is the value itself. A number keeps its literal, as
  \<^verbatim>\<open>json.RawMessage\<close> does. The second half decodes an object into the fields of a struct.
\<close>

section \<open>Values\<close>

datatype json =
    JNull
  | JBool bool
  | JNum string
  | JStr string
  | JArr "json list"
  | JObj "(string \<times> json) list"

datatype blob = Text string | Json json

text \<open>A \<^verbatim>\<open>json.RawMessage\<close>: nothing stands for a slice of length 0, which marshals as \<^verbatim>\<open>null\<close>.\<close>

type_synonym raw = "json option"

definition marshal_raw :: "raw \<Rightarrow> json" where
  "marshal_raw d = (case d of None \<Rightarrow> JNull | Some j \<Rightarrow> j)"

text \<open>A field tagged \<^verbatim>\<open>omitempty\<close>.\<close>

definition field_unless :: "bool \<Rightarrow> string \<Rightarrow> json \<Rightarrow> (string \<times> json) list" where
  "field_unless zero k j = (if zero then [] else [(k, j)])"

definition json_int :: "int \<Rightarrow> json" where
  "json_int n = JNum (FormatInt n)"

text \<open>A \<^verbatim>\<open>[]string\<close>: nil marshals as \<^verbatim>\<open>null\<close>, an empty slice as \<^verbatim>\<open>[]\<close>.\<close>

definition json_strings :: "string list option \<Rightarrow> json" where
  "json_strings xs = (case xs of None \<Rightarrow> JNull | Some ys \<Rightarrow> JArr (map JStr ys))"

section \<open>Decoding an object into a struct\<close>

text \<open>
  \<^verbatim>\<open>Unmarshal\<close> walks the object and assigns every key that matches a field name up to case;
  a later key overwrites an earlier one. A value of another type is an error of the whole call.
  \<^verbatim>\<open>null\<close> leaves a string, a number and a boolean as they are, sets a slice or a pointer to
  nil, and is stored as it is in a \<^verbatim>\<open>RawMessage\<close>. \<^verbatim>\<open>null\<close> in place of the object changes no
  field.
\<close>

definition matching :: "string \<Rightarrow> (string \<times> json) list \<Rightarrow> json list" where
  "matching k kvs = map snd (filter (\<lambda>p. ToLower (fst p) = ToLower k) kvs)"

definition object_fields :: "blob \<Rightarrow> (string \<times> json) list option" where
  "object_fields b = (case b of Json (JObj kvs) \<Rightarrow> Some kvs | Json JNull \<Rightarrow> Some [] | _ \<Rightarrow> None)"

fun dec_string :: "json list \<Rightarrow> string \<Rightarrow> string option" where
  "dec_string [] acc = Some acc"
| "dec_string (j # js) acc =
     (case j of JStr s \<Rightarrow> dec_string js s | JNull \<Rightarrow> dec_string js acc | _ \<Rightarrow> None)"

fun dec_bool :: "json list \<Rightarrow> bool \<Rightarrow> bool option" where
  "dec_bool [] acc = Some acc"
| "dec_bool (j # js) acc =
     (case j of JBool b \<Rightarrow> dec_bool js b | JNull \<Rightarrow> dec_bool js acc | _ \<Rightarrow> None)"

fun dec_int :: "json list \<Rightarrow> int \<Rightarrow> int option" where
  "dec_int [] acc = Some acc"
| "dec_int (j # js) acc =
     (case j of
        JNum lit \<Rightarrow> (case ParseInt lit of (n, None) \<Rightarrow> dec_int js n | (n, Some e) \<Rightarrow> None)
      | JNull \<Rightarrow> dec_int js acc
      | _ \<Rightarrow> None)"

text \<open>A \<^verbatim>\<open>*int\<close>: the value is a new number, or nil again.\<close>

fun dec_int_ptr :: "json list \<Rightarrow> int option \<Rightarrow> int option option" where
  "dec_int_ptr [] acc = Some acc"
| "dec_int_ptr (j # js) acc =
     (case j of
        JNum lit \<Rightarrow> (case ParseInt lit of (n, None) \<Rightarrow> dec_int_ptr js (Some n) | (n, Some e) \<Rightarrow> None)
      | JNull \<Rightarrow> dec_int_ptr js None
      | _ \<Rightarrow> None)"

definition dec_raw :: "json list \<Rightarrow> raw" where
  "dec_raw js = (if js = [] then None else Some (last js))"

fun dec_elems :: "json list \<Rightarrow> string list option" where
  "dec_elems [] = Some []"
| "dec_elems (j # js) =
     (case (case j of JStr s \<Rightarrow> Some s | JNull \<Rightarrow> Some [] | _ \<Rightarrow> None) of
        None \<Rightarrow> None
      | Some s \<Rightarrow> (case dec_elems js of None \<Rightarrow> None | Some ss \<Rightarrow> Some (s # ss)))"

fun dec_strings :: "json list \<Rightarrow> string list option \<Rightarrow> string list option option" where
  "dec_strings [] acc = Some acc"
| "dec_strings (j # js) acc =
     (case j of
        JArr xs \<Rightarrow> (case dec_elems xs of None \<Rightarrow> None | Some ss \<Rightarrow> dec_strings js (Some ss))
      | JNull \<Rightarrow> dec_strings js None
      | _ \<Rightarrow> None)"

section \<open>Round trips of single fields\<close>

lemma dec_elems_map [simp]: "dec_elems (map JStr ss) = Some ss"
  by (induction ss) auto

lemma dec_strings_json [simp]: "dec_strings [json_strings xs] None = Some xs"
  by (cases xs) (simp_all add: json_strings_def)

lemma dec_int_json [simp]: "0 \<le> n \<Longrightarrow> n \<le> max_int64 \<Longrightarrow> dec_int [json_int n] 0 = Some n"
  by (simp add: json_int_def FormatInt_def ParseInt_FormatUint)

lemma matching_Nil [simp]: "matching k [] = []"
  by (simp add: matching_def)

lemma matching_Cons [simp]:
  "matching k ((k', j) # kvs) = (if ToLower k' = ToLower k then [j] else []) @ matching k kvs"
  by (simp add: matching_def)

lemma matching_append [simp]: "matching k (xs @ ys) = matching k xs @ matching k ys"
  by (simp add: matching_def)

lemma field_unless_simps [simp]:
  "field_unless True k j = []" "field_unless False k j = [(k, j)]"
  by (simp_all add: field_unless_def)

end
