(* ===== verification/Auth.thy ===== *)
theory Auth
  imports Json
begin

text \<open>
  Authentication of an upgrade request: \<^verbatim>\<open>auth/auth.go\<close>. The package \<^verbatim>\<open>golang-jwt\<close> is the parameter
  \<open>jwtlib\<close>: its parser, given the options the code builds, either fails or yields the claims of a
  token, and it reads the expiry time from claims.
\<close>

section \<open>Requests and results\<close>

text \<open>The parts of an \<^verbatim>\<open>http.Request\<close> that the sources read: \<^verbatim>\<open>Header.Get\<close> and \<^verbatim>\<open>URL.Query().Get\<close>.\<close>

record httpReq =
  rq_Header :: "string \<Rightarrow> string"
  rq_Query :: "string \<Rightarrow> string"

type_synonym claims = "(string \<times> json) list"

text \<open>\<open>au_ExpiresAt\<close> is nothing for the zero time.\<close>

record Result =
  au_UserKey :: string
  au_ExpiresAt :: "int option"
  au_Claims :: claims

text \<open>A verifier may return a nil result without an error.\<close>

type_synonym Verifier = "httpReq \<Rightarrow> Result option result"

record JWTConfig =
  jwt_Secret :: string
  jwt_Audience :: string
  jwt_Issuer :: string

text \<open>The options of the parser, and the library: parsing with the key, and \<^verbatim>\<open>GetExpirationTime\<close>.\<close>

datatype parserOpt = ValidMethods "string list" | WithAudience string | WithIssuer string

record jwtlib =
  jwt_parse :: "parserOpt list \<Rightarrow> string \<Rightarrow> string \<Rightarrow> claims result"
  jwt_expiry :: "claims \<Rightarrow> int option result"

definition parserOpts :: "JWTConfig \<Rightarrow> parserOpt list" where
  "parserOpts cfg = [ValidMethods [''HS256'']]
     @ (if jwt_Audience cfg \<noteq> [] then [WithAudience (jwt_Audience cfg)] else [])
     @ (if jwt_Issuer cfg \<noteq> [] then [WithIssuer (jwt_Issuer cfg)] else [])"

section \<open>The verifiers\<close>

definition extractToken :: "httpReq \<Rightarrow> string" where
  "extractToken r =
     (let h = rq_Header r ''Authorization'' in
      if h \<noteq> [] \<and> HasPrefix (ToLower h) ''bearer '' then TrimSpace (drop 7 h) else rq_Query r ''token'')"

text \<open>The type assertion \<^verbatim>\<open>claims[k].(string)\<close>, with the empty string for a failed one.\<close>

definition claim_string :: "claims \<Rightarrow> string \<Rightarrow> string" where
  "claim_string cs k = (case map_of cs k of Some (JStr s) \<Rightarrow> s | _ \<Rightarrow> [])"

definition claimed_user :: "claims \<Rightarrow> string" where
  "claimed_user cs =
     (let sub = claim_string cs ''sub'' in if sub = [] then claim_string cs ''userKey'' else sub)"

definition NewJWT :: "jwtlib \<Rightarrow> JWTConfig \<Rightarrow> Verifier" where
  "NewJWT J cfg r =
     (let tok = extractToken r in
      if tok = [] then Inl ErrUnauthorized
      else case jwt_parse J (parserOpts cfg) (jwt_Secret cfg) tok of
          Inl e \<Rightarrow> Inl ErrUnauthorized
        | Inr cs \<Rightarrow>
            let sub = claimed_user cs; uk = rq_Query r ''userKey'' in
            if sub = [] then Inl ErrUnauthorized
            else if uk \<noteq> [] \<and> uk \<noteq> sub then Inl ErrUnauthorized
            else Inr (Some \<lparr>au_UserKey = sub,
                        au_ExpiresAt = (case jwt_expiry J cs of Inr (Some t) \<Rightarrow> Some t | _ \<Rightarrow> None),
                        au_Claims = cs\<rparr>))"

definition NewInsecure :: Verifier where
  "NewInsecure r =
     (let uk = rq_Query r ''userKey'' in
      if uk = [] then Inl ErrUnauthorized
      else Inr (Some \<lparr>au_UserKey = uk, au_ExpiresAt = None, au_Claims = []\<rparr>))"

section \<open>What a verified identity rests on\<close>

text \<open>
  Where the token comes from: the \<^verbatim>\<open>Authorization\<close> header when it carries a bearer token, and the
  query otherwise. A header with a bearer scheme and no token does not fall back to the query.
\<close>

lemma extractToken_header:
  "HasPrefix (ToLower (rq_Header r ''Authorization'')) ''bearer '' \<Longrightarrow>
   extractToken r = TrimSpace (drop 7 (rq_Header r ''Authorization''))"
  by (auto simp: extractToken_def Let_def HasPrefix_def ToLower_def)

text \<open>
  A verified identity is the token's. The verifier accepts a request exactly when it carries a
  token that the parser accepts under the configured secret with \<^verbatim>\<open>HS256\<close> as the only algorithm and the
  configured audience and issuer, the claims name a user, and the query names no other user. The
  identity is then the one of the claims, and every rejection is the error \<^verbatim>\<open>ErrUnauthorized\<close>.
\<close>

theorem verified_identity:
  "(NewJWT J cfg r = Inr (Some res) \<longleftrightarrow>
     (\<exists>cs. extractToken r \<noteq> [] \<and> jwt_parse J (parserOpts cfg) (jwt_Secret cfg) (extractToken r) = Inr cs
       \<and> claimed_user cs \<noteq> [] \<and> rq_Query r ''userKey'' \<in> {[], claimed_user cs}
       \<and> au_UserKey res = claimed_user cs \<and> au_Claims res = cs
       \<and> au_ExpiresAt res = (case jwt_expiry J cs of Inr (Some t) \<Rightarrow> Some t | _ \<Rightarrow> None)))
   \<and> (\<forall>ms. ValidMethods ms \<in> set (parserOpts cfg) \<longleftrightarrow> ms = [''HS256''])
   \<and> (\<forall>a. WithAudience a \<in> set (parserOpts cfg) \<longleftrightarrow> a = jwt_Audience cfg \<and> a \<noteq> [])
   \<and> (\<forall>i. WithIssuer i \<in> set (parserOpts cfg) \<longleftrightarrow> i = jwt_Issuer cfg \<and> i \<noteq> [])
   \<and> (\<exists>y. NewJWT J cfg r = Inr (Some y)) = (NewJWT J cfg r \<noteq> Inl ErrUnauthorized)"
proof -
  have "NewJWT J cfg r = Inr (Some res) \<longleftrightarrow>
     (\<exists>cs. extractToken r \<noteq> [] \<and> jwt_parse J (parserOpts cfg) (jwt_Secret cfg) (extractToken r) = Inr cs
       \<and> claimed_user cs \<noteq> [] \<and> rq_Query r ''userKey'' \<in> {[], claimed_user cs}
       \<and> au_UserKey res = claimed_user cs \<and> au_Claims res = cs
       \<and> au_ExpiresAt res = (case jwt_expiry J cs of Inr (Some t) \<Rightarrow> Some t | _ \<Rightarrow> None))"
    by (cases res) (auto simp: NewJWT_def Let_def split: sum.splits)
  moreover have "(\<exists>y. NewJWT J cfg r = Inr (Some y)) = (NewJWT J cfg r \<noteq> Inl ErrUnauthorized)"
    by (auto simp: NewJWT_def Let_def split: sum.splits)
  ultimately show ?thesis by (auto simp: parserOpts_def)
qed

end
