(* ===== verification/PathMatch.thy ===== *)
theory PathMatch
  imports Prelude
begin

text \<open>
  \<^verbatim>\<open>path.Match\<close> of the Go standard library, on ASCII text, with its helpers \<^verbatim>\<open>scanChunk\<close>,
  \<^verbatim>\<open>matchChunk\<close> and \<^verbatim>\<open>getEsc\<close>, as the authorization rules use it. The lemmas describe how it treats
  text in which every metacharacter is escaped.
\<close>

definition ErrBadPattern :: goerr where "ErrBadPattern = Err ''syntax error in pattern''"

abbreviation backslash :: char where "backslash \<equiv> CHR 0x5C"

section \<open>The algorithm\<close>

text \<open>The scan of a chunk: up to a star outside a character class; an escaped byte is skipped.\<close>

fun scan_chunk :: "bool \<Rightarrow> string \<Rightarrow> string \<times> string" where
  "scan_chunk inrange [] = ([], [])"
| "scan_chunk inrange (c # cs) =
     (if c = backslash then
        (case cs of
           [] \<Rightarrow> ([c], [])
         | d # ds \<Rightarrow> (let (a, b) = scan_chunk inrange ds in (c # d # a, b)))
      else if c = CHR ''['' then (let (a, b) = scan_chunk True cs in (c # a, b))
      else if c = CHR '']'' then (let (a, b) = scan_chunk False cs in (c # a, b))
      else if c = CHR ''*'' \<and> \<not> inrange then ([], c # cs)
      else (let (a, b) = scan_chunk inrange cs in (c # a, b)))"

definition scanChunk :: "string \<Rightarrow> bool \<times> string \<times> string" where
  "scanChunk pattern =
     (let p = dropWhile (\<lambda>c. c = CHR ''*'') pattern; (chunk, rest) = scan_chunk False p in
      (p \<noteq> pattern, chunk, rest))"

definition getEsc :: "string \<Rightarrow> (char \<times> string) result" where
  "getEsc chunk =
     (case chunk of
        [] \<Rightarrow> Inl ErrBadPattern
      | c # cs \<Rightarrow>
          if c = CHR ''-'' \<or> c = CHR '']'' then Inl ErrBadPattern
          else let chunk' = (if c = backslash then cs else chunk) in
            (case chunk' of
               [] \<Rightarrow> Inl ErrBadPattern
             | r # rest \<Rightarrow> if rest = [] then Inl ErrBadPattern else Inr (r, rest)))"

lemma getEsc_shorter: "getEsc chunk = Inr (r, rest) \<Longrightarrow> length rest < length chunk \<and> rest \<noteq> []"
  by (auto simp: getEsc_def Let_def split: list.splits if_splits)

text \<open>The ranges of a character class; \<open>r\<close> is the byte to match, \<open>n\<close> the number of ranges so far.\<close>

function class_ranges :: "nat \<Rightarrow> nat \<Rightarrow> bool \<Rightarrow> string \<Rightarrow> (bool \<times> string) result" where
  "class_ranges r n matched chunk =
     (if chunk \<noteq> [] \<and> hd chunk = CHR '']'' \<and> n > 0 then Inr (matched, tl chunk)
      else case getEsc chunk of
          Inl e \<Rightarrow> Inl e
        | Inr (lo, chunk1) \<Rightarrow>
            (case (if hd chunk1 = CHR ''-'' then getEsc (tl chunk1) else Inr (lo, chunk1)) of
               Inl e \<Rightarrow> Inl e
             | Inr (hi, chunk2) \<Rightarrow>
                 class_ranges r (n + 1) (matched \<or> (of_char lo \<le> r \<and> r \<le> of_char hi)) chunk2))"
  by pat_completeness auto
termination
proof (relation "measure (\<lambda>(r, n, matched, chunk). length chunk)", goal_cases)
  case 1
  then show ?case by simp
next
  case (2 r n matched chunk x2 lo chunk1 x2a hi chunk2)
  then have "length chunk1 < length chunk" "chunk1 \<noteq> []" using getEsc_shorter by auto
  with 2 show ?case by (auto split: if_splits dest: getEsc_shorter)
qed

declare class_ranges.simps [simp del]

lemma class_ranges_shorter:
  "class_ranges r n matched chunk = Inr (b, rest) \<Longrightarrow> length rest < length chunk"
proof (induction r n matched chunk rule: class_ranges.induct)
  case (1 r n matched chunk)
  show ?case
  proof (cases "chunk \<noteq> [] \<and> hd chunk = CHR '']'' \<and> n > 0")
    case True
    with "1.prems" show ?thesis by (auto simp: class_ranges.simps [of r n matched chunk])
  next
    case False
    with "1.prems" obtain lo chunk1 hi chunk2 where
      e: "getEsc chunk = Inr (lo, chunk1)"
      "(if hd chunk1 = CHR ''-'' then getEsc (tl chunk1) else Inr (lo, chunk1)) = Inr (hi, chunk2)"
      "class_ranges r (n + 1) (matched \<or> (of_char lo \<le> r \<and> r \<le> of_char hi)) chunk2 = Inr (b, rest)"
      by (subst (asm) class_ranges.simps) (auto split: sum.splits prod.splits if_splits)
    have "length chunk1 < length chunk \<and> chunk1 \<noteq> []" by (rule getEsc_shorter [OF e(1)])
    moreover have "length chunk2 \<le> length chunk1"
      using e(2) getEsc_shorter [of "tl chunk1" hi chunk2] by (auto split: if_splits)
    moreover have "length rest < length chunk2" using "1.IH" [OF False e(1) refl e(2) refl e(3)] .
    ultimately show ?thesis by linarith
  qed
qed

text \<open>
  \<^verbatim>\<open>matchChunk\<close>: the rest of the name, or nothing when the chunk does not match. After a mismatch
  the chunk is still read to its end, so that a bad pattern is always reported.
\<close>

function match_chunk :: "bool \<Rightarrow> string \<Rightarrow> string \<Rightarrow> string option result" where
  "match_chunk failed chunk s =
     (case chunk of
        [] \<Rightarrow> Inr (if failed then None else Some s)
      | c # cs \<Rightarrow>
          let failed = (failed \<or> s = []) in
          if c = CHR ''['' then
            (let r = (if failed then 0 else of_char (hd s)); s1 = (if failed then s else tl s);
                 negated = (cs \<noteq> [] \<and> hd cs = CHR ''^''); body = (if negated then tl cs else cs) in
             case class_ranges r 0 False body of
               Inl e \<Rightarrow> Inl e
             | Inr (matched, rest) \<Rightarrow> match_chunk (failed \<or> matched = negated) rest s1)
          else if c = CHR ''?'' then
            (if failed then match_chunk True cs s
             else match_chunk (hd s = CHR ''/'') cs (tl s))
          else if c = backslash \<and> cs = [] then Inl ErrBadPattern
          else
            (let lit = (if c = backslash then hd cs else c); rest = (if c = backslash then tl cs else cs) in
             if failed then match_chunk True rest s
             else match_chunk (lit \<noteq> hd s) rest (tl s)))"
  by pat_completeness auto
termination
proof (relation "measure (\<lambda>(failed, chunk, s). length chunk)", goal_cases)
  case 1
  then show ?case by simp
next
  case (2 failed chunk s c cs x r s1 negated body x2 matched rest)
  then have "class_ranges r 0 False body = Inr (matched, rest)" by simp
  then have "length rest < length body" by (rule class_ranges_shorter)
  moreover have "length body \<le> length cs" using 2 by simp
  ultimately show ?case using 2(1) by simp
qed auto

declare match_chunk.simps [simp del]

definition matchChunk :: "string \<Rightarrow> string \<Rightarrow> string option result" where
  "matchChunk chunk s = match_chunk False chunk s"

text \<open>The tries after a star: the chunk at every later position up to a slash.\<close>

fun star_try :: "string \<Rightarrow> bool \<Rightarrow> string \<Rightarrow> string option result" where
  "star_try chunk final [] = Inr None"
| "star_try chunk final (c # cs) =
     (if c = CHR ''/'' then Inr None
      else case matchChunk chunk cs of
          Inl e \<Rightarrow> Inl e
        | Inr (Some t) \<Rightarrow> (if final \<and> t \<noteq> [] then star_try chunk final cs else Inr (Some t))
        | Inr None \<Rightarrow> star_try chunk final cs)"

lemma scan_chunk_append: "scan_chunk b p = (chunk, rest) \<Longrightarrow> p = chunk @ rest"
proof (induction b p arbitrary: chunk rest rule: scan_chunk.induct)
  case (2 inrange c cs)
  then show ?case
    by (cases cs) (auto simp: Let_def split: prod.splits if_splits)
qed simp

lemma scan_chunk_nonempty: "scan_chunk False (c # cs) = (chunk, rest) \<Longrightarrow> c \<noteq> CHR ''*'' \<Longrightarrow> chunk \<noteq> []"
  by (auto simp: Let_def split: prod.splits if_splits list.splits)

lemma scanChunk_shorter:
  assumes "scanChunk p = (star, chunk, rest)" and "p \<noteq> []"
  shows "length rest < length p"
proof -
  let ?q = "dropWhile (\<lambda>c. c = CHR ''*'') p"
  have sc: "scan_chunk False ?q = (chunk, rest)" and star: "star \<longleftrightarrow> ?q \<noteq> p"
    using assms(1) by (auto simp: scanChunk_def Let_def split: prod.splits)
  have len: "length ?q = length chunk + length rest" using scan_chunk_append [OF sc] by (metis length_append)
  show ?thesis
  proof (cases star)
    case True
    have split: "takeWhile (\<lambda>c. c = CHR ''*'') p @ ?q = p" by simp
    moreover have "takeWhile (\<lambda>c. c = CHR ''*'') p \<noteq> []"
    proof
      assume "takeWhile (\<lambda>c. c = CHR ''*'') p = []"
      with split have "?q = p" by (metis append_Nil)
      with star True show False by simp
    qed
    ultimately have "length (takeWhile (\<lambda>c. c = CHR ''*'') p) + length ?q = length p"
      and "0 < length (takeWhile (\<lambda>c. c = CHR ''*'') p)" by (simp_all flip: length_append)
    then have "length ?q < length p" by linarith
    with len show ?thesis by linarith
  next
    case False
    with star have q: "?q = p" by simp
    from assms(2) obtain c cs where p: "p = c # cs" by (cases p) auto
    have "c \<noteq> CHR ''*''"
    proof
      assume "c = CHR ''*''"
      then have "length ?q \<le> length cs" using p length_dropWhile_le [of "\<lambda>c. c = CHR ''*''" cs] by simp
      with q p show False by simp
    qed
    then have "chunk \<noteq> []" using scan_chunk_nonempty [of c cs chunk rest] sc q p by simp
    with len q show ?thesis by simp
  qed
qed

text \<open>The rest of the pattern is checked before a mismatch is reported.\<close>

function check_rest :: "string \<Rightarrow> bool result" where
  "check_rest pattern =
     (if pattern = [] then Inr False
      else let (star, chunk, rest) = scanChunk pattern in
        case matchChunk chunk [] of Inl e \<Rightarrow> Inl e | Inr _ \<Rightarrow> check_rest rest)"
  by pat_completeness auto
termination
  by (relation "measure length") (auto dest: scanChunk_shorter [OF sym])

declare check_rest.simps [simp del]

function Match :: "string \<Rightarrow> string \<Rightarrow> bool result" where
  "Match pattern name =
     (if pattern = [] then Inr (name = [])
      else let (star, chunk, rest) = scanChunk pattern in
        if star \<and> chunk = [] then Inr (CHR ''/'' \<notin> set name)
        else case matchChunk chunk name of
            Inl e \<Rightarrow> Inl e
          | Inr r \<Rightarrow>
              (case r of
                 Some t \<Rightarrow>
                   if t = [] \<or> rest \<noteq> [] then Match rest t
                   else if star then
                     (case star_try chunk (rest = []) name of
                        Inl e \<Rightarrow> Inl e
                      | Inr (Some u) \<Rightarrow> Match rest u
                      | Inr None \<Rightarrow> check_rest rest)
                   else check_rest rest
               | None \<Rightarrow>
                   if star then
                     (case star_try chunk (rest = []) name of
                        Inl e \<Rightarrow> Inl e
                      | Inr (Some u) \<Rightarrow> Match rest u
                      | Inr None \<Rightarrow> check_rest rest)
                   else check_rest rest))"
  by pat_completeness auto
termination
  by (relation "measure (\<lambda>(p, n). length p)") (auto dest: scanChunk_shorter [OF sym])

declare Match.simps [simp del]

section \<open>Escaped text\<close>

definition is_meta :: "char \<Rightarrow> bool" where
  "is_meta c \<longleftrightarrow> c = CHR ''*'' \<or> c = CHR ''?'' \<or> c = CHR ''['' \<or> c = CHR '']'' \<or> c = backslash"

fun escape :: "string \<Rightarrow> string" where
  "escape [] = []"
| "escape (c # cs) = (if is_meta c then backslash # c # escape cs else c # escape cs)"

lemma escape_append [simp]: "escape (a @ b) = escape a @ escape b"
  by (induction a) auto

lemma escape_plain: "list_all (\<lambda>c. \<not> is_meta c) s \<Longrightarrow> escape s = s"
  by (induction s) auto

lemma escape_Nil_iff [simp]: "escape s = [] \<longleftrightarrow> s = []"
  by (cases s) auto

lemma escape_not_star: "s \<noteq> [] \<Longrightarrow> hd (escape s) \<noteq> CHR ''*''"
  by (cases s) (auto simp: is_meta_def)

lemma scan_chunk_escape:
  "rest = [] \<or> hd rest = CHR ''*'' \<Longrightarrow> scan_chunk False (escape s @ rest) = (escape s, rest)"
proof (induction s)
  case Nil
  then show ?case by (cases rest) auto
next
  case (Cons c s)
  then show ?case by (auto simp: is_meta_def)
qed

lemma scanChunk_escape:
  assumes "s \<noteq> []" and "rest = [] \<or> hd rest = CHR ''*''"
  shows "scanChunk (escape s @ rest) = (False, escape s, rest)"
proof -
  obtain c cs where e: "escape s = c # cs" using assms(1) by (cases "escape s") auto
  then have "c \<noteq> CHR ''*''" using escape_not_star [OF assms(1)] by simp
  with e have "dropWhile (\<lambda>c. c = CHR ''*'') (escape s @ rest) = escape s @ rest" by simp
  with scan_chunk_escape [OF assms(2), of s] show ?thesis by (simp add: scanChunk_def)
qed

lemma match_chunk_failed: "match_chunk True (escape s) t = Inr None"
proof (induction s)
  case Nil
  then show ?case by (simp add: match_chunk.simps)
next
  case (Cons c s)
  then show ?case by (subst match_chunk.simps) (auto simp: is_meta_def)
qed

lemma matchChunk_escape:
  "matchChunk (escape s) t = Inr (if HasPrefix t s then Some (drop (length s) t) else None)"
  unfolding matchChunk_def
proof (induction s arbitrary: t)
  case Nil
  then show ?case by (simp add: match_chunk.simps HasPrefix_def)
next
  case (Cons c s)
  show ?case
  proof (cases t)
    case Nil
    then show ?thesis
      by (subst match_chunk.simps) (auto simp: is_meta_def HasPrefix_def match_chunk_failed)
  next
    case (Cons d ds)
    then show ?thesis
      using Cons.IH [of ds]
      by (cases "c = d"; subst match_chunk.simps) (auto simp: is_meta_def HasPrefix_def match_chunk_failed)
  qed
qed

lemma Match_escape: "Match (escape s) t = Inr (t = s)"
proof (cases "s = []")
  case True
  then show ?thesis by (simp add: Match.simps)
next
  case False
  with scanChunk_escape [OF False, of "[]"] matchChunk_escape [of s t] show ?thesis
    by (subst Match.simps) (auto simp: HasPrefix_iff Match.simps [of "[]"] check_rest.simps [of "[]"])
qed

lemma Match_escape_star:
  assumes "s \<noteq> []"
  shows "Match (escape s @ ''*'') t = Inr (\<exists>r. t = s @ r \<and> CHR ''/'' \<notin> set r)"
proof -
  have star: "scanChunk ''*'' = (True, [], [])" by (simp add: scanChunk_def)
  have m: "Match ''*'' r = Inr (CHR ''/'' \<notin> set r)" for r by (subst Match.simps) (simp add: star)
  have c: "check_rest ''*'' = Inr False"
    by (subst check_rest.simps) (simp add: star matchChunk_def match_chunk.simps check_rest.simps [of "[]"])
  from scanChunk_escape [OF assms, of "''*''"] matchChunk_escape [of s t] show ?thesis
    by (subst Match.simps) (auto simp: HasPrefix_iff m c)
qed

end
