(* ===== verification/Authz.thy ===== *)
theory Authz
  imports PathMatch Json
begin

text \<open>
  Topic authorization: \<^verbatim>\<open>authz/authz.go\<close>. An authorizer maps a request to nil (allow) or an error; the
  rules are a list of glob patterns per action, with the requesting identity substituted for
  \<^verbatim>\<open>{userKey}\<close>. The lemmas show that the substitution is literal: an identity cannot act as a
  pattern.
\<close>

section \<open>Operations\<close>

definition ActionSubscribe :: string where "ActionSubscribe = ''subscribe''"
definition ActionPublish :: string where "ActionPublish = ''publish''"
definition ActionLock :: string where "ActionLock = ''lock''"

record Request =
  req_UserKey :: string
  req_Action :: string
  req_Topic :: string
  req_Claims :: "(string \<times> json) list"

text \<open>\<open>None\<close> is the nil error.\<close>

type_synonym Authorizer = "Request \<Rightarrow> goerr option"

definition denial :: "Request \<Rightarrow> goerr" where
  "denial req = Wrap [] ErrDenied ('': '' @ req_Action req @ '' on '' @ Quote (req_Topic req))"

definition AllowAll :: Authorizer where "AllowAll req = None"

definition DenyAll :: Authorizer where "DenyAll req = Some (denial req)"

text \<open>The metacharacters that are escaped are those of \<open>is_meta\<close>.\<close>

definition escapeGlob :: "string \<Rightarrow> string" where
  "escapeGlob s = concat (map (\<lambda>r. if r \<in> {CHR ''*'', CHR ''?'', CHR ''['', CHR '']'', backslash} then [backslash, r] else [r]) s)"

definition expand :: "string \<Rightarrow> string \<Rightarrow> string" where
  "expand pat uk =
     (if \<not> Contains pat ''{userKey}'' then pat
      else ReplaceAll pat ''{userKey}'' (escapeGlob uk))"

definition slashes :: "string \<Rightarrow> string" where
  "slashes s = ReplaceAll s ''.'' ''/''"

definition matchTopic :: "string \<Rightarrow> string \<Rightarrow> bool" where
  "matchTopic pat topic =
     (if pat = ''*'' then True
      else case Match (slashes pat) (slashes topic) of Inl e \<Rightarrow> False | Inr ok \<Rightarrow> ok)"

type_synonym Rules = "(string \<times> string list) list"

definition rules_of :: "Rules \<Rightarrow> string \<Rightarrow> string list" where
  "rules_of rules act = (case map_of rules act of None \<Rightarrow> [] | Some ps \<Rightarrow> ps)"

fun any_match :: "string list \<Rightarrow> Request \<Rightarrow> bool" where
  "any_match [] req = False"
| "any_match (p # ps) req = (if matchTopic (expand p (req_UserKey req)) (req_Topic req) then True else any_match ps req)"

definition Authorize :: "Rules \<Rightarrow> Authorizer" where
  "Authorize rules req = (if any_match (rules_of rules (req_Action req)) req then None else Some (denial req))"

definition Denied :: "goerr \<Rightarrow> bool" where
  "Denied e = errors_Is e ErrDenied"

text \<open>
  \<^verbatim>\<open>ParseRules\<close> on the value of the JSON text; a text that is not JSON, or not an object of string
  lists, is an error of \<^verbatim>\<open>json.Unmarshal\<close>. The loops stop at the first error.
\<close>

fun check_patterns :: "string \<Rightarrow> string list \<Rightarrow> goerr option" where
  "check_patterns act [] = None"
| "check_patterns act (p # ps) =
     (case Match (slashes (expand p ''x'')) [] of
        Inl e \<Rightarrow> Some (Wrap (''parse authz rules: bad pattern '' @ Quote p @ '' for '' @ act @ '': '') e [])
      | Inr _ \<Rightarrow> check_patterns act ps)"

fun build_rules :: "(string \<times> string list) list \<Rightarrow> Rules \<Rightarrow> Rules result" where
  "build_rules [] acc = Inr acc"
| "build_rules ((act, ps) # rest) acc =
     (if act \<noteq> ActionSubscribe \<and> act \<noteq> ActionPublish \<and> act \<noteq> ActionLock then
        Inl (Err (''parse authz rules: unknown action '' @ Quote act @ '' (want '' @ Quote ActionSubscribe @ '', ''
          @ Quote ActionPublish @ '' or '' @ Quote ActionLock @ '')''))
      else case check_patterns act ps of
          Some e \<Rightarrow> Inl e
        | None \<Rightarrow> build_rules rest (acc @ [(act, ps)]))"

text \<open>A \<^verbatim>\<open>map[string][]string\<close>; a list that is \<^verbatim>\<open>null\<close> is nil, the last of equal keys wins.\<close>

fun dec_rule_map :: "(string \<times> json) list \<Rightarrow> (string \<times> string list) list option" where
  "dec_rule_map [] = Some []"
| "dec_rule_map ((k, j) # kvs) =
     (case (dec_strings [j] None, dec_rule_map kvs) of
        (Some ss, Some rest) \<Rightarrow>
          Some (if k \<in> fst ` set rest then rest else (k, (case ss of None \<Rightarrow> [] | Some xs \<Rightarrow> xs)) # rest)
      | _ \<Rightarrow> None)"

text \<open>\<open>raw\<close> is nothing for an empty or blank text; the result is nothing for nil rules.\<close>

definition ParseRules :: "blob option \<Rightarrow> Rules option result" where
  "ParseRules raw =
     (case raw of
        None \<Rightarrow> Inr None
      | Some b \<Rightarrow>
          (case (case object_fields b of None \<Rightarrow> None | Some kvs \<Rightarrow> dec_rule_map kvs) of
             None \<Rightarrow> Inl (Wrap ''parse authz rules: '' (Err ''invalid JSON'') [])
           | Some parsed \<Rightarrow> (case build_rules parsed [] of Inl e \<Rightarrow> Inl e | Inr rules \<Rightarrow> Inr (Some rules))))"

section \<open>The substitution is literal\<close>

lemma escapeGlob_escape: "escapeGlob s = escape s"
  by (induction s) (auto simp: escapeGlob_def is_meta_def)

lemma slashes_Nil [simp]: "slashes [] = []"
  by (simp add: slashes_def ReplaceAll.simps)

lemma slashes_Cons [simp]: "slashes (c # s) = (if c = CHR ''.'' then CHR ''/'' else c) # slashes s"
  by (simp add: slashes_def ReplaceAll.simps [of "c # s"] HasPrefix_def)

lemma slashes_append [simp]: "slashes (a @ b) = slashes a @ slashes b"
  by (induction a) auto

lemma slashes_escape: "slashes (escape s) = escape (slashes s)"
  by (induction s) (auto simp: is_meta_def)

lemma slashes_plain: "list_all (\<lambda>c. \<not> is_meta c) s \<Longrightarrow> list_all (\<lambda>c. \<not> is_meta c) (slashes s)"
  by (induction s) (auto simp: is_meta_def)

lemma slashes_length [simp]: "length (slashes s) = length s"
  by (induction s) auto

lemma ReplaceAll_miss: "CHR ''{'' \<notin> set s \<Longrightarrow> ReplaceAll s ''{userKey}'' x = s"
proof (induction s)
  case Nil
  then show ?case by (simp add: ReplaceAll.simps)
next
  case (Cons c s)
  then show ?case by (auto simp: ReplaceAll.simps [of "c # s"] HasPrefix_def)
qed

lemma ReplaceAll_token:
  assumes "CHR ''{'' \<notin> set pre" and "CHR ''{'' \<notin> set post"
  shows "ReplaceAll (pre @ ''{userKey}'' @ post) ''{userKey}'' x = pre @ x @ post"
  using assms(1)
proof (induction pre)
  case Nil
  have "ReplaceAll (''{userKey}'' @ post) ''{userKey}'' x = x @ ReplaceAll post ''{userKey}'' x"
    by (subst ReplaceAll.simps) (simp add: HasPrefix_def)
  then show ?case using ReplaceAll_miss [OF assms(2)] by simp
next
  case (Cons c pre)
  then show ?case by (subst ReplaceAll.simps) (auto simp: HasPrefix_def)
qed

lemma Contains_token: "Contains (pre @ ''{userKey}'' @ post) ''{userKey}''"
proof (induction pre)
  case Nil
  then show ?case by (simp add: HasPrefix_def)
next
  case (Cons c pre)
  then show ?case by simp
qed

lemma expand_token:
  assumes "CHR ''{'' \<notin> set pre" and "CHR ''{'' \<notin> set post"
  shows "expand (pre @ ''{userKey}'' @ post) uk = pre @ escape uk @ post"
  using ReplaceAll_token [OF assms, of "escapeGlob uk"] Contains_token [of pre post]
  by (simp only: expand_def escapeGlob_escape if_False not_True_eq_False)

text \<open>A pattern of plain text around the token matches exactly the topic it spells out.\<close>

definition plain :: "string \<Rightarrow> bool" where
  "plain s \<longleftrightarrow> list_all (\<lambda>c. \<not> is_meta c) s \<and> CHR ''{'' \<notin> set s"

lemma tenant_pattern:
  assumes pre: "plain pre"
  shows "matchTopic (expand (pre @ ''{userKey}'' @ ''.*'') uk) topic \<longleftrightarrow>
    (\<exists>r. slashes topic = slashes pre @ slashes uk @ ''/'' @ r \<and> CHR ''/'' \<notin> set r)"
proof -
  have ex: "expand (pre @ ''{userKey}'' @ ''.*'') uk = pre @ escape uk @ ''.*''"
    using pre by (intro expand_token) (simp_all add: plain_def)
  have esc: "slashes pre = escape (slashes pre)"
    using pre slashes_plain [of pre] escape_plain [of "slashes pre"] by (simp add: plain_def)
  have sl: "slashes (pre @ escape uk @ ''.*'') = escape (slashes pre @ slashes uk @ ''/'') @ ''*''"
    by (simp add: slashes_escape is_meta_def esc [symmetric])
  have ne: "pre @ escape uk @ ''.*'' \<noteq> ''*''"
  proof
    assume "pre @ escape uk @ ''.*'' = ''*''"
    then have "length (pre @ escape uk @ ''.*'') = length ''*''" by (rule arg_cong)
    then show False by simp
  qed
  have "matchTopic (pre @ escape uk @ ''.*'') topic \<longleftrightarrow>
      (\<exists>r. slashes topic = (slashes pre @ slashes uk @ ''/'') @ r \<and> CHR ''/'' \<notin> set r)"
    using ne Match_escape_star [of "slashes pre @ slashes uk @ ''/''" "slashes topic"]
    by (simp only: matchTopic_def if_False sl sum.case append_is_Nil_conv) simp
  then show ?thesis by (simp only: ex append_assoc)
qed

lemma first_sep_unique:
  "r @ c # a = r' @ c # b \<Longrightarrow> c \<notin> set r \<Longrightarrow> c \<notin> set r' \<Longrightarrow> a = b"
proof (induction r arbitrary: r')
  case Nil
  then show ?case by (cases r') auto
next
  case (Cons x r)
  then show ?case by (cases r') auto
qed

lemma last_sep_unique:
  assumes "a @ c # r = b @ c # r'" and "c \<notin> set r" and "c \<notin> set r'"
  shows "a = b"
  using first_sep_unique [of "rev r" c "rev a" "rev r'" "rev b"] arg_cong [OF assms(1), of rev] assms(2,3) by simp

lemma slashes_dotless: "CHR ''.'' \<notin> set s \<Longrightarrow> slashes s = s"
  by (induction s) (auto simp: slashes_Cons)

text \<open>
  An identity is not a pattern (C20). Under a pattern \<^verbatim>\<open><text>{userKey}.*\<close> with plain text in front, a user
  is matched with exactly the topics that spell out the text, its own identity and one more
  segment (a dot and a slash being the same separator), whatever metacharacters the identity
  contains. Two users that are matched with the same topic have identities that are equal up to
  their separators, and so are the same user when neither identity contains a dot.
\<close>

theorem tenant_isolation:
  assumes pre: "plain pre"
  shows "(matchTopic (expand (pre @ ''{userKey}'' @ ''.*'') uk) topic \<longleftrightarrow>
      (\<exists>r. slashes topic = slashes (pre @ uk @ ''.'') @ r \<and> CHR ''/'' \<notin> set r))
    \<and> (matchTopic (expand (pre @ ''{userKey}'' @ ''.*'') uk) topic
        \<and> matchTopic (expand (pre @ ''{userKey}'' @ ''.*'') uk') topic \<longrightarrow>
          slashes uk = slashes uk' \<and> (CHR ''.'' \<notin> set uk \<and> CHR ''.'' \<notin> set uk' \<longrightarrow> uk = uk'))"
proof -
  note [simp del] = slashes_append slashes_Cons
  note iff = tenant_pattern [OF pre, of uk topic] and iff' = tenant_pattern [OF pre, of uk' topic]
  have split: "slashes (pre @ uk @ ''.'') @ r = slashes pre @ slashes uk @ ''/'' @ r" for r
    by (simp add: slashes_append slashes_Cons)
  have "slashes uk = slashes uk'"
    if "matchTopic (expand (pre @ ''{userKey}'' @ ''.*'') uk) topic"
      and "matchTopic (expand (pre @ ''{userKey}'' @ ''.*'') uk') topic"
  proof -
    from that obtain r r' where "slashes topic = slashes pre @ slashes uk @ ''/'' @ r" "CHR ''/'' \<notin> set r"
        "slashes topic = slashes pre @ slashes uk' @ ''/'' @ r'" "CHR ''/'' \<notin> set r'"
      unfolding iff iff' by blast
    then show ?thesis using last_sep_unique [of "slashes uk" "CHR ''/''" r "slashes uk'" r'] by simp
  qed
  with iff slashes_dotless [of uk] slashes_dotless [of uk'] show ?thesis unfolding split by metis
qed

theorem tenant_isolation_witness:
  "matchTopic (expand ''tenant.{userKey}.*'' ''a*'') ''tenant.a*.x'' \<and> \<not> matchTopic (expand ''tenant.{userKey}.*'' ''a*'') ''tenant.ab.x''"
proof -
  have "plain ''tenant.''" by (simp add: plain_def is_meta_def)
  note t = tenant_isolation [OF this, of "''a*''"]
  have "matchTopic (expand (''tenant.'' @ ''{userKey}'' @ ''.*'') ''a*'') ''tenant.a*.x''"
    using t [of "''tenant.a*.x''"] by auto
  moreover have "\<not> matchTopic (expand (''tenant.'' @ ''{userKey}'' @ ''.*'') ''a*'') ''tenant.ab.x''"
    using t [of "''tenant.ab.x''"] by auto
  ultimately show ?thesis by simp
qed

text \<open>
  Separators in identities. The escape leaves dots and slashes alone, so the users
  \<^verbatim>\<open>a.b\<close> and \<^verbatim>\<open>a/b\<close> share all their topics.
\<close>

lemma separators_share_topics:
  assumes "plain pre"
  shows "matchTopic (expand (pre @ ''{userKey}'' @ ''.*'') ''a.b'') topic = matchTopic (expand (pre @ ''{userKey}'' @ ''.*'') ''a/b'') topic"
  by (simp only: tenant_pattern [OF assms]) (simp add: slashes_append slashes_Cons)

text \<open>
  Rules decide and fail closed. A request is allowed exactly when a pattern listed for its action
  matches its topic; every other request is refused with an error that is recognised as a
  denial. An action without patterns, and so the empty rule set, refuses every topic.
\<close>

theorem rules_decide:
  "(Authorize rules req = None \<longleftrightarrow>
      (\<exists>p \<in> set (rules_of rules (req_Action req)). matchTopic (expand p (req_UserKey req)) (req_Topic req)))
   \<and> (\<forall>e. Authorize rules req = Some e \<longrightarrow> Denied e)
   \<and> (rules_of rules (req_Action req) = [] \<longrightarrow> Authorize rules req = Some (denial req))"
proof -
  have "any_match ps req \<longleftrightarrow> (\<exists>p \<in> set ps. matchTopic (expand p (req_UserKey req)) (req_Topic req))" for ps
    by (induction ps) auto
  then show ?thesis by (auto simp: Authorize_def Denied_def denial_def)
qed

theorem rules_decide_witness:
  "Denied (the (Authorize [] \<lparr>req_UserKey = ''a'', req_Action = ActionPublish, req_Topic = ''t'', req_Claims = []\<rparr>))"
  using rules_decide [of "[]" "\<lparr>req_UserKey = ''a'', req_Action = ActionPublish, req_Topic = ''t'', req_Claims = []\<rparr>"]
  by (auto simp: rules_of_def)

end
