(* ===== verification/Ssrf.thy ===== *)
theory Ssrf
  imports Prelude "HOL-Library.Word"
begin

unbundle bit_operations_syntax

text \<open>
  The guard on outbound URLs: \<^verbatim>\<open>internal/ssrf/ssrf.go\<close>. An address is a \<^verbatim>\<open>net.IP\<close>, a slice of
  bytes, with \<open>None\<close> for nil. The parsers of the package \<^verbatim>\<open>net\<close> that decide what is blocked
  (\<^verbatim>\<open>ParseIP\<close>, \<^verbatim>\<open>ParseCIDR\<close>, \<^verbatim>\<open>IPNet.Contains\<close>, \<^verbatim>\<open>SplitHostPort\<close>) are written out; the URL
  parser, the resolver and the rendering of an address are arguments.
\<close>

type_synonym ip = "8 word list"

section \<open>Addresses of the package net\<close>

text \<open>The dotted form: four decimal fields without leading zeros.\<close>

fun v4_fields :: "string \<Rightarrow> nat \<Rightarrow> nat \<Rightarrow> nat list \<Rightarrow> nat list option" where
  "v4_fields [] val digits acc = (if digits = 0 \<or> length acc < 3 then None else Some (acc @ [val]))"
| "v4_fields (c # cs) val digits acc =
     (if is_digit c then
        (if digits = 1 \<and> val = 0 then None
         else let val' = val * 10 + digit_val c in if val' > 255 then None else v4_fields cs val' (digits + 1) acc)
      else if c = CHR ''.'' then
        (if digits = 0 \<or> length acc = 3 then None else v4_fields cs 0 0 (acc @ [val]))
      else None)"

definition parse_v4 :: "string \<Rightarrow> ip option" where
  "parse_v4 s = map_option (map of_nat) (v4_fields s 0 0 [])"

definition is_hex :: "char \<Rightarrow> bool" where
  "is_hex c \<longleftrightarrow> (let n = of_char c :: nat in is_digit c \<or> (97 \<le> n \<and> n \<le> 102) \<or> (65 \<le> n \<and> n \<le> 70))"

definition hex_val :: "char \<Rightarrow> nat" where
  "hex_val c = (let n = of_char c :: nat in if is_digit c then n - 48 else if 97 \<le> n then n - 87 else n - 55)"

definition hex_group :: "string \<Rightarrow> ip" where
  "hex_group h = (let n = foldl (\<lambda>a c. a * 16 + hex_val c) 0 h in [of_nat (n div 256), of_nat (n mod 256)])"

text \<open>
  The groups of an IPv6 address; \<open>ell\<close> is the position of the double colon. An address in the
  dotted form may take the place of the last four bytes.
\<close>

function v6_groups :: "string \<Rightarrow> ip \<Rightarrow> nat option \<Rightarrow> (ip \<times> nat option) option" where
  "v6_groups s addr ell =
     (if 16 \<le> length addr then (if s = [] then Some (addr, ell) else None)
      else let h = takeWhile is_hex s; rest = dropWhile is_hex s; addr' = addr @ hex_group h in
        if h = [] \<or> length h > 4 then None
        else if rest = [] then Some (addr', ell)
        else if hd rest = CHR ''.'' then
          (if (ell = None \<and> length addr \<noteq> 12) \<or> length addr + 4 > 16 then None
           else map_option (\<lambda>f. (addr @ f, ell)) (parse_v4 s))
        else if hd rest \<noteq> CHR '':'' \<or> tl rest = [] then None
        else if hd (tl rest) = CHR '':'' then
          (if ell \<noteq> None then None
           else if tl (tl rest) = [] then Some (addr', Some (length addr'))
           else v6_groups (tl (tl rest)) addr' (Some (length addr')))
        else v6_groups (tl rest) addr' ell)"
  by pat_completeness auto
termination
proof (relation "measure (\<lambda>(s, addr, ell). length s)", goal_cases)
  case (2 s addr ell h rest addr')
  then have "s \<noteq> []" by auto
  with 2 show ?case using length_dropWhile_le [of is_hex s] by (cases s) (auto simp del: dropWhile.simps)
next
  case (3 s addr ell h rest addr')
  then have "s \<noteq> []" by auto
  with 3 show ?case using length_dropWhile_le [of is_hex s] by (cases s) (auto simp del: dropWhile.simps)
qed auto

declare v6_groups.simps [simp del]

definition expand_ellipsis :: "ip \<times> nat option \<Rightarrow> ip option" where
  "expand_ellipsis p =
     (case p of
        (addr, None) \<Rightarrow> if length addr < 16 then None else Some addr
      | (addr, Some e) \<Rightarrow> if length addr < 16
          then Some (take e addr @ replicate (16 - length addr) 0 @ drop e addr) else None)"

text \<open>\<^verbatim>\<open>netip.ParseAddr\<close> for addresses without a zone: 4 bytes or 16.\<close>

definition parse_v6 :: "string \<Rightarrow> ip option" where
  "parse_v6 s =
     (if CHR ''%'' \<in> set s then None
      else if HasPrefix s ''::'' then
        (if s = ''::'' then Some (replicate 16 0) else Option.bind (v6_groups (drop 2 s) [] (Some 0)) expand_ellipsis)
      else Option.bind (v6_groups s [] None) expand_ellipsis)"

fun ParseAddr_from :: "string \<Rightarrow> string \<Rightarrow> ip option" where
  "ParseAddr_from s [] = None"
| "ParseAddr_from s (c # cs) =
     (if c = CHR ''.'' then parse_v4 s else if c = CHR '':'' then parse_v6 s
      else if c = CHR ''%'' then None else ParseAddr_from s cs)"

definition ParseAddr :: "string \<Rightarrow> ip option" where
  "ParseAddr s = ParseAddr_from s s"

definition v4_prefix :: ip where "v4_prefix = replicate 10 0 @ [255, 255]"

definition As16 :: "ip \<Rightarrow> ip" where
  "As16 a = (if length a = 4 then v4_prefix @ a else a)"

text \<open>\<^verbatim>\<open>net.ParseIP\<close> returns the 16-byte form.\<close>

definition ParseIP :: "string \<Rightarrow> ip option" where
  "ParseIP s = map_option As16 (ParseAddr s)"

definition To4 :: "ip \<Rightarrow> ip option" where
  "To4 a = (if length a = 4 then Some a
            else if length a = 16 \<and> take 12 a = v4_prefix then Some (drop 12 a) else None)"

fun CIDRMask :: "nat \<Rightarrow> nat \<Rightarrow> ip" where
  "CIDRMask n 0 = []"
| "CIDRMask n (Suc k) = (if n \<ge> 8 then 255 # CIDRMask (n - 8) k else NOT (drop_bit n 255) # CIDRMask 0 k)"

record IPNet =
  net_IP :: ip
  net_Mask :: ip

text \<open>\<^verbatim>\<open>ParseCIDR\<close>: the network has the length of the mask, and its host bits are cleared.\<close>

definition ParseCIDR :: "string \<Rightarrow> IPNet option" where
  "ParseCIDR s =
     (case Cut s (CHR ''/'') of (addr, msk, found) \<Rightarrow>
        if \<not> found then None
        else case (ParseAddr addr, ParseUint msk) of
          (Some a, (n, None)) \<Rightarrow>
            if n > 8 * length a then None
            else let m = CIDRMask n (length a) in Some \<lparr>net_IP = map2 (AND) a m, net_Mask = m\<rparr>
        | _ \<Rightarrow> None)"

definition net_Contains :: "IPNet \<Rightarrow> ip \<Rightarrow> bool" where
  "net_Contains n a =
     (let x = (case To4 a of Some a4 \<Rightarrow> a4 | None \<Rightarrow> a) in
      length x = length (net_IP n) \<and>
      list_all (\<lambda>(nn, m, b). nn AND m = b AND m) (zip (net_IP n) (zip (net_Mask n) x)))"

text \<open>\<^verbatim>\<open>net.SplitHostPort\<close>.\<close>

definition LastIndexByte :: "string \<Rightarrow> char \<Rightarrow> int" where
  "LastIndexByte s c = (let i = IndexByte (rev s) c in if i < 0 then -1 else int (length s) - 1 - i)"

definition addrErr :: "string \<Rightarrow> string \<Rightarrow> goerr" where
  "addrErr hostport why = Err ((if hostport = [] then [] else ''address '' @ hostport @ '': '') @ why)"

definition SplitHostPort :: "string \<Rightarrow> (string \<times> string) result" where
  "SplitHostPort hp =
     (let i = LastIndexByte hp (CHR '':'') in
      if i < 0 then Inl (addrErr hp ''missing port in address'')
      else let port = drop (nat i + 1) hp in
        if hd hp = CHR ''['' then
          (let e = IndexByte hp (CHR '']'') in
           if e < 0 then Inl (addrErr hp ''missing ']' in address'')
           else if e + 1 = int (length hp) then Inl (addrErr hp ''missing port in address'')
           else if e + 1 \<noteq> i then
             Inl (addrErr hp (if hp ! nat (e + 1) = CHR '':'' then ''too many colons in address'' else ''missing port in address''))
           else if CHR ''['' \<in> set (drop 1 hp) then Inl (addrErr hp ''unexpected '[' in address'')
           else if CHR '']'' \<in> set (drop (nat e + 1) hp) then Inl (addrErr hp ''unexpected ']' in address'')
           else Inr (drop 1 (take (nat e) hp), port))
        else
          (let host = take (nat i) hp in
           if CHR '':'' \<in> set host then Inl (addrErr hp ''too many colons in address'')
           else if CHR ''['' \<in> set hp then Inl (addrErr hp ''unexpected '[' in address'')
           else if CHR '']'' \<in> set hp then Inl (addrErr hp ''unexpected ']' in address'')
           else Inr (host, port)))"

section \<open>The guard\<close>

definition parseCIDRs :: "string list \<Rightarrow> IPNet list" where
  "parseCIDRs cidrs = List.map_filter ParseCIDR cidrs"

definition blockedV4 :: "IPNet list" where
  "blockedV4 = parseCIDRs [
     ''0.0.0.0/8'', ''10.0.0.0/8'', ''100.64.0.0/10'', ''127.0.0.0/8'', ''169.254.0.0/16'',
     ''172.16.0.0/12'', ''192.0.0.0/24'', ''192.0.2.0/24'', ''192.168.0.0/16'', ''198.18.0.0/15'',
     ''198.51.100.0/24'', ''203.0.113.0/24'', ''224.0.0.0/4'', ''240.0.0.0/4'', ''255.255.255.255/32'']"

definition blockedV6 :: "IPNet list" where
  "blockedV6 = parseCIDRs [
     ''::/128'', ''::1/128'', ''64:ff9b::/96'', ''100::/64'', ''fc00::/7'', ''fe80::/10'', ''ff00::/8'']"

fun any_net :: "IPNet list \<Rightarrow> ip \<Rightarrow> bool" where
  "any_net [] a = False"
| "any_net (n # ns) a = (if net_Contains n a then True else any_net ns a)"

definition IsPublic :: "ip option \<Rightarrow> bool" where
  "IsPublic ip =
     (case ip of
        None \<Rightarrow> False
      | Some a \<Rightarrow>
          (case To4 a of
             Some v4 \<Rightarrow> \<not> any_net blockedV4 v4
           | None \<Rightarrow> \<not> any_net blockedV6 a))"

record Guard =
  AllowedHosts :: "string list"

fun host_listed :: "string list \<Rightarrow> string \<Rightarrow> bool" where
  "host_listed [] host = False"
| "host_listed (h # hs) host = (if host = h \<or> HasSuffix host (''.'' @ h) then True else host_listed hs host)"

definition hostAllowed :: "Guard \<Rightarrow> string \<Rightarrow> bool" where
  "hostAllowed g host = (if AllowedHosts g = [] then True else host_listed (AllowedHosts g) host)"

text \<open>
  The arguments that stand for the library: \<open>url_parse\<close> gives the scheme and \<^verbatim>\<open>Hostname()\<close> of
  a URL, \<open>lookup_ips\<close> the addresses of a host, \<open>ip_string\<close> an address as text.
\<close>

record netlib =
  url_parse :: "string \<Rightarrow> (string \<times> string) result"
  lookup_ips :: "string \<Rightarrow> ip list result"
  ip_string :: "ip \<Rightarrow> string"

definition blocked :: "string \<Rightarrow> goerr" where
  "blocked why = Wrap [] ErrBlocked ('': '' @ why)"

fun check_ips :: "netlib \<Rightarrow> string \<Rightarrow> ip list \<Rightarrow> goerr option" where
  "check_ips L host [] = None"
| "check_ips L host (a # as) =
     (if \<not> IsPublic (Some a) then Some (blocked (Quote host @ '' resolves to non-public address '' @ ip_string L a))
      else check_ips L host as)"

definition Guard_Validate :: "netlib \<Rightarrow> Guard \<Rightarrow> string \<Rightarrow> goerr option" where
  "Guard_Validate L g rawURL =
     (case url_parse L rawURL of
        Inl e \<Rightarrow> Some (blocked (''parse url: '' @ Error e))
      | Inr (scheme, hostname) \<Rightarrow>
          if scheme \<noteq> ''http'' \<and> scheme \<noteq> ''https'' then Some (blocked ''only http(s) urls are allowed'')
          else let host = ToLower hostname in
            if host = [] then Some (blocked ''missing host'')
            else if \<not> hostAllowed g host then
              Some (blocked (''host '' @ Quote host @ '' not in SCHEDULER_ALLOWED_HOSTS''))
            else case (case ParseIP host of Some lit \<Rightarrow> Inr [lit] | None \<Rightarrow> lookup_ips L host) of
                Inl e \<Rightarrow> Some (blocked (''dns lookup: '' @ Error e))
              | Inr ips \<Rightarrow>
                  if ips = [] then Some (blocked (''no addresses for '' @ Quote host))
                  else check_ips L host ips)"

definition DialControl :: "netlib \<Rightarrow> string \<Rightarrow> goerr option" where
  "DialControl L address =
     (case SplitHostPort address of
        Inl e \<Rightarrow> Some (blocked (''split host:port: '' @ Error e))
      | Inr (host, _) \<Rightarrow>
          (case ParseIP host of
             None \<Rightarrow> Some (blocked (''dialer received non-IP host '' @ Quote host))
           | Some a \<Rightarrow>
               if \<not> IsPublic (Some a) then Some (blocked (''dial target '' @ ip_string L a @ '' is non-public''))
               else None))"


section \<open>The tables\<close>

lemma CIDRMask_numeral [simp]:
  "CIDRMask n (numeral k) =
     (if n \<ge> 8 then 255 # CIDRMask (n - 8) (pred_numeral k) else NOT (drop_bit n 255) # CIDRMask 0 (pred_numeral k))"
  by (simp add: numeral_eq_Suc)

lemma replicate_numeral [simp]: "replicate (numeral k) x = x # replicate (pred_numeral k) x"
  by (simp add: numeral_eq_Suc)

lemmas net_eval = ParseCIDR_def ParseAddr_def parse_v4_def parse_v6_def ParseUint_def digit_val_def is_digit_def
  Let_def HasPrefix_def v6_groups.simps is_hex_def hex_group_def hex_val_def expand_ellipsis_def

lemma blockedV4_table:
  "blockedV4 = [
     \<lparr>net_IP = [0, 0, 0, 0], net_Mask = [255, 0, 0, 0]\<rparr>,
     \<lparr>net_IP = [10, 0, 0, 0], net_Mask = [255, 0, 0, 0]\<rparr>,
     \<lparr>net_IP = [100, 64, 0, 0], net_Mask = [255, 192, 0, 0]\<rparr>,
     \<lparr>net_IP = [127, 0, 0, 0], net_Mask = [255, 0, 0, 0]\<rparr>,
     \<lparr>net_IP = [169, 254, 0, 0], net_Mask = [255, 255, 0, 0]\<rparr>,
     \<lparr>net_IP = [172, 16, 0, 0], net_Mask = [255, 240, 0, 0]\<rparr>,
     \<lparr>net_IP = [192, 0, 0, 0], net_Mask = [255, 255, 255, 0]\<rparr>,
     \<lparr>net_IP = [192, 0, 2, 0], net_Mask = [255, 255, 255, 0]\<rparr>,
     \<lparr>net_IP = [192, 168, 0, 0], net_Mask = [255, 255, 0, 0]\<rparr>,
     \<lparr>net_IP = [198, 18, 0, 0], net_Mask = [255, 254, 0, 0]\<rparr>,
     \<lparr>net_IP = [198, 51, 100, 0], net_Mask = [255, 255, 255, 0]\<rparr>,
     \<lparr>net_IP = [203, 0, 113, 0], net_Mask = [255, 255, 255, 0]\<rparr>,
     \<lparr>net_IP = [224, 0, 0, 0], net_Mask = [240, 0, 0, 0]\<rparr>,
     \<lparr>net_IP = [240, 0, 0, 0], net_Mask = [240, 0, 0, 0]\<rparr>,
     \<lparr>net_IP = [255, 255, 255, 255], net_Mask = [255, 255, 255, 255]\<rparr>]"
  by (simp add: blockedV4_def parseCIDRs_def List.map_filter_simps net_eval)

lemma blockedV6_table:
  "map (\<lambda>n. (net_IP n, net_Mask n)) blockedV6 = [
     (replicate 16 0, replicate 16 255),
     (replicate 15 0 @ [1], replicate 16 255),
     ([0, 100, 255, 155] @ replicate 12 0, replicate 12 255 @ replicate 4 0),
     ([1, 0] @ replicate 14 0, replicate 8 255 @ replicate 8 0),
     ([252, 0] @ replicate 14 0, [254] @ replicate 15 0),
     ([254, 128] @ replicate 14 0, [255, 192] @ replicate 14 0),
     ([255, 0] @ replicate 14 0, [255] @ replicate 15 0)]"
  by (simp add: blockedV6_def parseCIDRs_def List.map_filter_simps net_eval)

lemma and_high: "(b :: 8 word) AND NOT (mask k) = push_bit k (drop_bit k b)"
  by (rule bit_eqI) (auto simp: bit_simps)

lemma high_bits:
  "unat ((b :: 8 word) AND 192) = unat b div 64 * 64"
  "unat ((b :: 8 word) AND 240) = unat b div 16 * 16"
  "unat ((b :: 8 word) AND 254) = unat b div 2 * 2"
proof -
  have u: "unat b < 256" using unsigned_less [of b] by simp
  have n: "192 = NOT (mask 6 :: 8 word)" "240 = NOT (mask 4 :: 8 word)" "254 = NOT (mask 1 :: 8 word)"
    by (simp_all add: mask_eq_exp_minus_1)
  show "unat ((b :: 8 word) AND 192) = unat b div 64 * 64"
    "unat ((b :: 8 word) AND 240) = unat b div 16 * 16"
    "unat ((b :: 8 word) AND 254) = unat b div 2 * 2"
    unfolding n and_high using u
    by (simp_all add: push_bit_eq_mult drop_bit_eq_div unat_word_ariths unat_div)
qed
lemma floor_eq_iff: "0 < m \<Longrightarrow> k mod m = 0 \<Longrightarrow> k = n div m * m \<longleftrightarrow> k \<le> n \<and> n < k + (m :: nat)"
proof -
  assume m: "0 < m" and k: "k mod m = 0"
  from k obtain q where q: "k = q * m" by (auto simp: mod_eq_0_iff_dvd dvd_def mult.commute)
  show "k = n div m * m \<longleftrightarrow> k \<le> n \<and> n < k + m"
  proof
    assume "k = n div m * m"
    then show "k \<le> n \<and> n < k + m" using div_mult_mod_eq [of n m] mod_less_divisor [OF m, of n] by linarith
  next
    assume "k \<le> n \<and> n < k + m"
    then have "n div m = q" using q by (intro div_nat_eqI) (auto simp: mult.commute)
    then show "k = n div m * m" using q by simp
  qed
qed

lemma byte_masks:
  fixes b :: "8 word"
  shows "b AND 255 = b"
  "64 = b AND 192 \<longleftrightarrow> 64 \<le> b \<and> b \<le> 127"
  "16 = b AND 240 \<longleftrightarrow> 16 \<le> b \<and> b \<le> 31"
  "18 = b AND 254 \<longleftrightarrow> b = 18 \<or> b = 19"
  "224 = b AND 240 \<longleftrightarrow> 224 \<le> b \<and> b \<le> 239"
  "240 = b AND 240 \<longleftrightarrow> 240 \<le> b"
  "252 = b AND 254 \<longleftrightarrow> 252 \<le> b \<and> b \<le> 253"
  "128 = b AND 192 \<longleftrightarrow> 128 \<le> b \<and> b \<le> 191"
proof -
  have "255 = (mask 8 :: 8 word)" by (simp add: mask_eq_exp_minus_1)
  then show "b AND 255 = b" using take_bit_length_eq [of b] by (simp add: take_bit_eq_mask)
  note w = word_unat_eq_iff word_le_nat_alt high_bits
  have u: "unat b < 256" using unsigned_less [of b] by simp
  show
  "64 = b AND 192 \<longleftrightarrow> 64 \<le> b \<and> b \<le> 127"
  "16 = b AND 240 \<longleftrightarrow> 16 \<le> b \<and> b \<le> 31"
  "18 = b AND 254 \<longleftrightarrow> b = 18 \<or> b = 19"
  "224 = b AND 240 \<longleftrightarrow> 224 \<le> b \<and> b \<le> 239"
  "240 = b AND 240 \<longleftrightarrow> 240 \<le> b"
  "252 = b AND 254 \<longleftrightarrow> 252 \<le> b \<and> b \<le> 253"
  "128 = b AND 192 \<longleftrightarrow> 128 \<le> b \<and> b \<le> 191"
    using u by (simp_all add: w floor_eq_iff) auto
qed
section \<open>What is blocked\<close>

text \<open>The special-purpose IPv4 addresses, as ranges of their bytes.\<close>

definition special_v4 :: "8 word \<Rightarrow> 8 word \<Rightarrow> 8 word \<Rightarrow> 8 word \<Rightarrow> bool" where
  "special_v4 a b c d \<longleftrightarrow>
     a = 0 \<or> a = 10 \<or> a = 127 \<or> 224 \<le> a
     \<or> (a = 100 \<and> 64 \<le> b \<and> b \<le> 127) \<or> (a = 169 \<and> b = 254) \<or> (a = 172 \<and> 16 \<le> b \<and> b \<le> 31)
     \<or> (a = 192 \<and> b = 0 \<and> (c = 0 \<or> c = 2)) \<or> (a = 192 \<and> b = 168)
     \<or> (a = 198 \<and> (b = 18 \<or> b = 19)) \<or> (a = 198 \<and> b = 51 \<and> c = 100) \<or> (a = 203 \<and> b = 0 \<and> c = 113)"

lemma high_byte: "((224 \<le> a \<and> a \<le> 239) \<or> 240 \<le> a) = (224 \<le> (a :: 8 word))"
  by (auto simp: word_le_nat_alt)

lemma net_Contains_v4:
  "net_Contains \<lparr>net_IP = [n1, n2, n3, n4], net_Mask = [m1, m2, m3, m4]\<rparr> [a, b, c, d] \<longleftrightarrow>
     n1 AND m1 = a AND m1 \<and> n2 AND m2 = b AND m2 \<and> n3 AND m3 = c AND m3 \<and> n4 AND m4 = d AND m4"
  by (simp add: net_Contains_def To4_def)

lemma IsPublic_v4: "IsPublic (Some [a, b, c, d]) \<longleftrightarrow> \<not> special_v4 a b c d"
proof -
  have "any_net blockedV4 [a, b, c, d] \<longleftrightarrow> special_v4 a b c d"
    unfolding blockedV4_table any_net.simps net_Contains_v4 special_v4_def
    using high_byte [of a]
    by (simp only: byte_masks and_zero_eq if_cancel) (auto simp: byte_masks)
  then show ?thesis by (simp add: IsPublic_def To4_def)
qed
definition special_v6 :: "ip \<Rightarrow> bool" where
  "special_v6 x \<longleftrightarrow>
     x = replicate 16 0 \<or> x = replicate 15 0 @ [1]
     \<or> take 12 x = [0, 100, 255, 155] @ replicate 8 0 \<or> take 8 x = [1] @ replicate 7 0
     \<or> (252 \<le> x ! 0 \<and> x ! 0 \<le> 253) \<or> (x ! 0 = 254 \<and> 128 \<le> x ! 1 \<and> x ! 1 \<le> 191) \<or> x ! 0 = 255"

lemma list16: "length x = 16 \<Longrightarrow> \<exists>a b c d e f g h i j k l m n p q. x = [a, b, c, d, e, f, g, h, i, j, k, l, m, n, p, q]"
  by (auto simp: length_Suc_conv numeral_eq_Suc)

lemma IsPublic_v6:
  assumes "length x = 16" and "take 12 x \<noteq> v4_prefix"
  shows "IsPublic (Some x) \<longleftrightarrow> \<not> special_v6 x"
proof -
  obtain a b c d e f g h i j k l m n p q where x: "x = [a, b, c, d, e, f, g, h, i, j, k, l, m, n, p, q]"
    using list16 [OF assms(1)] by blast
  have "To4 x = None" using assms by (simp add: To4_def)
  moreover have "any_net blockedV6 x \<longleftrightarrow> (\<exists>nm \<in> set (map (\<lambda>n. (net_IP n, net_Mask n)) blockedV6).
      list_all (\<lambda>(nn, m, b). nn AND m = b AND m) (zip (fst nm) (zip (snd nm) x)) \<and> length (fst nm) = 16)"
  proof -
    have "any_net ns x \<longleftrightarrow> (\<exists>nm \<in> set (map (\<lambda>n. (net_IP n, net_Mask n)) ns).
      list_all (\<lambda>(nn, m, b). nn AND m = b AND m) (zip (fst nm) (zip (snd nm) x)) \<and> length (fst nm) = 16)" for ns
      using \<open>To4 x = None\<close> assms(1) by (induction ns) (auto simp: net_Contains_def)
    then show ?thesis .
  qed
  ultimately show ?thesis
    unfolding blockedV6_table special_v6_def IsPublic_def x
    by (simp add: byte_masks)
qed
section \<open>Parsed addresses have sixteen bytes\<close>

lemma v4_fields_length: "v4_fields s val digits acc = Some r \<Longrightarrow> length acc \<le> 3 \<Longrightarrow> length r = 4"
  by (induction s arbitrary: val digits acc) (auto simp: Let_def split: if_splits)

lemma parse_v4_length: "parse_v4 s = Some a \<Longrightarrow> length a = 4"
  by (auto simp: parse_v4_def dest: v4_fields_length)

lemma hex_group_length [simp]: "length (hex_group h) = 2"
  by (simp add: hex_group_def Let_def)

lemma v6_groups_length:
  "v6_groups s addr ell = Some (addr', ell') \<Longrightarrow> even (length addr) \<Longrightarrow> length addr \<le> 16 \<Longrightarrow>
     even (length addr') \<and> length addr' \<le> 16"
proof (induction s addr ell rule: v6_groups.induct)
  case (1 s addr ell)
  let ?h = "takeWhile is_hex s" and ?rest = "dropWhile is_hex s" and ?addr = "addr @ hex_group (takeWhile is_hex s)"
  note unf = v6_groups.simps [of s addr ell] Let_def
  show ?case
  proof (cases "16 \<le> length addr \<or> ?h = [] \<or> length ?h > 4 \<or> ?rest = [] \<or> hd ?rest = CHR ''.''")
    case True
    moreover have "length addr + 2 \<le> 16" if "\<not> 16 \<le> length addr" using that "1.prems"(2) by presburger
    ultimately show ?thesis using "1.prems" parse_v4_length [of s]
      by (cases "16 \<le> length addr"; cases "?rest = []") (auto simp: unf split: if_splits)
  next
    case False
    then have go: "length addr < 16" "?h \<noteq> []" "\<not> length ?h > 4" "?rest \<noteq> []" "hd ?rest \<noteq> CHR ''.''" by auto
    have len: "even (length ?addr)" "length ?addr \<le> 16" using "1.prems"(2) go(1) by (simp, simp) presburger
    from "1.prems"(1) go have shape: "hd ?rest = CHR '':''" "tl ?rest \<noteq> []" by (auto simp: unf split: if_splits)
    show ?thesis
    proof (cases "hd (tl ?rest) = CHR '':''")
      case True
      with "1.prems"(1) go shape have "ell = None" by (auto simp: unf split: if_splits)
      show ?thesis
      proof (cases "tl (tl ?rest) = []")
        case True
        with \<open>hd (tl ?rest) = CHR '':''\<close> "1.prems"(1) go shape \<open>ell = None\<close> len show ?thesis
          by (auto simp: v6_groups.simps [of s addr None] Let_def split: if_splits)
      next
        case False
        with \<open>hd (tl ?rest) = CHR '':''\<close> "1.prems"(1) go shape \<open>ell = None\<close>
        have "v6_groups (tl (tl ?rest)) ?addr (Some (length ?addr)) = Some (addr', ell')"
          by (auto simp: unf v6_groups.simps [of s addr None] split: if_splits)
        with "1.IH"(1) [OF _ refl refl refl] False \<open>hd (tl ?rest) = CHR '':''\<close> go shape \<open>ell = None\<close> len show ?thesis by simp
      qed
    next
      case False
      with "1.prems"(1) go shape have "v6_groups (tl ?rest) ?addr ell = Some (addr', ell')"
          by (auto simp: unf v6_groups.simps [of s addr None] split: if_splits)
      with "1.IH"(2) [OF _ refl refl refl] False go shape len show ?thesis by simp
    qed
  qed
qed

lemma expand_ellipsis_length:
  "expand_ellipsis (addr, ell) = Some a \<Longrightarrow> length addr \<le> 16 \<Longrightarrow> length a = 16"
  by (auto simp: expand_ellipsis_def min_def split: option.splits if_splits)

lemma parse_v6_length: "parse_v6 s = Some a \<Longrightarrow> length a = 16"
  by (auto simp: parse_v6_def bind_eq_Some_conv split: if_splits
      dest!: v6_groups_length intro: expand_ellipsis_length)

lemma ParseIP_length: "ParseIP s = Some a \<Longrightarrow> length a = 16"
proof -
  have "ParseAddr_from s t = Some x \<Longrightarrow> length x = 4 \<or> length x = 16" for t x
    by (induction t) (auto split: if_splits dest: parse_v4_length parse_v6_length)
  then show "ParseIP s = Some a \<Longrightarrow> length a = 16"
    by (fastforce simp: ParseIP_def ParseAddr_def As16_def v4_prefix_def)
qed
section \<open>Properties\<close>

definition public_target :: "ip \<Rightarrow> bool" where
  "public_target a \<longleftrightarrow> length a = 16 \<and>
     (if take 12 a = v4_prefix then \<not> special_v4 (a ! 12) (a ! 13) (a ! 14) (a ! 15) else \<not> special_v6 a)"

lemma IsPublic_target:
  assumes "length a = 16"
  shows "IsPublic (Some a) \<longleftrightarrow> public_target a"
proof (cases "take 12 a = v4_prefix")
  case True
  have "drop 12 a = [a ! 12, a ! 13, a ! 14, a ! 15]"
    using list16 [OF assms] by (elim exE) simp
  then have "IsPublic (Some a) = IsPublic (Some [a ! 12, a ! 13, a ! 14, a ! 15])"
    using True assms by (simp add: IsPublic_def To4_def)
  then show ?thesis using True assms by (simp add: IsPublic_v4 public_target_def)
next
  case False
  then show ?thesis using assms by (simp add: IsPublic_v6 public_target_def)
qed

text \<open>
  Which targets may be dialled (C13). The dial hook lets a connection through exactly when its target is a
  host and port whose host is an address of 16 bytes outside the blocked ranges, an IPv4
  address in IPv6 form being judged as the IPv4 address. So whatever a resolver or a redirect
  supplied, no connection is made to a loopback, private, link-local, shared, multicast or
  reserved address, and every refusal is recognised as one of the guard.
\<close>

theorem dial_only_public:
  "(DialControl L address = None \<longleftrightarrow>
      (\<exists>host port a. SplitHostPort address = Inr (host, port) \<and> ParseIP host = Some a \<and> public_target a))
   \<and> (\<forall>e. DialControl L address = Some e \<longrightarrow> errors_Is e ErrBlocked)"
  using ParseIP_length IsPublic_target
  by (auto simp: DialControl_def blocked_def split: sum.splits option.splits)

definition no_net :: netlib where
  "no_net = \<lparr>url_parse = (\<lambda>u. Inl (Err ''url'')), lookup_ips = (\<lambda>h. Inr []), ip_string = (\<lambda>a. [])\<rparr>"

theorem dial_only_public_witness:
  "errors_Is (the (DialControl no_net ''[::ffff:10.0.0.5]:80'')) ErrBlocked"
proof -
  have "DialControl no_net ''[::ffff:10.0.0.5]:80'' \<noteq> None"
    by (simp add: DialControl_def SplitHostPort_def LastIndexByte_def Let_def ParseIP_def net_eval As16_def v4_prefix_def
        IsPublic_def To4_def blockedV4_table net_Contains_v4)
  then show ?thesis using dial_only_public [of no_net "''[::ffff:10.0.0.5]:80''"] by auto
qed

lemma Guard_Validate_outcome:
  "(Guard_Validate L g url = None \<longleftrightarrow>
      (\<exists>scheme host ips. url_parse L url = Inr (scheme, host) \<and> scheme \<in> {''http'', ''https''}
         \<and> host \<noteq> [] \<and> hostAllowed g (ToLower host)
         \<and> (case ParseIP (ToLower host) of Some a \<Rightarrow> ips = [a] | None \<Rightarrow> lookup_ips L (ToLower host) = Inr ips)
         \<and> ips \<noteq> [] \<and> list_all (\<lambda>a. IsPublic (Some a)) ips))
   \<and> (\<forall>e. Guard_Validate L g url = Some e \<longrightarrow> errors_Is e ErrBlocked)"
proof -
  have ips: "check_ips L h as = None \<longleftrightarrow> list_all (\<lambda>a. IsPublic (Some a)) as" for h as
    by (induction as) auto
  have err: "check_ips L h as = Some e \<Longrightarrow> errors_Is e ErrBlocked" for h as e
    by (induction as) (auto simp: blocked_def split: if_splits)
  show ?thesis
    unfolding Guard_Validate_def
    by (auto simp: ips err blocked_def ToLower_def Let_def split: sum.splits option.splits if_splits)
qed

text \<open>The list of hosts: a listed name and its subdomains, and nothing else.\<close>

lemma hostAllowed_iff:
  "hostAllowed g host \<longleftrightarrow> AllowedHosts g = [] \<or>
     (\<exists>h \<in> set (AllowedHosts g). host = h \<or> (\<exists>sub. host = sub @ ''.'' @ h))"
proof -
  have "host_listed hs host \<longleftrightarrow> (\<exists>h \<in> set hs. host = h \<or> (\<exists>sub. host = sub @ ''.'' @ h))" for hs
    by (induction hs) (auto simp: HasSuffix_iff)
  then show ?thesis by (simp add: hostAllowed_def)
qed

text \<open>An address as the resolver gives it, of 4 or 16 bytes, outside the blocked ranges.\<close>

definition public_address :: "ip \<Rightarrow> bool" where
  "public_address a \<longleftrightarrow> (if length a = 4 then \<not> special_v4 (a ! 0) (a ! 1) (a ! 2) (a ! 3) else public_target a)"

lemma IsPublic_address:
  assumes "length a = 4 \<or> length a = 16"
  shows "IsPublic (Some a) \<longleftrightarrow> public_address a"
proof (cases "length a = 4")
  case True
  then obtain x y z u where "a = [x, y, z, u]" by (auto simp: length_Suc_conv numeral_eq_Suc)
  then show ?thesis by (simp add: IsPublic_v4 public_address_def)
next
  case False
  with assms IsPublic_target [of a] show ?thesis by (simp add: public_address_def)
qed

text \<open>
  The check before a callout fails closed (C21). With an allow-list in lower case, a URL passes exactly when
  it parses with an http scheme and a host that, whatever the case of its letters, is a listed name or a
  subdomain of one (or the list is empty), and the host is an address or resolves to at least one, and
  every byte pattern of these addresses lies outside the blocked ranges. In every other case, a failure
  of the parser or of the resolver included, the error is one of the guard. The list that is
  loaded from the environment is in lower case. The resolver is assumed to give addresses of 4 or 16 bytes.
\<close>

theorem guard_fails_closed:
  assumes lower: "\<forall>h \<in> set (AllowedHosts g). ToLower h = h"
    and resolver: "\<forall>h ips a. lookup_ips L h = Inr ips \<and> a \<in> set ips \<longrightarrow> length a = 4 \<or> length a = 16"
  shows "(Guard_Validate L g url = None \<longleftrightarrow>
      (\<exists>scheme host ips. url_parse L url = Inr (scheme, host) \<and> scheme \<in> {''http'', ''https''} \<and> host \<noteq> []
         \<and> (AllowedHosts g = [] \<or>
            (\<exists>h \<in> set (AllowedHosts g). ToLower host = ToLower h \<or> (\<exists>sub. ToLower host = sub @ ''.'' @ ToLower h)))
         \<and> (case ParseIP (ToLower host) of Some a \<Rightarrow> ips = [a] | None \<Rightarrow> lookup_ips L (ToLower host) = Inr ips)
         \<and> ips \<noteq> [] \<and> (\<forall>a \<in> set ips. public_address a)))
   \<and> (\<forall>e. Guard_Validate L g url = Some e \<longrightarrow> errors_Is e ErrBlocked)"
proof -
  have ips: "list_all (\<lambda>a. IsPublic (Some a)) ips = (\<forall>a \<in> set ips. public_address a)"
    if "case ParseIP host of Some a \<Rightarrow> ips = [a] | None \<Rightarrow> lookup_ips L host = Inr ips" for host ips
  proof -
    have "\<forall>a \<in> set ips. length a = 4 \<or> length a = 16"
      using that resolver ParseIP_length [of host] by (cases "ParseIP host") auto
    then show ?thesis using IsPublic_address by (auto simp: list_all_iff)
  qed
  have hosts: "hostAllowed g host \<longleftrightarrow> AllowedHosts g = [] \<or>
      (\<exists>h \<in> set (AllowedHosts g). host = ToLower h \<or> (\<exists>sub. host = sub @ ''.'' @ ToLower h))" for host
    unfolding hostAllowed_iff using lower by (metis (no_types, lifting))
  from Guard_Validate_outcome [of L g url] show ?thesis unfolding hosts using ips by (metis (no_types, lifting))
qed

definition demo_net :: netlib where
  "demo_net = \<lparr>url_parse = (\<lambda>u. Inr (''http'', ''API.Example.com'')), lookup_ips = (\<lambda>h. Inr [[93, 184, 216, 34]]), ip_string = (\<lambda>a. [])\<rparr>"

theorem guard_fails_closed_witness:
  "Guard_Validate demo_net \<lparr>AllowedHosts = [''example.com'']\<rparr> ''http://API.Example.com/'' = None
   \<and> Guard_Validate demo_net \<lparr>AllowedHosts = [''ample.com'']\<rparr> ''http://API.Example.com/'' \<noteq> None"
proof -
  have res: "\<forall>h ips a. lookup_ips demo_net h = Inr ips \<and> a \<in> set ips \<longrightarrow> length a = 4 \<or> length a = 16"
    by (auto simp: demo_net_def)
  have low: "ToLower ''API.Example.com'' = ''api.example.com''" "ToLower ''example.com'' = ''example.com''" "ToLower ''ample.com'' = ''ample.com''"
    by code_simp+
  have lit: "ParseIP ''api.example.com'' = None" by (simp add: ParseIP_def net_eval)
  have "\<not> special_v4 93 184 216 34" by (simp add: special_v4_def)
  then have ok: "public_address [93, 184, 216, 34]" by (simp add: public_address_def)
  have "''api.example.com'' = ''api'' @ ''.'' @ ''example.com''" by simp
  then have one: "\<exists>sub. ''api.example.com'' = sub @ ''.'' @ ''example.com''" by blast
  have two: "\<not> (\<exists>sub. ''api.example.com'' = sub @ ''.'' @ ''ample.com'')"
  proof
    assume "\<exists>sub. ''api.example.com'' = sub @ ''.'' @ ''ample.com''"
    then obtain sub where "rev ''api.example.com'' = rev (sub @ ''.'' @ ''ample.com'')" by metis
    then show False by simp
  qed
  from guard_fails_closed [OF _ res, of "\<lparr>AllowedHosts = [''example.com'']\<rparr>" "''http://API.Example.com/''"]
    guard_fails_closed [OF _ res, of "\<lparr>AllowedHosts = [''ample.com'']\<rparr>" "''http://API.Example.com/''"] one two ok lit low
  show ?thesis by (simp add: demo_net_def)
qed

text \<open>
  A listed name with an upper case letter admits nothing. The host is lowered before it is compared
  and the list is not, so such an entry never matches, itself included.
\<close>

lemma allow_list_case:
  assumes "\<forall>h \<in> set (AllowedHosts g). ToLower h \<noteq> h" and "AllowedHosts g \<noteq> []"
  shows "Guard_Validate L g url \<noteq> None"
proof -
  have low: "ToLower (ToLower s) = ToLower s" for s
    by (auto simp: ToLower_def lower_char_def Let_def)
  have "\<not> hostAllowed g (ToLower host)" for host
  proof
    assume "hostAllowed g (ToLower host)"
    then obtain h where h: "h \<in> set (AllowedHosts g)" "ToLower host = h \<or> (\<exists>sub. ToLower host = sub @ ''.'' @ h)"
      using assms(2) by (auto simp: hostAllowed_iff)
    have "ToLower h = h"
    proof -
      have "list_all (\<lambda>c. lower_char c = c) (ToLower host)"
        using low [of host] by (auto simp: ToLower_def list_all_iff)
      with h(2) have "list_all (\<lambda>c. lower_char c = c) h" by auto
      then show ?thesis by (simp add: ToLower_def list_all_iff map_idI)
    qed
    with assms(1) h(1) show False by auto
  qed
  then show ?thesis using Guard_Validate_outcome [of L g url] by auto
qed

end
