(* ===== verification/Wsserver.thy ===== *)
theory Wsserver
  imports Config Auth Authz Ssrf
begin

text \<open>
  The options of the embeddable server: \<^verbatim>\<open>wsserver/wsserver.go\<close>, from the environment to the options
  and from the options to the configuration the application runs with. \<open>json_of\<close> parses a text as
  JSON. The fields that \<^verbatim>\<open>New\<close> only hands on (metrics, registry, middleware, lifecycle hooks and the
  judge) are the one field \<open>opt_Ext\<close>.
\<close>

section \<open>Options\<close>

record 'e Options =
  ListenAddr :: string
  opt_MetricsAddr :: string
  opt_RedisAddrs :: "string list"
  opt_RedisPassword :: string
  opt_RedisMasterName :: string
  opt_Verifier :: "Verifier option"
  JWTSecret :: string
  JWTAudience :: string
  JWTIssuer :: string
  opt_PresenceTopic :: string
  opt_Authorizer :: "Authorizer option"
  opt_Ext :: 'e
  opt_LogLevel :: string
  opt_EnableCompression :: bool
  opt_AllowedOrigins :: "string list"
  opt_TLSCertPath :: string
  opt_TLSKeyPath :: string
  IdleTimeout :: int
  opt_MaxPayloadBytes :: int
  opt_MaxBufferedBytes :: int
  opt_MaxConsecutiveDrops :: int
  opt_StreamMaxLength :: int
  opt_StreamTTL :: int
  opt_AckCursorTTL :: int
  MessagesPerSec :: int
  JobsPerMin :: int
  opt_SchedulerAllowedHosts :: "string list"
  opt_ReadinessTimeout :: int
  opt_ShutdownTimeout :: int
  opt_InstanceID :: string

definition parse_rules :: "(string \<Rightarrow> blob) \<Rightarrow> string \<Rightarrow> Rules option result" where
  "parse_rules json_of raw = ParseRules (if TrimSpace raw = [] then None else Some (json_of (TrimSpace raw)))"

definition env_options :: "'e \<Rightarrow> Config \<Rightarrow> Rules option \<Rightarrow> 'e Options" where
  "env_options no_ext cfg rules = \<lparr>ListenAddr = '':'' @ FormatInt (WebSocketPort cfg), opt_MetricsAddr = MetricsAddr cfg,
     opt_RedisAddrs = RedisAddrList cfg, opt_RedisPassword = RedisPassword cfg,
     opt_RedisMasterName = RedisMasterName cfg, opt_Verifier = None,
     JWTSecret = AuthJWTSecret cfg, JWTAudience = AuthJWTAudience cfg, JWTIssuer = AuthJWTIssuer cfg,
     opt_PresenceTopic = conf_PresenceTopic cfg,
     opt_Authorizer = (case rules of None \<Rightarrow> None | Some rs \<Rightarrow> Some (Authorize rs)),
     opt_Ext = no_ext, opt_LogLevel = LogLevel cfg, opt_EnableCompression = EnableCompression cfg,
     opt_AllowedOrigins = AllowedOrigins cfg, opt_TLSCertPath = TLSCertPath cfg, opt_TLSKeyPath = TLSKeyPath cfg,
     IdleTimeout = WebSocketTimeout cfg, opt_MaxPayloadBytes = MaxPayloadBytes cfg,
     opt_MaxBufferedBytes = conf_MaxBufferedBytes cfg,
     opt_MaxConsecutiveDrops = (if conf_MaxConsecutiveDrops cfg = 0 then -1 else conf_MaxConsecutiveDrops cfg),
     opt_StreamMaxLength = conf_StreamMaxLength cfg, opt_StreamTTL = conf_StreamTTL cfg,
     opt_AckCursorTTL = conf_AckCursorTTL cfg, MessagesPerSec = RateLimitMessagesPerSec cfg,
     JobsPerMin = RateLimitJobsPerMin cfg, opt_SchedulerAllowedHosts = SchedulerAllowedHosts cfg,
     opt_ReadinessTimeout = ReadinessTimeout cfg, opt_ShutdownTimeout = ShutdownTimeout cfg,
     opt_InstanceID = conf_InstanceID cfg\<rparr>"

definition OptionsFromEnv ::
  "(osenv \<Rightarrow> osenv) \<Rightarrow> (string \<Rightarrow> blob) \<Rightarrow> 'e \<Rightarrow> string \<Rightarrow> osenv \<Rightarrow> 'e Options result" where
  "OptionsFromEnv dotenv json_of no_ext uuid env =
     and_then (Load dotenv uuid env) (\<lambda>cfg.
     and_then (parse_rules json_of (AuthzRules cfg)) (\<lambda>rules.
       Inr (env_options no_ext cfg rules)))"

section \<open>The configuration of the options\<close>

definition orInt :: "int \<Rightarrow> int \<Rightarrow> int" where
  "orInt v fallback = (if v = 0 then fallback else v)"

definition orInt64 :: "int \<Rightarrow> int \<Rightarrow> int" where
  "orInt64 v fallback = (if v = 0 then fallback else v)"

definition orDuration :: "int \<Rightarrow> int \<Rightarrow> int" where
  "orDuration v fallback = (if v = 0 then fallback else v)"

definition listen_port :: "string \<Rightarrow> int result" where
  "listen_port addr =
     (if addr = [] then Inr 0
      else case SplitHostPort addr of
          Inl e \<Rightarrow> Inl (Wrap (''parse ListenAddr '' @ Quote addr @ '': '') e [])
        | Inr (host, port) \<Rightarrow>
            (case Atoi port of
               Inl e \<Rightarrow> Inl (Wrap (''parse ListenAddr port '' @ Quote port @ '': '') e [])
             | Inr n \<Rightarrow> Inr n))"

definition eviction_drops :: "int \<Rightarrow> int" where
  "eviction_drops d = (if d < 0 then 0 else if d = 0 then 100 else d)"

definition toConfig :: "string \<Rightarrow> 'e Options \<Rightarrow> Config result" where
  "toConfig uuid opts =
     and_then (listen_port (ListenAddr opts)) (\<lambda>port.
       Inr \<lparr>RedisHost = [], RedisPort = 0, RedisPassword = opt_RedisPassword opts,
         RedisAddrs = (if opt_RedisAddrs opts = [] then [''localhost:6379''] else opt_RedisAddrs opts),
         RedisMasterName = opt_RedisMasterName opts, WebSocketPort = port, WebSocketTimeout = IdleTimeout opts,
         MaxPayloadBytes = orInt64 (opt_MaxPayloadBytes opts) (64 * 1024),
         conf_MaxBufferedBytes = orInt64 (opt_MaxBufferedBytes opts) (1024 * 1024),
         conf_MaxConsecutiveDrops = eviction_drops (opt_MaxConsecutiveDrops opts),
         EnableCompression = opt_EnableCompression opts, AllowedOrigins = opt_AllowedOrigins opts,
         MetricsAddr = opt_MetricsAddr opts, TLSKeyPath = opt_TLSKeyPath opts, TLSCertPath = opt_TLSCertPath opts,
         AuthzRules = [], conf_PresenceTopic = opt_PresenceTopic opts, AuthJWTSecret = JWTSecret opts,
         AuthJWTAudience = JWTAudience opts, AuthJWTIssuer = JWTIssuer opts,
         conf_StreamMaxLength = orInt64 (opt_StreamMaxLength opts) 1000, conf_StreamTTL = opt_StreamTTL opts,
         conf_AckCursorTTL = orDuration (opt_AckCursorTTL opts) (7 * 24 * 3600 * Second),
         RateLimitMessagesPerSec = orInt (MessagesPerSec opts) 50, RateLimitJobsPerMin = orInt (JobsPerMin opts) 30,
         SchedulerAllowedHosts = opt_SchedulerAllowedHosts opts,
         ReadinessTimeout = orDuration (opt_ReadinessTimeout opts) DefaultReadinessTimeout,
         ShutdownTimeout = orDuration (opt_ShutdownTimeout opts) DefaultShutdownTimeout,
         LogLevel = opt_LogLevel opts,
         conf_InstanceID = (if opt_InstanceID opts = [] then uuid else opt_InstanceID opts)\<rparr>)"

section \<open>From the environment to the running configuration\<close>

lemma digits_plain:
  "CHR '':'' \<notin> set (FormatUint n)" "CHR ''['' \<notin> set (FormatUint n)" "CHR '']'' \<notin> set (FormatUint n)"
proof -
  have "\<not> is_digit (CHR '':'')" "\<not> is_digit (CHR ''['')" "\<not> is_digit (CHR '']'')" by (simp_all add: is_digit_def)
  then show "CHR '':'' \<notin> set (FormatUint n)" "CHR ''['' \<notin> set (FormatUint n)" "CHR '']'' \<notin> set (FormatUint n)"
    using FormatUint_digits by blast+
qed

lemma SplitHostPort_port:
  assumes "CHR '':'' \<notin> set p" "CHR ''['' \<notin> set p" "CHR '']'' \<notin> set p"
  shows "SplitHostPort (CHR '':'' # p) = Inr ([], p)"
proof -
  have "LastIndexByte (CHR '':'' # p) (CHR '':'') = 0"
    using IndexByte_append_hit [of "CHR '':''" "rev p" "[]"] assms(1) by (simp add: LastIndexByte_def)
  with assms show ?thesis by (simp add: SplitHostPort_def)
qed

lemma Atoi_FormatInt:
  assumes "0 \<le> n" and "n \<le> max_int64"
  shows "Atoi (FormatInt n) = Inr n"
  using assms ParseInt_FormatUint [of "nat n"] by (simp add: Atoi_def FormatInt_def)

lemma listen_port_FormatInt:
  assumes "0 \<le> n" and "n \<le> max_int64"
  shows "listen_port ('':'' @ FormatInt n) = Inr n"
proof -
  from assms(1) have "FormatInt n = FormatUint (nat n)" by (simp add: FormatInt_def)
  then have "SplitHostPort (CHR '':'' # FormatInt n) = Inr ([], FormatInt n)"
    using SplitHostPort_port digits_plain by simp
  with Atoi_FormatInt [OF assms] show ?thesis by (simp add: listen_port_def)
qed

text \<open>
  The configuration survives the trip through the options. A server started from the environment
  runs with the configuration that was loaded, port included, except that the Redis host and port
  become the one address, the rules are handed on as the authorizer, a negative drop limit becomes
  0, and the settings for which the options reserve 0 (stream length, expiry of ack cursors, rate
  limits, timeouts) take their default when the environment asks for 0.
\<close>

theorem env_reaches_server:
  assumes load: "Load dotenv uuid env = Inr cfg"
    and opts: "OptionsFromEnv dotenv json_of no_ext uuid env = Inr opts" and "uuid \<noteq> []"
  shows "toConfig uuid' opts = Inr (cfg\<lparr>RedisHost := [], RedisPort := 0, RedisAddrs := RedisAddrList cfg, AuthzRules := [],
      conf_MaxConsecutiveDrops := max 0 (conf_MaxConsecutiveDrops cfg),
      conf_StreamMaxLength := orInt64 (conf_StreamMaxLength cfg) 1000,
      conf_AckCursorTTL := orDuration (conf_AckCursorTTL cfg) (604800 * Second),
      RateLimitMessagesPerSec := orInt (RateLimitMessagesPerSec cfg) 50,
      RateLimitJobsPerMin := orInt (RateLimitJobsPerMin cfg) 30,
      ReadinessTimeout := orDuration (ReadinessTimeout cfg) DefaultReadinessTimeout,
      ShutdownTimeout := orDuration (ShutdownTimeout cfg) DefaultShutdownTimeout\<rparr>)
    \<and> (\<exists>rules. parse_rules json_of (AuthzRules cfg) = Inr rules \<and> opt_Authorizer opts = map_option Authorize rules)"
proof -
  from opts load obtain rules where r: "parse_rules json_of (AuthzRules cfg) = Inr rules"
    and o': "opts = env_options no_ext cfg rules"
    by (auto simp: OptionsFromEnv_def and_then_Inr)
  from load have c: "cfg = env_config (dotenv env) uuid" and v: "validate cfg = Inr ()"
    by (auto simp: Load_def load_env_Inr)
  from v have port: "listen_port ('':'' @ FormatInt (WebSocketPort cfg)) = Inr (WebSocketPort cfg)"
    by (intro listen_port_FormatInt) (auto simp: validate_Inr max_int64_def)
  from v have sizes: "MaxPayloadBytes cfg \<noteq> 0" "conf_MaxBufferedBytes cfg \<noteq> 0" by (auto simp: validate_Inr)
  have inst: "conf_InstanceID cfg \<noteq> []" using assms(3) by (simp add: c env_config_def getenv_def Let_def)
  have addrs: "RedisAddrList cfg \<noteq> []" by (simp add: RedisAddrList_def)
  show ?thesis
    using r port sizes inst addrs
    by (simp add: o' env_options_def toConfig_def and_then_def orInt64_def orDuration_def eviction_drops_def split: option.splits)
qed

text \<open>
  An environment that asks for ack cursors that never expire (\<^verbatim>\<open>ACK_CURSOR_TTL_SECONDS=0\<close>): the loaded
  configuration says so, the running one expires them after seven days.
\<close>

definition forever_env :: osenv where
  "forever_env k = (if k = ''REDIS_HOST'' then Some ''db'' else if k = ''ACK_CURSOR_TTL_SECONDS'' then Some ''0'' else None)"

lemma forever_env_get:
  "os_Getenv forever_env ''ACK_CURSOR_TTL_SECONDS'' = ''0''" "os_Getenv forever_env ''REDIS_HOST'' = ''db''"
  "k \<noteq> ''REDIS_HOST'' \<Longrightarrow> k \<noteq> ''ACK_CURSOR_TTL_SECONDS'' \<Longrightarrow> os_Getenv forever_env k = []"
  by (simp_all add: forever_env_def os_Getenv_def)

lemma ParseInt_zero: "ParseInt ''0'' = (0, None)"
  by (simp add: ParseInt_def ParseUint_def is_digit_def digit_val_def)

lemma forever_loads: "Load (\<lambda>e. e) ''u'' forever_env = Inr (env_config forever_env ''u'')"
  by (simp add: Load_def load_env_Inr numeric_vars_def num_ok_def forever_env_get ParseInt_zero validate_Inr)
    (simp add: env_config_def num_of_def forever_env_get getenv_def Let_def)

lemma forever_options:
  "OptionsFromEnv (\<lambda>e. e) Text () ''u'' forever_env = Inr (env_options () (env_config forever_env ''u'') None)"
  using forever_loads
  by (simp add: OptionsFromEnv_def and_then_def)
    (simp add: parse_rules_def ParseRules_def env_config_def getenv_def forever_env_get TrimSpace_def)

theorem env_reaches_server_witness:
  "conf_AckCursorTTL (env_config forever_env ''u'') = 0 \<and>
   (\<exists>c. toConfig ''v'' (env_options () (env_config forever_env ''u'') None) = Inr c \<and>
        conf_AckCursorTTL c = 604800000000000 \<and> WebSocketPort c = 8080 \<and> RedisAddrs c = [''db:6379''])"
proof -
  have z: "conf_AckCursorTTL (env_config forever_env ''u'') = 0"
    by (simp add: env_config_def num_of_def forever_env_get ParseInt_zero wrap64_def)
  have p: "WebSocketPort (env_config forever_env ''u'') = 8080"
    by (simp add: env_config_def num_of_def forever_env_get)
  have a: "RedisAddrList (env_config forever_env ''u'') = [''db:6379'']"
    by (simp add: RedisAddrList_def env_config_def num_of_def getcsv_def getenv_def forever_env_get TrimSpace_def
      JoinHostPort_def FormatInt_def FormatUint.simps digit_char_eval)
  from env_reaches_server [OF forever_loads forever_options, of "''v''"] z p a show ?thesis
    by (simp add: orDuration_def Second_def)
qed

end
