(* ===== verification/Redis.thy ===== *)
theory Redis
  imports StreamId Json
begin

text \<open>
  Redis, the service every instance shares, is not code of the repository. It enters the model
  as an argument: a record of type \<open>'s redis\<close> with one field per method of
  \<^verbatim>\<open>redis.UniversalClient\<close> the sources call, over an opaque server state \<open>'s\<close>. A method
  returns the error or the result that go-redis returns, with the state the server is left in.

  What the sources rely on is the documented behaviour of the commands, stated once as the
  predicate \<open>documented\<close> over a view of the server state as a keyspace. With
  \<open>net = True\<close> a command may also fail on the way, having had its documented effect or none;
  with \<open>net = False\<close> it does not. \<open>ref_redis\<close> is a concrete server that satisfies the
  predicate, on which hypotheses of that form are shown to be satisfiable.
\<close>

section \<open>The keyspace\<close>

text \<open>
  A key holds a value of one type. A string carries its remaining time to live in milliseconds,
  if it has one; a set is the list of its members, a sorted set the list of its members with
  their scores in rank order, a stream the list of its entries, oldest first.
\<close>

datatype rval =
    VStr string "int option"
  | VSet "string list"
  | VZSet "(blob \<times> int) list"
  | VStream "(string \<times> blob) list"

record rdb =
  keyspace :: "string \<Rightarrow> rval option"
  published :: "(string \<times> blob) list"

definition str_at :: "rdb \<Rightarrow> string \<Rightarrow> string option" where
  "str_at d k = (case keyspace d k of Some (VStr v _) \<Rightarrow> Some v | _ \<Rightarrow> None)"

definition ttl_at :: "rdb \<Rightarrow> string \<Rightarrow> int option" where
  "ttl_at d k = (case keyspace d k of Some (VStr v t) \<Rightarrow> t | _ \<Rightarrow> None)"

definition set_at :: "rdb \<Rightarrow> string \<Rightarrow> string set" where
  "set_at d k = (case keyspace d k of Some (VSet xs) \<Rightarrow> set xs | _ \<Rightarrow> {})"

definition zset_at :: "rdb \<Rightarrow> string \<Rightarrow> (blob \<times> int) list" where
  "zset_at d k = (case keyspace d k of Some (VZSet xs) \<Rightarrow> xs | _ \<Rightarrow> [])"

definition stream_at :: "rdb \<Rightarrow> string \<Rightarrow> (string \<times> blob) list" where
  "stream_at d k = (case keyspace d k of Some (VStream xs) \<Rightarrow> xs | _ \<Rightarrow> [])"

text \<open>The key is free or holds a value of the type the command works on.\<close>

definition str_key :: "rdb \<Rightarrow> string \<Rightarrow> bool" where
  "str_key d k \<longleftrightarrow> (case keyspace d k of None \<Rightarrow> True | Some (VStr _ _) \<Rightarrow> True | _ \<Rightarrow> False)"

definition set_key :: "rdb \<Rightarrow> string \<Rightarrow> bool" where
  "set_key d k \<longleftrightarrow> (case keyspace d k of None \<Rightarrow> True | Some (VSet _) \<Rightarrow> True | _ \<Rightarrow> False)"

definition zset_key :: "rdb \<Rightarrow> string \<Rightarrow> bool" where
  "zset_key d k \<longleftrightarrow> (case keyspace d k of None \<Rightarrow> True | Some (VZSet _) \<Rightarrow> True | _ \<Rightarrow> False)"

definition stream_key :: "rdb \<Rightarrow> string \<Rightarrow> bool" where
  "stream_key d k \<longleftrightarrow> (case keyspace d k of None \<Rightarrow> True | Some (VStream _) \<Rightarrow> True | _ \<Rightarrow> False)"

definition put :: "string \<Rightarrow> rval option \<Rightarrow> rdb \<Rightarrow> rdb" where
  "put k x d = d\<lparr>keyspace := (keyspace d)(k := x)\<rparr>"

lemma keyspace_put [simp]: "keyspace (put k x d) = (keyspace d)(k := x)"
  by (simp add: put_def)

lemma published_put [simp]: "published (put k x d) = published d"
  by (simp add: put_def)

lemma put_put [simp]: "put k x (put k y d) = put k x d"
  by (simp add: put_def)

lemmas key_defs = str_at_def ttl_at_def set_at_def zset_at_def stream_at_def
  str_key_def set_key_def zset_key_def stream_key_def

section \<open>The client\<close>

text \<open>
  The methods of \<^verbatim>\<open>redis.UniversalClient\<close>. Times to live are in milliseconds, with 0 for
  none. \<open>rEval\<close> is \<^verbatim>\<open>Script.Run(...).Int()\<close>: it runs a script body, itself written over the
  commands, as one step of the server. \<open>rScan\<close> is a scan with its iterator run to the end: the keys it
  yields, and the error it stopped at, if any.
\<close>

type_synonym ('s, 'a) cmd = "'s \<Rightarrow> 'a result \<times> 's"

record 's redis =
  rGet :: "string \<Rightarrow> ('s, string) cmd"
  rSet :: "string \<Rightarrow> string \<Rightarrow> int \<Rightarrow> ('s, unit) cmd"
  rSetNX :: "string \<Rightarrow> string \<Rightarrow> int \<Rightarrow> ('s, bool) cmd"
  rDel :: "string \<Rightarrow> ('s, int) cmd"
  rIncr :: "string \<Rightarrow> ('s, int) cmd"
  rDecr :: "string \<Rightarrow> ('s, int) cmd"
  rSAdd :: "string \<Rightarrow> string \<Rightarrow> ('s, unit) cmd"
  rSRem :: "string \<Rightarrow> string \<Rightarrow> ('s, unit) cmd"
  rSMembers :: "string \<Rightarrow> ('s, string list) cmd"
  rZAdd :: "string \<Rightarrow> int \<Rightarrow> blob \<Rightarrow> ('s, unit) cmd"
  rZRem :: "string \<Rightarrow> blob \<Rightarrow> ('s, int) cmd"
  rZRemRangeByScore :: "string \<Rightarrow> int \<Rightarrow> ('s, unit) cmd"
  rZCard :: "string \<Rightarrow> ('s, int) cmd"
  rZRange :: "string \<Rightarrow> ('s, blob list) cmd"
  rZRangeByScore :: "string \<Rightarrow> int \<Rightarrow> int \<Rightarrow> ('s, blob list) cmd"
  rZFirst :: "string \<Rightarrow> ('s, int list) cmd"
  rPExpire :: "string \<Rightarrow> int \<Rightarrow> ('s, unit) cmd"
  rXAdd :: "string \<Rightarrow> int \<Rightarrow> blob \<Rightarrow> ('s, string) cmd"
  rXRange :: "string \<Rightarrow> string \<Rightarrow> ('s, (string \<times> blob) list) cmd"
  rXFirst :: "string \<Rightarrow> ('s, (string \<times> blob) list) cmd"
  rXTrimMinID :: "string \<Rightarrow> string \<Rightarrow> ('s, unit) cmd"
  rScan :: "string \<Rightarrow> 's \<Rightarrow> (string list \<times> goerr option) \<times> 's"
  rPublish :: "string \<Rightarrow> blob \<Rightarrow> ('s, unit) cmd"
  rPing :: "('s, unit) cmd"
  rEval :: "('s, int) cmd \<Rightarrow> ('s, int) cmd"

section \<open>Documented behaviour of the commands\<close>

text \<open>
  Each command's documented behaviour is a relation between the keyspace before, the reply and
  the keyspace after. A command on a key of another type replies with the \<^verbatim>\<open>WRONGTYPE\<close> error
  and changes nothing.
\<close>

definition WRONGTYPE :: goerr where
  "WRONGTYPE = Err ''WRONGTYPE Operation against a key holding the wrong kind of value''"

definition typed :: "bool \<Rightarrow> (rdb \<Rightarrow> 'a result \<Rightarrow> rdb \<Rightarrow> bool) \<Rightarrow> rdb \<Rightarrow> 'a result \<Rightarrow> rdb \<Rightarrow> bool" where
  "typed ok P d r d' \<longleftrightarrow> (if ok then P d r d' else r = Inl WRONGTYPE \<and> d' = d)"

definition ttl_of :: "int \<Rightarrow> int option" where
  "ttl_of t = (if t \<le> 0 then None else Some t)"

definition doc_Get where
  "doc_Get k d r d' \<longleftrightarrow> typed (str_key d k) (\<lambda>d r d'. d' = d \<and>
     r = (case str_at d k of None \<Rightarrow> Inl RedisNil | Some v \<Rightarrow> Inr v)) d r d'"

definition doc_Set where
  "doc_Set k x t d r d' \<longleftrightarrow> r = Inr () \<and> d' = put k (Some (VStr x (ttl_of t))) d"

definition doc_SetNX where
  "doc_SetNX k x t d r d' \<longleftrightarrow>
     (if keyspace d k = None then r = Inr True \<and> d' = put k (Some (VStr x (ttl_of t))) d
      else r = Inr False \<and> d' = d)"

definition doc_Del where
  "doc_Del k d r d' \<longleftrightarrow>
     r = Inr (if keyspace d k = None then 0 else 1 :: int) \<and> d' = put k None d"

text \<open>
  INCR and DECR on a counter: an absent key counts as 0, a string that is not a number is an
  error.
\<close>

definition counter_at :: "rdb \<Rightarrow> string \<Rightarrow> int option" where
  "counter_at d k =
     (case str_at d k of None \<Rightarrow> Some 0
      | Some v \<Rightarrow> (case ParseInt v of (n, None) \<Rightarrow> Some n | (n, Some e) \<Rightarrow> None))"

definition doc_IncrBy where
  "doc_IncrBy k n d r d' \<longleftrightarrow> typed (str_key d k) (\<lambda>d r d'.
     case counter_at d k of
       None \<Rightarrow> r = Inl (Err ''ERR value is not an integer or out of range'') \<and> d' = d
     | Some c \<Rightarrow>
         if c + n < min_int64 \<or> max_int64 < c + n
         then r = Inl (Err ''ERR increment or decrement would overflow'') \<and> d' = d
         else r = Inr (c + n) \<and> d' = put k (Some (VStr (FormatInt (c + n)) (ttl_at d k))) d) d r d'"

definition doc_SAdd where
  "doc_SAdd k x d r d' \<longleftrightarrow> typed (set_key d k) (\<lambda>d r d'.
     r = Inr () \<and> (\<exists>ys. d' = put k (Some (VSet ys)) d \<and> distinct ys \<and> set ys = insert x (set_at d k))) d r d'"

text \<open>A set that loses its last member is removed with its key.\<close>

definition doc_SRem where
  "doc_SRem k x d r d' \<longleftrightarrow> typed (set_key d k) (\<lambda>d r d'. r = Inr () \<and>
     (if set_at d k - {x} = {} then d' = put k None d
      else \<exists>ys. d' = put k (Some (VSet ys)) d \<and> distinct ys \<and> set ys = set_at d k - {x})) d r d'"

definition doc_SMembers where
  "doc_SMembers k d r d' \<longleftrightarrow> typed (set_key d k) (\<lambda>d r d'.
     d' = d \<and> (\<exists>xs. r = Inr xs \<and> distinct xs \<and> set xs = set_at d k)) d r d'"

text \<open>A sorted set as Redis keeps it: one score per member, in rank order.\<close>

definition zset_ok :: "(blob \<times> int) list \<Rightarrow> bool" where
  "zset_ok xs \<longleftrightarrow> distinct (map fst xs) \<and> sorted (map snd xs)"

definition put_zset :: "string \<Rightarrow> (blob \<times> int) list \<Rightarrow> rdb \<Rightarrow> rdb" where
  "put_zset k xs d = put k (if xs = [] then None else Some (VZSet xs)) d"

definition doc_ZAdd where
  "doc_ZAdd k sc m d r d' \<longleftrightarrow> typed (zset_key d k) (\<lambda>d r d'. r = Inr () \<and>
     (\<exists>ys. d' = put_zset k ys d \<and> (zset_ok (zset_at d k) \<longrightarrow> zset_ok ys)
        \<and> map_of ys = (map_of (zset_at d k))(m \<mapsto> sc))) d r d'"

definition doc_ZRem where
  "doc_ZRem k m d r d' \<longleftrightarrow> typed (zset_key d k) (\<lambda>d r d'.
     r = Inr (if m \<in> fst ` set (zset_at d k) then 1 else 0 :: int)
     \<and> d' = put_zset k (filter (\<lambda>p. fst p \<noteq> m) (zset_at d k)) d) d r d'"

definition doc_ZRemRangeByScore where
  "doc_ZRemRangeByScore k hi d r d' \<longleftrightarrow> typed (zset_key d k) (\<lambda>d r d'.
     r = Inr () \<and> d' = put_zset k (filter (\<lambda>p. \<not> snd p \<le> hi) (zset_at d k)) d) d r d'"

definition doc_ZCard where
  "doc_ZCard k d r d' \<longleftrightarrow> typed (zset_key d k) (\<lambda>d r d'.
     r = Inr (int (length (zset_at d k))) \<and> d' = d) d r d'"

definition doc_ZRange where
  "doc_ZRange k d r d' \<longleftrightarrow> typed (zset_key d k) (\<lambda>d r d'.
     r = Inr (map fst (zset_at d k)) \<and> d' = d) d r d'"

definition doc_ZRangeByScore where
  "doc_ZRangeByScore k lo hi d r d' \<longleftrightarrow> typed (zset_key d k) (\<lambda>d r d'.
     r = Inr (map fst (filter (\<lambda>p. lo \<le> snd p \<and> snd p \<le> hi) (zset_at d k))) \<and> d' = d) d r d'"

definition doc_ZFirst where
  "doc_ZFirst k d r d' \<longleftrightarrow> typed (zset_key d k) (\<lambda>d r d'.
     r = Inr (map snd (take 1 (zset_at d k))) \<and> d' = d) d r d'"

text \<open>PEXPIRE on a sorted set: the time to live of keys that are not strings is not kept in the view.\<close>

definition doc_PExpire where
  "doc_PExpire k t d r d' \<longleftrightarrow> r = Inr () \<and> d' = d"

text \<open>
  XADD with an approximate MAXLEN assigns an ID above every ID of the stream and may drop old
  entries, but never so many that fewer than MAXLEN remain. Nothing is said of a stream whose
  milliseconds have left the 63-bit range.
\<close>

definition doc_XAdd where
  "doc_XAdd k n x d r d' \<longleftrightarrow> typed (stream_key d k) (\<lambda>d r d'.
     list_all (\<lambda>e. fst (splitStreamID (fst e)) < max_int64) (stream_at d k) \<longrightarrow> (\<exists>i m.
     r = Inr i \<and> streamIDPattern i \<and> (\<forall>e \<in> set (stream_at d k). compareStreamIDs (fst e) i < 0)
     \<and> (0 < m \<longrightarrow> n \<le> int (length (stream_at d k)) + 1 - int m)
     \<and> m \<le> length (stream_at d k)
     \<and> d' = put k (Some (VStream (drop m (stream_at d k @ [(i, x)])))) d)) d r d'"

text \<open>XRANGE from a position to the end; the position is \<^verbatim>\<open><ms>\<close> or \<^verbatim>\<open><ms>-<seq>\<close>.\<close>

definition valid_range_start :: "string \<Rightarrow> bool" where
  "valid_range_start p \<longleftrightarrow> allDigitsPattern p \<or> streamIDPattern p"

definition doc_XRange where
  "doc_XRange k p d r d' \<longleftrightarrow>
     (if \<not> valid_range_start p
      then r = Inl (Err ''ERR Invalid stream ID specified as stream command argument'') \<and> d' = d
      else typed (stream_key d k) (\<lambda>d r d'.
        r = Inr (filter (\<lambda>e. compareStreamIDs p (fst e) \<le> 0) (stream_at d k)) \<and> d' = d) d r d')"

definition doc_XFirst where
  "doc_XFirst k d r d' \<longleftrightarrow> typed (stream_key d k) (\<lambda>d r d'.
     r = Inr (take 1 (stream_at d k)) \<and> d' = d) d r d'"

definition doc_XTrimMinID where
  "doc_XTrimMinID k i d r d' \<longleftrightarrow> typed (stream_key d k) (\<lambda>d r d'.
     r = Inr () \<and> d' = (if keyspace d k = None then d
       else put k (Some (VStream (filter (\<lambda>e. \<not> compareStreamIDs (fst e) i < 0) (stream_at d k)))) d)) d r d'"

definition doc_Scan where
  "doc_Scan p d r d' \<longleftrightarrow> d' = d \<and> (\<exists>xs. r = Inr xs \<and>
     set xs = {k. HasPrefix k p \<and> keyspace d k \<noteq> None})"

definition doc_Publish where
  "doc_Publish c m d r d' \<longleftrightarrow> r = Inr () \<and> d' = d\<lparr>published := published d @ [(c, m)]\<rparr>"

definition doc_Ping where
  "doc_Ping d r d' \<longleftrightarrow> r = Inr () \<and> d' = d"

lemmas doc_defs = doc_Get_def doc_Set_def doc_SetNX_def doc_Del_def doc_IncrBy_def doc_SAdd_def
  doc_SRem_def doc_SMembers_def doc_ZAdd_def doc_ZRem_def doc_ZRemRangeByScore_def doc_ZCard_def
  doc_ZRange_def doc_ZRangeByScore_def doc_ZFirst_def doc_PExpire_def doc_XAdd_def doc_XRange_def
  doc_XFirst_def doc_XTrimMinID_def doc_Scan_def doc_Publish_def doc_Ping_def

definition scan_result :: "(string list \<times> goerr option) \<times> 's \<Rightarrow> string list result \<times> 's" where
  "scan_result p = (case snd (fst p) of None \<Rightarrow> Inr (fst (fst p)) | Some e \<Rightarrow> Inl e, snd p)"

section \<open>A server that behaves as documented\<close>

text \<open>
  \<open>obeys net v c P\<close>: every run of the command \<open>c\<close> is as \<open>P\<close> documents, seen through
  the view \<open>v\<close>; with \<open>net\<close> it may instead return an error that is not \<^verbatim>\<open>redis.Nil\<close>, the
  documented effect having happened or not.
\<close>

definition obeys :: "bool \<Rightarrow> ('s \<Rightarrow> rdb) \<Rightarrow> ('s, 'a) cmd \<Rightarrow> (rdb \<Rightarrow> 'a result \<Rightarrow> rdb \<Rightarrow> bool) \<Rightarrow> bool" where
  "obeys net v c P \<longleftrightarrow> (\<forall>s r s'. c s = (r, s') \<longrightarrow> P (v s) r (v s') \<or>
     (net \<and> (\<exists>e. r = Inl e \<and> \<not> errors_Is e RedisNil) \<and> (v s' = v s \<or> (\<exists>r0. P (v s) r0 (v s')))))"

definition eval_obeys :: "bool \<Rightarrow> ('s \<Rightarrow> rdb) \<Rightarrow> (('s, int) cmd \<Rightarrow> ('s, int) cmd) \<Rightarrow> bool" where
  "eval_obeys net v ev \<longleftrightarrow> (\<forall>b s r s'. ev b s = (r, s') \<longrightarrow>
     (r = fst (b s) \<and> v s' = v (snd (b s))) \<or>
     (net \<and> (\<exists>e. r = Inl e \<and> \<not> errors_Is e RedisNil) \<and> (v s' = v s \<or> v s' = v (snd (b s)))))"

definition documented :: "bool \<Rightarrow> 's redis \<Rightarrow> ('s \<Rightarrow> rdb) \<Rightarrow> bool" where
  "documented net R v \<longleftrightarrow>
     (\<forall>k. obeys net v (rGet R k) (doc_Get k)) \<and>
     (\<forall>k x t. obeys net v (rSet R k x t) (doc_Set k x t)) \<and>
     (\<forall>k x t. obeys net v (rSetNX R k x t) (doc_SetNX k x t)) \<and>
     (\<forall>k. obeys net v (rDel R k) (doc_Del k)) \<and>
     (\<forall>k. obeys net v (rIncr R k) (doc_IncrBy k 1)) \<and>
     (\<forall>k. obeys net v (rDecr R k) (doc_IncrBy k (-1))) \<and>
     (\<forall>k x. obeys net v (rSAdd R k x) (doc_SAdd k x)) \<and>
     (\<forall>k x. obeys net v (rSRem R k x) (doc_SRem k x)) \<and>
     (\<forall>k. obeys net v (rSMembers R k) (doc_SMembers k)) \<and>
     (\<forall>k sc m. obeys net v (rZAdd R k sc m) (doc_ZAdd k sc m)) \<and>
     (\<forall>k m. obeys net v (rZRem R k m) (doc_ZRem k m)) \<and>
     (\<forall>k hi. obeys net v (rZRemRangeByScore R k hi) (doc_ZRemRangeByScore k hi)) \<and>
     (\<forall>k. obeys net v (rZCard R k) (doc_ZCard k)) \<and>
     (\<forall>k. obeys net v (rZRange R k) (doc_ZRange k)) \<and>
     (\<forall>k lo hi. obeys net v (rZRangeByScore R k lo hi) (doc_ZRangeByScore k lo hi)) \<and>
     (\<forall>k. obeys net v (rZFirst R k) (doc_ZFirst k)) \<and>
     (\<forall>k t. obeys net v (rPExpire R k t) (doc_PExpire k t)) \<and>
     (\<forall>k n x. obeys net v (rXAdd R k n x) (doc_XAdd k n x)) \<and>
     (\<forall>k p. obeys net v (rXRange R k p) (doc_XRange k p)) \<and>
     (\<forall>k. obeys net v (rXFirst R k) (doc_XFirst k)) \<and>
     (\<forall>k i. obeys net v (rXTrimMinID R k i) (doc_XTrimMinID k i)) \<and>
     (\<forall>p. obeys net v (\<lambda>s. scan_result (rScan R p s)) (doc_Scan p)) \<and>
     (\<forall>c m. obeys net v (rPublish R c m) (doc_Publish c m)) \<and>
     obeys net v (rPing R) doc_Ping \<and>
     eval_obeys net v (rEval R)"

lemma obeysD:
  "obeys net v c P \<Longrightarrow> c s = (r, s') \<Longrightarrow> P (v s) r (v s') \<or>
     (net \<and> (\<exists>e. r = Inl e \<and> \<not> errors_Is e RedisNil) \<and> (v s' = v s \<or> (\<exists>r0. P (v s) r0 (v s'))))"
  by (simp add: obeys_def)

lemma obeys_sureD: "obeys False v c P \<Longrightarrow> P (v s) (fst (c s)) (v (snd (c s)))"
  by (simp add: obeys_def)

lemma obeys_okD: "obeys net v c P \<Longrightarrow> c s = (Inr x, s') \<Longrightarrow> P (v s) (Inr x) (v s')"
  by (auto simp: obeys_def)

lemma eval_obeysD:
  "eval_obeys net v ev \<Longrightarrow> ev b s = (r, s') \<Longrightarrow>
     (r = fst (b s) \<and> v s' = v (snd (b s))) \<or>
     ((\<exists>e. r = Inl e) \<and> (v s' = v s \<or> v s' = v (snd (b s))))"
  unfolding eval_obeys_def by blast

lemma eval_sureD:
  assumes "eval_obeys False v ev"
  shows "fst (ev b s) = fst (b s)" and "v (snd (ev b s)) = v (snd (b s))"
  using assms unfolding eval_obeys_def by (metis prod.collapse)+

section \<open>Reading the documentation\<close>

text \<open>One lemma per command and outcome, in the form the component proofs apply.\<close>

lemma documented_cmds:
  assumes "documented net R v"
  shows doc_rGet: "obeys net v (rGet R k) (doc_Get k)"
    and doc_rSet: "obeys net v (rSet R k x t) (doc_Set k x t)"
    and doc_rSetNX: "obeys net v (rSetNX R k x t) (doc_SetNX k x t)"
    and doc_rDel: "obeys net v (rDel R k) (doc_Del k)"
    and doc_rSAdd: "obeys net v (rSAdd R k x) (doc_SAdd k x)"
    and doc_rSRem: "obeys net v (rSRem R k x) (doc_SRem k x)"
    and doc_rSMembers: "obeys net v (rSMembers R k) (doc_SMembers k)"
    and doc_rEval: "eval_obeys net v (rEval R)"
    and doc_rIncr: "obeys net v (rIncr R k) (doc_IncrBy k 1)"
    and doc_rDecr: "obeys net v (rDecr R k) (doc_IncrBy k (-1))"
    and doc_rZAdd: "obeys net v (rZAdd R k sc m) (doc_ZAdd k sc m)"
    and doc_rZRem: "obeys net v (rZRem R k m) (doc_ZRem k m)"
    and doc_rZRemRangeByScore: "obeys net v (rZRemRangeByScore R k hi) (doc_ZRemRangeByScore k hi)"
    and doc_rZCard: "obeys net v (rZCard R k) (doc_ZCard k)"
    and doc_rZRange: "obeys net v (rZRange R k) (doc_ZRange k)"
    and doc_rZRangeByScore: "obeys net v (rZRangeByScore R k lo hi) (doc_ZRangeByScore k lo hi)"
    and doc_rZFirst: "obeys net v (rZFirst R k) (doc_ZFirst k)"
    and doc_rPExpire: "obeys net v (rPExpire R k t) (doc_PExpire k t)"
    and doc_rXAdd: "obeys net v (rXAdd R k n b) (doc_XAdd k n b)"
    and doc_rXRange: "obeys net v (rXRange R k p) (doc_XRange k p)"
    and doc_rXFirst: "obeys net v (rXFirst R k) (doc_XFirst k)"
    and doc_rXTrimMinID: "obeys net v (rXTrimMinID R k i) (doc_XTrimMinID k i)"
    and doc_rScan: "obeys net v (\<lambda>s. scan_result (rScan R p s)) (doc_Scan p)"
    and doc_rPublish: "obeys net v (rPublish R c b) (doc_Publish c b)"
  using assms by (simp_all add: documented_def)

text \<open>A string held under a key, whatever its type makes of the other commands.\<close>

lemma str_at_SomeD: "str_at d k = Some x \<Longrightarrow> \<exists>t. keyspace d k = Some (VStr x t)"
  by (auto simp: str_at_def split: option.splits rval.splits)

lemma str_at_put: "str_at (put k x d) k' = (if k' = k then
    (case x of Some (VStr y _) \<Rightarrow> Some y | _ \<Rightarrow> None) else str_at d k')"
  by (auto simp: str_at_def split: option.splits rval.splits)

lemma rGet_state:
  assumes "documented net R v" and "rGet R k s = (r, s')"
  shows "v s' = v s"
  using obeysD [OF doc_rGet [OF assms(1)] assms(2)] by (auto simp: doc_Get_def typed_def split: if_splits)

lemma rGet_Inr:
  assumes "documented net R v" and "rGet R k s = (Inr x, s')"
  shows "str_at (v s) k = Some x"
  using obeys_okD [OF doc_rGet [OF assms(1)] assms(2)]
  by (auto simp: doc_Get_def typed_def split: if_splits option.splits)

lemma rGet_Nil:
  assumes "documented net R v" and "rGet R k s = (Inl RedisNil, s')"
  shows "str_at (v s) k = None"
  using obeysD [OF doc_rGet [OF assms(1)] assms(2)]
  by (auto simp: doc_Get_def typed_def WRONGTYPE_def split: if_splits option.splits)

text \<open>Writing one sorted set leaves the other keys alone.\<close>

lemma zset_at_put_zset [simp]: "zset_at (put_zset k xs d) k = xs" "zset_key (put_zset k xs d) k"
  by (simp_all add: put_zset_def zset_at_def zset_key_def)

lemma keyspace_put_zset [simp]: "k' \<noteq> k \<Longrightarrow> keyspace (put_zset k xs d) k' = keyspace d k'"
  by (simp add: put_zset_def)

lemma zset_at_put_other [simp]: "k' \<noteq> k \<Longrightarrow> zset_at (put k x d) k' = zset_at d k'"
  "k' \<noteq> k \<Longrightarrow> zset_key (put k x d) k' = zset_key d k'"
  by (simp_all add: zset_at_def zset_key_def)

lemma rZRem_cases:
  assumes "documented net R v" and "rZRem R k m s = (r, s')"
  shows "v s' = v s \<or> (zset_key (v s) k \<and> v s' = put_zset k (filter (\<lambda>p. fst p \<noteq> m) (zset_at (v s) k)) (v s))"
    and "r = Inr n \<Longrightarrow> n = (if m \<in> fst ` set (zset_at (v s) k) then 1 else 0)
      \<and> v s' = put_zset k (filter (\<lambda>p. fst p \<noteq> m) (zset_at (v s) k)) (v s)"
  using obeysD [OF doc_rZRem [OF assms(1)] assms(2)]
  by (auto simp: doc_ZRem_def typed_def split: if_splits)

lemma rZRem_sure:
  assumes "documented False R v" and "zset_key (v s) k"
  shows "fst (rZRem R k m s) = Inr (if m \<in> fst ` set (zset_at (v s) k) then 1 else 0)"
    and "v (snd (rZRem R k m s)) = put_zset k (filter (\<lambda>p. fst p \<noteq> m) (zset_at (v s) k)) (v s)"
  using obeys_sureD [OF doc_rZRem [OF assms(1)], of k m s] assms(2) by (simp_all add: doc_ZRem_def typed_def)

lemma rZAdd_sure:
  assumes "documented False R v" and "zset_key (v s) k"
  shows "fst (rZAdd R k sc m s) = Inr ()"
    and "\<exists>ys. v (snd (rZAdd R k sc m s)) = put_zset k ys (v s) \<and> map_of ys = (map_of (zset_at (v s) k))(m \<mapsto> sc)"
  using obeys_sureD [OF doc_rZAdd [OF assms(1)], of k sc m s] assms(2) by (auto simp: doc_ZAdd_def typed_def)

text \<open>Commands on set keys leave every string as it is.\<close>

lemma set_key_not_str: "set_key d k \<Longrightarrow> str_at d q = Some y \<Longrightarrow> q \<noteq> k"
  by (auto simp: key_defs split: option.splits rval.splits)

lemma set_key_no_str: "set_key d k \<Longrightarrow> str_at d k = None"
  by (auto simp: key_defs split: option.splits rval.splits)

lemma str_at_put_set:
  "set_key d k \<Longrightarrow> str_at (put k (Some (VSet ys)) d) = str_at d"
  "set_key d k \<Longrightarrow> str_at (put k None d) = str_at d"
  by (auto simp: str_at_put set_key_no_str fun_eq_iff)

lemma doc_SAdd_strings: "doc_SAdd k x d r d' \<Longrightarrow> str_at d' = str_at d"
  by (cases "set_key d k") (auto simp: doc_SAdd_def typed_def str_at_put_set)

lemma doc_SRem_shape:
  assumes "doc_SRem k x d r d'"
  shows "d' = d \<or> (set_key d k \<and> (d' = put k None d \<or> (\<exists>ys. d' = put k (Some (VSet ys)) d)))"
  using assms unfolding doc_SRem_def typed_def by metis

lemma doc_SRem_strings: "doc_SRem k x d r d' \<Longrightarrow> str_at d' = str_at d"
  using doc_SRem_shape [of k x d r d'] str_at_put_set by metis

lemma set_at_put:
  "set_at (put k (Some (VSet ys)) d) k = set ys" "set_at (put k None d) k = {}"
  by (simp_all add: set_at_def)

lemma doc_SRem_gone:
  assumes "doc_SRem k x d r d'" and "set_key d k"
  shows "x \<notin> set_at d' k"
proof -
  from assms have "d' = put k None d \<or> (\<exists>ys. d' = put k (Some (VSet ys)) d \<and> set ys = set_at d k - {x})"
    unfolding doc_SRem_def typed_def by metis
  then show ?thesis by (elim disjE exE conjE) (simp_all only: set_at_put, simp_all)
qed

lemma rSAdd_strings:
  assumes "documented net R v" and "rSAdd R k x s = (r, s')"
  shows "str_at (v s') = str_at (v s)"
  using obeysD [OF doc_rSAdd [OF assms(1)] assms(2)]
  by (elim disjE conjE exE) (simp_all add: doc_SAdd_strings)

lemma rSRem_strings:
  assumes "documented net R v" and "rSRem R k x s = (r, s')"
  shows "str_at (v s') = str_at (v s)"
  using obeysD [OF doc_rSRem [OF assms(1)] assms(2)]
  by (elim disjE conjE exE) (simp_all add: doc_SRem_strings)

lemma rSetNX_taken:
  assumes "documented net R v" and "rSetNX R k x t s = (r, s')" and "str_at (v s) k = Some y"
  shows "v s' = v s \<and> r \<noteq> Inr True"
  using obeysD [OF doc_rSetNX [OF assms(1)] assms(2)] assms(3)
  by (auto simp: doc_SetNX_def key_defs split: if_splits)

lemma rSetNX_won:
  assumes "documented net R v" and "rSetNX R k x t s = (Inr True, s')"
  shows "str_at (v s) k = None \<and> v s' = put k (Some (VStr x (ttl_of t))) (v s)"
  using obeys_okD [OF doc_rSetNX [OF assms(1)] assms(2)]
  by (auto simp: doc_SetNX_def key_defs split: if_splits)

lemma rSetNX_lost:
  assumes "documented net R v" and "rSetNX R k x t s = (Inr False, s')"
  shows "v s' = v s"
  using obeys_okD [OF doc_rSetNX [OF assms(1)] assms(2)]
  by (auto simp: doc_SetNX_def split: if_splits)

text \<open>The condition under which XADD assigns an ID: the key holds a stream within the 63-bit range.\<close>

definition stream_ready :: "rdb \<Rightarrow> string \<Rightarrow> bool" where
  "stream_ready d k \<longleftrightarrow> stream_key d k \<and> list_all (\<lambda>e. fst (splitStreamID (fst e)) < max_int64) (stream_at d k)"

lemma rXAdd_ok:
  assumes doc: "documented net R v" and run: "rXAdd R k n b s = (Inr i, s')" and ready: "stream_ready (v s) k"
  shows "streamIDPattern i \<and> (\<forall>e \<in> set (stream_at (v s) k). compareStreamIDs (fst e) i < 0)
    \<and> (\<exists>m. v s' = put k (Some (VStream (drop m (stream_at (v s) k) @ [(i, b)]))) (v s)
         \<and> (int (length (stream_at (v s) k)) < n \<longrightarrow> m = 0))"
proof -
  from obeys_okD [OF doc_rXAdd [OF doc] run] ready
  have "\<exists>j m. Inr i = (Inr j :: string result) \<and> streamIDPattern j \<and> (\<forall>e \<in> set (stream_at (v s) k). compareStreamIDs (fst e) j < 0)
     \<and> (0 < m \<longrightarrow> n \<le> int (length (stream_at (v s) k)) + 1 - int m) \<and> m \<le> length (stream_at (v s) k)
     \<and> v s' = put k (Some (VStream (drop m (stream_at (v s) k @ [(j, b)])))) (v s)"
    unfolding doc_XAdd_def typed_def stream_ready_def by presburger
  then obtain m where m: "streamIDPattern i" "\<forall>e \<in> set (stream_at (v s) k). compareStreamIDs (fst e) i < 0"
    "0 < m \<longrightarrow> n \<le> int (length (stream_at (v s) k)) + 1 - int m" "m \<le> length (stream_at (v s) k)"
    "v s' = put k (Some (VStream (drop m (stream_at (v s) k @ [(i, b)])))) (v s)" by blast
  then have "int (length (stream_at (v s) k)) < n \<longrightarrow> m = 0" by auto
  with m show ?thesis by (intro conjI exI [of _ m]) simp_all
qed

lemma obeys_weaken: "obeys False v c P \<Longrightarrow> obeys True v c P"
  by (auto simp: obeys_def)

lemma eval_obeys_weaken: "eval_obeys False v ev \<Longrightarrow> eval_obeys True v ev"
  by (auto simp: eval_obeys_def)

lemma documented_weaken: "documented False R v \<Longrightarrow> documented True R v"
  unfolding documented_def by (intro conjI allI obeys_weaken eval_obeys_weaken) auto

lemma documented_any: "documented net R v \<Longrightarrow> documented True R v"
  by (cases net) (simp_all add: documented_weaken)

end
