(* ===== verification/RedisRef.thy ===== *)
theory RedisRef
  imports Redis
begin

text \<open>
  A server whose state is an association list. It is the instance at which the hypothesis
  \<open>documented False R v\<close> is shown to hold, and on which concrete runs are evaluated.
\<close>

record ref_state =
  entries :: "(string \<times> rval) list"
  pubs :: "(string \<times> blob) list"

definition ref_view :: "ref_state \<Rightarrow> rdb" where
  "ref_view s = \<lparr>keyspace = map_of (entries s), published = pubs s\<rparr>"

definition ref_put :: "string \<Rightarrow> rval option \<Rightarrow> ref_state \<Rightarrow> ref_state" where
  "ref_put k x s = s\<lparr>entries := (case x of None \<Rightarrow> [] | Some y \<Rightarrow> [(k, y)])
     @ filter (\<lambda>p. fst p \<noteq> k) (entries s)\<rparr>"

definition ref_typed :: "bool \<Rightarrow> ref_state \<Rightarrow> 'a result \<times> ref_state \<Rightarrow> 'a result \<times> ref_state" where
  "ref_typed ok s x = (if ok then x else (Inl WRONGTYPE, s))"

fun z_insert :: "blob \<times> int \<Rightarrow> (blob \<times> int) list \<Rightarrow> (blob \<times> int) list" where
  "z_insert p [] = [p]"
| "z_insert p (q # qs) = (if snd p \<le> snd q then p # q # qs else q # z_insert p qs)"

definition ref_put_zset :: "string \<Rightarrow> (blob \<times> int) list \<Rightarrow> ref_state \<Rightarrow> ref_state" where
  "ref_put_zset k xs s = ref_put k (if xs = [] then None else Some (VZSet xs)) s"

definition ref_incr :: "string \<Rightarrow> int \<Rightarrow> (ref_state, int) cmd" where
  "ref_incr k n s = ref_typed (str_key (ref_view s) k) s
     (case counter_at (ref_view s) k of
        None \<Rightarrow> (Inl (Err ''ERR value is not an integer or out of range''), s)
      | Some c \<Rightarrow> if c + n < min_int64 \<or> max_int64 < c + n
          then (Inl (Err ''ERR increment or decrement would overflow''), s)
          else (Inr (c + n), ref_put k (Some (VStr (FormatInt (c + n)) (ttl_at (ref_view s) k))) s))"

definition next_ms :: "(string \<times> blob) list \<Rightarrow> nat" where
  "next_ms xs = nat (fold (\<lambda>e m. max m (fst (splitStreamID (fst e)))) xs 0) + 1"

definition ref_redis :: "ref_state redis" where
  "ref_redis = \<lparr>
     rGet = (\<lambda>k s. ref_typed (str_key (ref_view s) k) s
       (case str_at (ref_view s) k of None \<Rightarrow> Inl RedisNil | Some x \<Rightarrow> Inr x, s)),
     rSet = (\<lambda>k x t s. (Inr (), ref_put k (Some (VStr x (ttl_of t))) s)),
     rSetNX = (\<lambda>k x t s. if map_of (entries s) k = None
       then (Inr True, ref_put k (Some (VStr x (ttl_of t))) s) else (Inr False, s)),
     rDel = (\<lambda>k s. (Inr (if map_of (entries s) k = None then 0 else 1), ref_put k None s)),
     rIncr = (\<lambda>k. ref_incr k 1),
     rDecr = (\<lambda>k. ref_incr k (-1)),
     rSAdd = (\<lambda>k x s. ref_typed (set_key (ref_view s) k) s
       (Inr (), ref_put k (Some (VSet (List.insert x (remdups
          (case map_of (entries s) k of Some (VSet xs) \<Rightarrow> xs | _ \<Rightarrow> []))))) s)),
     rSRem = (\<lambda>k x s. ref_typed (set_key (ref_view s) k) s
       (Inr (), let ys = removeAll x (remdups
          (case map_of (entries s) k of Some (VSet xs) \<Rightarrow> xs | _ \<Rightarrow> []))
        in ref_put k (if ys = [] then None else Some (VSet ys)) s)),
     rSMembers = (\<lambda>k s. ref_typed (set_key (ref_view s) k) s
       (Inr (remdups (case map_of (entries s) k of Some (VSet xs) \<Rightarrow> xs | _ \<Rightarrow> [])), s)),
     rZAdd = (\<lambda>k sc m s. ref_typed (zset_key (ref_view s) k) s
       (Inr (), ref_put_zset k (z_insert (m, sc)
          (filter (\<lambda>p. fst p \<noteq> m) (zset_at (ref_view s) k))) s)),
     rZRem = (\<lambda>k m s. ref_typed (zset_key (ref_view s) k) s
       (Inr (if m \<in> fst ` set (zset_at (ref_view s) k) then 1 else 0),
        ref_put_zset k (filter (\<lambda>p. fst p \<noteq> m) (zset_at (ref_view s) k)) s)),
     rZRemRangeByScore = (\<lambda>k hi s. ref_typed (zset_key (ref_view s) k) s
       (Inr (), ref_put_zset k (filter (\<lambda>p. \<not> snd p \<le> hi) (zset_at (ref_view s) k)) s)),
     rZCard = (\<lambda>k s. ref_typed (zset_key (ref_view s) k) s
       (Inr (int (length (zset_at (ref_view s) k))), s)),
     rZRange = (\<lambda>k s. ref_typed (zset_key (ref_view s) k) s
       (Inr (map fst (zset_at (ref_view s) k)), s)),
     rZRangeByScore = (\<lambda>k lo hi s. ref_typed (zset_key (ref_view s) k) s
       (Inr (map fst (filter (\<lambda>p. lo \<le> snd p \<and> snd p \<le> hi) (zset_at (ref_view s) k))), s)),
     rZFirst = (\<lambda>k s. ref_typed (zset_key (ref_view s) k) s
       (Inr (map snd (take 1 (zset_at (ref_view s) k))), s)),
     rPExpire = (\<lambda>k t s. (Inr (), s)),
     rXAdd = (\<lambda>k n x s. ref_typed (stream_key (ref_view s) k) s
       (let xs = stream_at (ref_view s) k; i = stream_id (next_ms xs) 0
        in (Inr i, ref_put k (Some (VStream (xs @ [(i, x)]))) s))),
     rXRange = (\<lambda>k p s. if \<not> valid_range_start p
       then (Inl (Err ''ERR Invalid stream ID specified as stream command argument''), s)
       else ref_typed (stream_key (ref_view s) k) s
         (Inr (filter (\<lambda>e. compareStreamIDs p (fst e) \<le> 0) (stream_at (ref_view s) k)), s)),
     rXFirst = (\<lambda>k s. ref_typed (stream_key (ref_view s) k) s
       (Inr (take 1 (stream_at (ref_view s) k)), s)),
     rXTrimMinID = (\<lambda>k i s. ref_typed (stream_key (ref_view s) k) s
       (Inr (), if map_of (entries s) k = None then s
        else ref_put k (Some (VStream (filter (\<lambda>e. \<not> compareStreamIDs (fst e) i < 0)
          (stream_at (ref_view s) k)))) s)),
     rScan = (\<lambda>p s. ((filter (\<lambda>k. HasPrefix k p) (map fst (entries s)), None), s)),
     rPublish = (\<lambda>c m s. (Inr (), s\<lparr>pubs := pubs s @ [(c, m)]\<rparr>)),
     rPing = (\<lambda>s. (Inr (), s)),
     rEval = (\<lambda>b. b)\<rparr>"

section \<open>It behaves as documented\<close>

lemma map_of_remove: "map_of (filter (\<lambda>p. fst p \<noteq> k) xs) = (map_of xs)(k := None)"
  by (induction xs) auto

lemma ref_view_put [simp]: "ref_view (ref_put k x s) = put k x (ref_view s)"
  by (auto simp: ref_view_def ref_put_def put_def map_of_remove split: option.splits)

lemma ref_view_put_zset [simp]: "ref_view (ref_put_zset k xs s) = put_zset k xs (ref_view s)"
  by (simp add: ref_put_zset_def put_zset_def)

lemma keyspace_ref_view [simp]: "keyspace (ref_view s) = map_of (entries s)"
  by (simp add: ref_view_def)

lemma set_z_insert [simp]: "set (z_insert p xs) = insert p (set xs)"
  by (induction xs) auto

lemma z_insert_not_Nil [simp]: "z_insert p xs \<noteq> []"
  by (cases xs) auto

lemma distinct_z_insert:
  "fst p \<notin> fst ` set xs \<Longrightarrow> distinct (map fst xs) \<Longrightarrow> distinct (map fst (z_insert p xs))"
  by (induction xs) auto

lemma sorted_z_insert: "sorted (map snd xs) \<Longrightarrow> sorted (map snd (z_insert p xs))"
  by (induction xs) (auto simp: image_iff)

lemma map_of_z_insert: "fst p \<notin> fst ` set xs \<Longrightarrow> map_of (z_insert p xs) = (map_of xs)(fst p \<mapsto> snd p)"
  by (induction xs) auto

lemma distinct_map_filter_fst: "distinct (map fst xs) \<Longrightarrow> distinct (map fst (filter P xs))"
  by (induction xs) auto

lemma sorted_map_filter_snd: "sorted (map snd xs) \<Longrightarrow> sorted (map snd (filter P (xs :: ('a \<times> int) list)))"
  by (induction xs) auto

lemma zset_ok_filter: "zset_ok xs \<Longrightarrow> zset_ok (filter P xs)"
  by (simp add: zset_ok_def distinct_map_filter_fst sorted_map_filter_snd)

lemma fold_max_ge:
  "m \<le> fold (\<lambda>e m. max m (f e)) xs m \<and> (\<forall>e \<in> set xs. f e \<le> fold (\<lambda>e m. max m (f e)) xs (m :: int))"
proof (induction xs arbitrary: m)
  case Nil
  then show ?case by simp
next
  case (Cons x xs)
  from Cons.IH [of "max m (f x)"] show ?case by auto
qed

lemma fold_max_less:
  "m < (b :: int) \<Longrightarrow> \<forall>e \<in> set xs. f e < b \<Longrightarrow> fold (\<lambda>e m. max m (f e)) xs m < b"
  by (induction xs arbitrary: m) auto

lemma next_ms_above:
  assumes "list_all (\<lambda>e. fst (splitStreamID (fst e)) < max_int64) xs" and "e \<in> set xs"
  shows "compareStreamIDs (fst e) (stream_id (next_ms xs) 0) < 0"
proof -
  let ?m = "fold (\<lambda>e m. max m (fst (splitStreamID (fst e)))) xs (0 :: int)"
  have ge: "0 \<le> ?m" "fst (splitStreamID (fst e)) \<le> ?m"
    using fold_max_ge [of 0 "\<lambda>e. fst (splitStreamID (fst e))" xs] assms(2) by auto
  have "?m < max_int64"
    using assms(1) by (intro fold_max_less) (auto simp: list_all_iff max_int64_def)
  with ge(1) have "int (next_ms xs) \<le> max_int64" by (simp add: next_ms_def)
  then have "splitStreamID (stream_id (next_ms xs) 0) = (int (next_ms xs), 0)"
    by (simp add: splitStreamID_stream_id max_int64_def)
  with ge show ?thesis by (simp add: compareStreamIDs_neg_iff pos_less_def next_ms_def)
qed

lemma ref_zadd_documented:
  "obeys False ref_view (rZAdd ref_redis k sc m) (doc_ZAdd k sc m)"
proof -
  have "zset_ok (z_insert (m, sc) (filter (\<lambda>p. fst p \<noteq> m) xs))" if "zset_ok xs" for xs
    using that by (auto simp: zset_ok_def intro!: distinct_z_insert sorted_z_insert
        distinct_map_filter_fst sorted_map_filter_snd)
  moreover have "map_of (z_insert (m, sc) (filter (\<lambda>p. fst p \<noteq> m) xs)) = (map_of xs)(m \<mapsto> sc)" for xs
    by (subst map_of_z_insert) (auto simp: map_of_remove)
  ultimately show ?thesis
    by (auto simp: obeys_def ref_redis_def ref_typed_def doc_ZAdd_def typed_def)
qed

lemma ref_xadd_documented:
  "obeys False ref_view (rXAdd ref_redis k n x) (doc_XAdd k n x)"
proof -
  have "\<exists>i m. Inr (stream_id (next_ms xs) 0) = (Inr i :: string result) \<and> streamIDPattern i
      \<and> (\<forall>e \<in> set xs. compareStreamIDs (fst e) i < 0)
      \<and> (0 < m \<longrightarrow> n \<le> int (length xs) + 1 - int m) \<and> m \<le> length xs
      \<and> put k (Some (VStream (xs @ [(stream_id (next_ms xs) 0, x)]))) d
          = put k (Some (VStream (drop m (xs @ [(i, x)])))) d"
    if "list_all (\<lambda>e. fst (splitStreamID (fst e)) < max_int64) xs" for xs d
    using that by (intro exI [of _ "stream_id (next_ms xs) 0"] exI [of _ 0])
      (simp add: streamIDPattern_stream_id next_ms_above)
  then show ?thesis
    by (auto simp: obeys_def ref_redis_def ref_typed_def doc_XAdd_def typed_def Let_def)
qed

lemmas ref_defs = obeys_def ref_redis_def ref_typed_def typed_def doc_defs ref_incr_def key_defs

lemma ref_strings_documented:
  "obeys False ref_view (rGet ref_redis k) (doc_Get k)"
  "obeys False ref_view (rSet ref_redis k x t) (doc_Set k x t)"
  "obeys False ref_view (rSetNX ref_redis k x t) (doc_SetNX k x t)"
  "obeys False ref_view (rDel ref_redis k) (doc_Del k)"
  "obeys False ref_view (rIncr ref_redis k) (doc_IncrBy k 1)"
  "obeys False ref_view (rDecr ref_redis k) (doc_IncrBy k (-1))"
  by (auto simp: ref_defs split: option.splits rval.splits)

lemma removeAll_remdups_Nil: "removeAll x (remdups xs) = [] \<longleftrightarrow> set xs \<subseteq> {x}"
  by (metis Diff_eq_empty_iff set_empty set_remdups set_removeAll)

lemma ref_sets_documented:
  "obeys False ref_view (rSAdd ref_redis k x) (doc_SAdd k x)"
  "obeys False ref_view (rSRem ref_redis k x) (doc_SRem k x)"
  "obeys False ref_view (rSMembers ref_redis k) (doc_SMembers k)"
  by (auto simp: ref_defs Let_def distinct_removeAll removeAll_remdups_Nil split: option.splits rval.splits)

lemma ref_zsets_documented:
  "obeys False ref_view (rZRem ref_redis k m) (doc_ZRem k m)"
  "obeys False ref_view (rZRemRangeByScore ref_redis k hi) (doc_ZRemRangeByScore k hi)"
  "obeys False ref_view (rZCard ref_redis k) (doc_ZCard k)"
  "obeys False ref_view (rZRange ref_redis k) (doc_ZRange k)"
  "obeys False ref_view (rZRangeByScore ref_redis k lo hi) (doc_ZRangeByScore k lo hi)"
  "obeys False ref_view (rZFirst ref_redis k) (doc_ZFirst k)"
  "obeys False ref_view (rPExpire ref_redis k t) (doc_PExpire k t)"
  by (simp_all add: obeys_def ref_redis_def ref_typed_def typed_def doc_defs)

lemma ref_streams_documented:
  "obeys False ref_view (rXRange ref_redis k p) (doc_XRange k p)"
  "obeys False ref_view (rXFirst ref_redis k) (doc_XFirst k)"
  "obeys False ref_view (rXTrimMinID ref_redis k i) (doc_XTrimMinID k i)"
  "obeys False ref_view (rPublish ref_redis c b) (doc_Publish c b)"
  "obeys False ref_view (rPing ref_redis) doc_Ping"
  by (simp_all add: obeys_def ref_redis_def ref_typed_def typed_def doc_defs)
    (simp add: ref_view_def)

lemma ref_scan_documented: "obeys False ref_view (\<lambda>s. scan_result (rScan ref_redis p s)) (doc_Scan p)"
  by (auto simp: obeys_def scan_result_def ref_redis_def doc_Scan_def map_of_eq_None_iff)

lemma ref_redis_documented: "documented False ref_redis ref_view"
  unfolding documented_def
  by (auto simp: ref_strings_documented ref_sets_documented ref_zsets_documented
      ref_streams_documented ref_scan_documented ref_zadd_documented ref_xadd_documented)
    (simp add: eval_obeys_def ref_redis_def)

end
