(* ===== verification/Protocol.thy ===== *)
theory Protocol
  imports Json
begin

text \<open>
  The wire protocol: \<^verbatim>\<open>protocol/protocol.go\<close>. It holds the inbound envelope with its decoder
  and validation, the job data a client submits, the \<^verbatim>\<open>since\<close> cursor of a subscribe frame, and
  one encoder per outbound frame. Times and floating point literals are read by
  \<^verbatim>\<open>time.Parse\<close> and \<^verbatim>\<open>strconv.ParseFloat\<close>, which are arguments here: \<open>timeParse\<close> gives the
  milliseconds of an RFC 3339 timestamp, \<open>floatInt\<close> the value \<^verbatim>\<open>int64(f)\<close> of a number
  literal, each with \<open>None\<close> for an error.
\<close>

section \<open>Constants\<close>

definition Version :: int where "Version = 1"

definition MinVersion :: int where "MinVersion = 1"

definition TypeSubscribe :: string where "TypeSubscribe = ''subscribe''"
definition TypeUnsubscribe :: string where "TypeUnsubscribe = ''unsubscribe''"
definition TypePublish :: string where "TypePublish = ''publish''"
definition TypeLockTopic :: string where "TypeLockTopic = ''lockTopic''"
definition TypeUnlockTopic :: string where "TypeUnlockTopic = ''unlockTopic''"
definition TypeRenewLock :: string where "TypeRenewLock = ''renewLock''"
definition TypeScheduleJob :: string where "TypeScheduleJob = ''scheduleJob''"
definition TypeRemoveJob :: string where "TypeRemoveJob = ''removeJob''"
definition TypeBroadcast :: string where "TypeBroadcast = ''broadcast''"
definition TypePresence :: string where "TypePresence = ''presence''"
definition TypeListSubs :: string where "TypeListSubs = ''listSubscriptions''"
definition TypeAck :: string where "TypeAck = ''ack''"

lemmas Type_defs = TypeSubscribe_def TypeUnsubscribe_def TypePublish_def TypeLockTopic_def
  TypeUnlockTopic_def TypeRenewLock_def TypeScheduleJob_def TypeRemoveJob_def TypeBroadcast_def
  TypePresence_def TypeListSubs_def TypeAck_def

definition SinceAck :: string where "SinceAck = ''ack''"

section \<open>The inbound envelope\<close>

record JobRetryPolicy =
  MaxRetries :: int
  RetryDelay :: int

record JobData =
  jd_JobID :: string
  APIEndpoint :: string
  Method :: string
  Headers :: "(string \<times> string) list"
  Payload :: raw
  RetryPolicy :: "JobRetryPolicy option"
  ExecuteAt :: string
  ValidUntil :: string
  Interval :: int

record Envelope =
  Type :: string
  Topic :: string
  Data :: raw
  JobData_of :: "JobData option"
  JobID :: string
  LockType :: string
  Since :: raw
  ReqID :: string
  Report :: bool
  StreamID :: string
  Version_of :: "int option"

text \<open>\<^verbatim>\<open>json.Unmarshal\<close> into the nested structs; a header map is a list in the order of its keys.\<close>

fun dec_headers :: "(string \<times> json) list \<Rightarrow> (string \<times> string) list option" where
  "dec_headers [] = Some []"
| "dec_headers ((k, j) # kvs) =
     (case dec_string [j] [] of
        None \<Rightarrow> None
      | Some s \<Rightarrow> (case dec_headers kvs of
            None \<Rightarrow> None
          | Some hs \<Rightarrow> Some (if k \<in> fst ` set hs then hs else (k, s) # hs)))"

fun dec_header_map :: "json list \<Rightarrow> (string \<times> string) list \<Rightarrow> (string \<times> string) list option" where
  "dec_header_map [] acc = Some acc"
| "dec_header_map (j # js) acc =
     (case j of
        JObj kvs \<Rightarrow> (case dec_headers kvs of
            None \<Rightarrow> None
          | Some hs \<Rightarrow> dec_header_map js (filter (\<lambda>p. fst p \<notin> fst ` set hs) acc @ hs))
      | JNull \<Rightarrow> dec_header_map js []
      | _ \<Rightarrow> None)"

fun dec_retry :: "json list \<Rightarrow> JobRetryPolicy option \<Rightarrow> JobRetryPolicy option option" where
  "dec_retry [] acc = Some acc"
| "dec_retry (j # js) acc =
     (case j of
        JObj kvs \<Rightarrow>
          (let old = (case acc of None \<Rightarrow> \<lparr>MaxRetries = 0, RetryDelay = 0\<rparr> | Some p \<Rightarrow> p) in
           case (dec_int (matching ''maxRetries'' kvs) (MaxRetries old),
                 dec_int (matching ''retryDelay'' kvs) (RetryDelay old)) of
             (Some m, Some d) \<Rightarrow> dec_retry js (Some \<lparr>MaxRetries = m, RetryDelay = d\<rparr>)
           | _ \<Rightarrow> None)
      | JNull \<Rightarrow> dec_retry js None
      | _ \<Rightarrow> None)"

definition zero_JobData :: JobData where
  "zero_JobData = \<lparr>jd_JobID = [], APIEndpoint = [], Method = [], Headers = [], Payload = None,
     RetryPolicy = None, ExecuteAt = [], ValidUntil = [], Interval = 0\<rparr>"

definition dec_job_fields :: "(string \<times> json) list \<Rightarrow> JobData \<Rightarrow> JobData option" where
  "dec_job_fields kvs old =
     (case (dec_string (matching ''jobId'' kvs) (jd_JobID old),
            dec_string (matching ''apiEndpoint'' kvs) (APIEndpoint old),
            dec_string (matching ''method'' kvs) (Method old),
            dec_header_map (matching ''headers'' kvs) (Headers old),
            dec_retry (matching ''retryPolicy'' kvs) (RetryPolicy old),
            dec_string (matching ''executeAt'' kvs) (ExecuteAt old),
            dec_string (matching ''validUntil'' kvs) (ValidUntil old),
            dec_int (matching ''interval'' kvs) (Interval old)) of
        (Some i, Some ep, Some me, Some hs, Some rp, Some ex, Some vu, Some iv) \<Rightarrow>
          Some \<lparr>jd_JobID = i, APIEndpoint = ep, Method = me, Headers = hs,
            Payload = (if matching ''payload'' kvs = [] then Payload old else dec_raw (matching ''payload'' kvs)),
            RetryPolicy = rp, ExecuteAt = ex, ValidUntil = vu, Interval = iv\<rparr>
      | _ \<Rightarrow> None)"

text \<open>The pointer field \<^verbatim>\<open>jobData\<close>: an object is decoded into the struct it points to, \<^verbatim>\<open>null\<close> makes it nil.\<close>

fun dec_job_ptr :: "json list \<Rightarrow> JobData option \<Rightarrow> JobData option option" where
  "dec_job_ptr [] acc = Some acc"
| "dec_job_ptr (j # js) acc =
     (case j of
        JObj kvs \<Rightarrow>
          (case dec_job_fields kvs (case acc of None \<Rightarrow> zero_JobData | Some old \<Rightarrow> old) of
             None \<Rightarrow> None
           | Some jd \<Rightarrow> dec_job_ptr js (Some jd))
      | JNull \<Rightarrow> dec_job_ptr js None
      | _ \<Rightarrow> None)"

definition unmarshal_Envelope :: "blob \<Rightarrow> Envelope option" where
  "unmarshal_Envelope b =
     (case object_fields b of
        None \<Rightarrow> None
      | Some kvs \<Rightarrow>
         (case (dec_string (matching ''type'' kvs) [], dec_string (matching ''topic'' kvs) [],
                dec_job_ptr (matching ''jobData'' kvs) None, dec_string (matching ''jobId'' kvs) [],
                dec_string (matching ''lockType'' kvs) [], dec_string (matching ''reqID'' kvs) [],
                dec_bool (matching ''report'' kvs) False, dec_string (matching ''streamId'' kvs) [],
                dec_int_ptr (matching ''version'' kvs) None) of
            (Some ty, Some tp, Some jd, Some ji, Some lt, Some rq, Some rep, Some sid, Some ver) \<Rightarrow>
              Some \<lparr>Type = ty, Topic = tp, Data = dec_raw (matching ''data'' kvs), JobData_of = jd,
                JobID = ji, LockType = lt, Since = dec_raw (matching ''since'' kvs), ReqID = rq,
                Report = rep, StreamID = sid, Version_of = ver\<rparr>
          | _ \<Rightarrow> None))"

section \<open>Validation\<close>

type_synonym time_parse = "string \<Rightarrow> int option"

definition ParseExecuteAt :: "time_parse \<Rightarrow> string \<Rightarrow> int result" where
  "ParseExecuteAt timeParse s =
     (if s = [] then Inl (Err ''missing executeAt'')
      else case timeParse s of None \<Rightarrow> Inl (Err ''parsing time'') | Some t \<Rightarrow> Inr t)"

definition ParseValidUntil :: "time_parse \<Rightarrow> string \<Rightarrow> (int \<times> bool) result" where
  "ParseValidUntil timeParse s =
     (if s = [] then Inr (0, False)
      else case timeParse s of None \<Rightarrow> Inl (Err ''parsing time'') | Some t \<Rightarrow> Inr (t, True))"

definition ValidateVersion :: "Envelope \<Rightarrow> unit result" where
  "ValidateVersion env =
     (case Version_of env of
        None \<Rightarrow> Inr ()
      | Some n \<Rightarrow>
          if n < MinVersion \<or> n > Version then
            Inl (Err (''Unsupported protocol version '' @ FormatInt n @ ''. This server supports ''
              @ FormatInt MinVersion @ '' to '' @ FormatInt Version @ ''.''))
          else Inr ())"

definition since_error :: goerr where
  "since_error = Err ''subscribe.since must be an ISO timestamp, stream ID, or numeric ms.''"

definition validateSince :: "(string \<Rightarrow> int option) \<Rightarrow> raw \<Rightarrow> unit result" where
  "validateSince floatInt r =
     (case r of
        None \<Rightarrow> Inr ()
      | Some (JStr s) \<Rightarrow> (if s = [] then Inl since_error else Inr ())
      | Some (JNum lit) \<Rightarrow> (if floatInt lit = None then Inl since_error else Inr ())
      | Some _ \<Rightarrow> Inl since_error)"

definition validateJobData :: "time_parse \<Rightarrow> JobData \<Rightarrow> unit result" where
  "validateJobData timeParse j =
     (if jd_JobID j = [] then Inl (Err ''jobId is required'')
      else if APIEndpoint j = [] then Inl (Err ''apiEndpoint is required'')
      else if Method j \<notin> {''GET'', ''POST'', ''PUT'', ''DELETE''} then
        Inl (Err (''invalid method '' @ Quote (Method j)))
      else if ExecuteAt j = [] then Inl (Err ''executeAt is required'')
      else case ParseExecuteAt timeParse (ExecuteAt j) of
          Inl e \<Rightarrow> Inl (Wrap ''executeAt: '' e [])
        | Inr _ \<Rightarrow>
            (case (if ValidUntil j \<noteq> [] then ParseValidUntil timeParse (ValidUntil j) else Inr (0, False)) of
               Inl e \<Rightarrow> Inl (Wrap ''validUntil: '' e [])
             | Inr _ \<Rightarrow>
                 (case RetryPolicy j of
                    None \<Rightarrow> Inr ()
                  | Some p \<Rightarrow>
                      if MaxRetries p < 0 \<or> RetryDelay p < 0
                      then Inl (Err ''retryPolicy fields must be non-negative'')
                      else Inr ())))"

definition must_contain :: "string \<Rightarrow> string \<Rightarrow> unit result" where
  "must_contain ty what = Inl (Err (''Message of type '' @ Quote ty @ '' must contain '' @ what))"

definition Validate :: "time_parse \<Rightarrow> (string \<Rightarrow> int option) \<Rightarrow> Envelope \<Rightarrow> unit result" where
  "Validate timeParse floatInt env =
     (let ty = Type env in
      if ty = [] then Inl (Err ''Message must have a type.'')
      else case ValidateVersion env of
        Inl e \<Rightarrow> Inl e
      | Inr _ \<Rightarrow>
          if ty = TypeLockTopic \<or> ty = TypeUnlockTopic \<or> ty = TypeRenewLock then
            (if Topic env = [] \<or> (LockType env \<noteq> ''publish'' \<and> LockType env \<noteq> ''subscribe'')
             then must_contain ty ''topic and a valid lockType.'' else Inr ())
          else if ty = TypePresence then
            (if Topic env = [] then must_contain ty ''topic.'' else Inr ())
          else if ty = TypeAck then
            (if Topic env = [] \<or> StreamID env = [] then must_contain ty ''topic and streamId.'' else Inr ())
          else if ty = TypeListSubs then Inr ()
          else if ty = TypeSubscribe \<or> ty = TypeUnsubscribe then
            (if Topic env = [] then must_contain ty ''topic.''
             else if ty = TypeSubscribe \<and> Since env \<noteq> None then validateSince floatInt (Since env)
             else Inr ())
          else if ty = TypePublish then
            (if Topic env = [] \<or> Data env = None then must_contain ty ''both topic and data.'' else Inr ())
          else if ty = TypeScheduleJob then
            (case JobData_of env of
               None \<Rightarrow> must_contain ty ''valid jobData.''
             | Some j \<Rightarrow> (case validateJobData timeParse j of
                   Inl e \<Rightarrow> Inl (Wrap (''Message of type '' @ Quote ty @ '' must contain valid jobData: '') e [])
                 | Inr _ \<Rightarrow> Inr ()))
          else if ty = TypeRemoveJob then
            (if JobID env = [] then must_contain ty ''jobId to remove'' else Inr ())
          else if ty = TypeBroadcast then
            (if Data env = None then Inl (Err ''Messages must contain data field.'') else Inr ())
          else Inl (Err ''Unsupported message type.''))"

text \<open>
  \<^verbatim>\<open>SinceToString\<close>: an integer literal keeps its value; \<^verbatim>\<open>null\<close> reads as 0; another number
  goes through \<^verbatim>\<open>float64\<close>.
\<close>

definition SinceToString :: "(string \<Rightarrow> int option) \<Rightarrow> raw \<Rightarrow> string result" where
  "SinceToString floatInt r =
     (case r of
        None \<Rightarrow> Inr []
      | Some (JStr s) \<Rightarrow> Inr s
      | Some JNull \<Rightarrow> Inr (FormatInt 0)
      | Some (JNum lit) \<Rightarrow>
          (case ParseInt lit of
             (n, None) \<Rightarrow> Inr (FormatInt n)
           | (n, Some e) \<Rightarrow>
               (case floatInt lit of
                  None \<Rightarrow> Inl (Err ''json: cannot unmarshal number into Go value of type int64'')
                | Some f \<Rightarrow> Inr (FormatInt f)))
      | Some _ \<Rightarrow> Inl (Err ''json: cannot unmarshal into Go value of type int64''))"

section \<open>Outbound frames\<close>

definition EncodeSuccess :: "string \<Rightarrow> string \<Rightarrow> json" where
  "EncodeSuccess reqID msg =
     JObj ([(''type'', JStr ''success'')] @ field_unless (reqID = []) ''reqID'' (JStr reqID)
       @ [(''message'', JStr msg)])"

definition EncodeError :: "string \<Rightarrow> string \<Rightarrow> json" where
  "EncodeError reqID msg =
     JObj ([(''type'', JStr ''error'')] @ field_unless (reqID = []) ''reqID'' (JStr reqID)
       @ [(''message'', JStr msg)])"

definition EncodePublish :: "string \<Rightarrow> raw \<Rightarrow> string \<Rightarrow> bool \<Rightarrow> json" where
  "EncodePublish topic d sid replayed =
     JObj ([(''type'', JStr ''publish''), (''topic'', JStr topic), (''data'', marshal_raw d)]
       @ field_unless (sid = []) ''streamId'' (JStr sid)
       @ field_unless (\<not> replayed) ''replay'' (JBool True))"

definition EncodeReplayTruncated :: "string \<Rightarrow> string \<Rightarrow> json" where
  "EncodeReplayTruncated topic oldest =
     JObj [(''type'', JStr ''replayTruncated''), (''topic'', JStr topic), (''oldestAvailable'', JStr oldest)]"

definition EncodePresence :: "string \<Rightarrow> string \<Rightarrow> string list \<Rightarrow> json" where
  "EncodePresence reqID topic subs =
     JObj ([(''type'', JStr ''presence'')] @ field_unless (reqID = []) ''reqID'' (JStr reqID)
       @ [(''topic'', JStr topic), (''subscribers'', json_strings (Some subs)),
          (''count'', json_int (int (length subs)))])"

definition EncodeSubscriptions :: "string \<Rightarrow> string list \<Rightarrow> json" where
  "EncodeSubscriptions reqID topics =
     JObj ([(''type'', JStr ''subscriptions'')] @ field_unless (reqID = []) ''reqID'' (JStr reqID)
       @ [(''topics'', json_strings (Some topics))])"

definition EncodeDeliveryReport :: "string \<Rightarrow> string \<Rightarrow> string \<Rightarrow> int \<Rightarrow> int \<Rightarrow> int \<Rightarrow> json" where
  "EncodeDeliveryReport topic sid inst delivered dropped filtered =
     JObj [(''type'', JStr ''deliveryReport''), (''topic'', JStr topic), (''streamId'', JStr sid),
       (''instance'', JStr inst), (''delivered'', json_int delivered), (''dropped'', json_int dropped),
       (''filtered'', json_int filtered)]"

definition EncodeBroadcast :: "raw \<Rightarrow> json" where
  "EncodeBroadcast d = JObj [(''type'', JStr ''message''), (''data'', marshal_raw d)]"

end
