(* ===== verification/Interleave.thy ===== *)
theory Interleave
  imports Systems
begin

text \<open>
  Operations that issue several commands, interrupted between them. A \<open>prog\<close> is what remains to be done
  of a call: it has returned, or its next command changes the shared state and the answer
  decides how to go on. A call can run \<open>alone\<close>, \<open>within\<close> an environment that acts before, between and
  after its commands, or in a pool of calls whose commands are interleaved in any order. The locales
  carry the laws of single calls to runs within an environment and to pools.
\<close>

section \<open>Programs\<close>

datatype ('s, 'a) prog = Ret 'a | Cmd "'s \<Rightarrow> 's" "'s \<Rightarrow> ('s, 'a) prog"

text \<open>One command of the shared server, and what follows its answer.\<close>

definition ask :: "('s \<Rightarrow> 'r \<times> 's) \<Rightarrow> ('r \<Rightarrow> ('s, 'a) prog) \<Rightarrow> ('s, 'a) prog" where
  "ask c k = Cmd (\<lambda>s. snd (c s)) (\<lambda>s. k (fst (c s)))"

primrec alone :: "('s, 'a) prog \<Rightarrow> 's \<Rightarrow> 'a \<times> 's" where
  "alone (Ret a) = (\<lambda>s. (a, s))"
| "alone (Cmd f k) = (\<lambda>s. alone (k s) (f s))"

lemma alone_ask [simp]: "alone (ask c k) s = (case c s of (r, s1) \<Rightarrow> alone (k r) s1)"
  by (simp add: ask_def split_beta)

section \<open>A call within an environment\<close>

inductive within :: "('s \<Rightarrow> 's \<Rightarrow> bool) \<Rightarrow> ('s, 'a) prog \<Rightarrow> 's \<Rightarrow> 'a \<Rightarrow> 's \<Rightarrow> bool" for E where
  w_env: "E s s1 \<Longrightarrow> within E q s1 a s' \<Longrightarrow> within E q s a s'"
| w_ret: "within E (Ret a) s a s"
| w_cmd: "within E (k s) (f s) a s' \<Longrightarrow> within E (Cmd f k) s a s'"

lemma within_alone: "within E q s (fst (alone q s)) (snd (alone q s))"
  by (induction q arbitrary: s) (auto intro: within.intros)

lemma within_Ret:
  assumes "within E (Ret a) s r s'"
  shows "r = a \<and> E\<^sup>*\<^sup>* s s'"
  using assms by (induction "Ret a :: ('a, 'b) prog" s r s' rule: within.induct) (auto intro: converse_rtranclp_into_rtranclp)

lemma within_Cmd:
  assumes "within E (Cmd f k) s r s'"
  shows "\<exists>s1. E\<^sup>*\<^sup>* s s1 \<and> within E (k s1) (f s1) r s'"
  using assms
  by (induction "Cmd f k :: ('a, 'b) prog" s r s' rule: within.induct) (blast intro: converse_rtranclp_into_rtranclp)+

lemma within_ask:
  assumes "within E (ask c k) s r s'"
  obtains s1 a s2 where "E\<^sup>*\<^sup>* s s1" "c s1 = (a, s2)" "within E (k a) s2 r s'"
  using within_Cmd [OF assms [unfolded ask_def]] by (metis prod.collapse)

text \<open>An environment that is seen only through what it keeps needs no closure.\<close>

lemma steps_of_preorder: "reflp E \<Longrightarrow> transp E \<Longrightarrow> E\<^sup>*\<^sup>* = E"
  by (intro ext iffI, erule rtranclp_induct) (auto dest: reflpD transpD)

text \<open>Calls one after the other, each within the environment.\<close>

inductive calls_within :: "('s \<Rightarrow> 's \<Rightarrow> bool) \<Rightarrow> ('op \<Rightarrow> ('s, 'a) prog) \<Rightarrow> 'op list \<Rightarrow> 's \<Rightarrow> 'a list \<Rightarrow> 's \<Rightarrow> bool"
  for E f where
  calls_Nil: "E\<^sup>*\<^sup>* s s' \<Longrightarrow> calls_within E f [] s [] s'"
| calls_Cons: "within E (f x) s r s1 \<Longrightarrow> calls_within E f xs s1 rs s' \<Longrightarrow> calls_within E f (x # xs) s (r # rs) s'"

inductive_cases calls_NilE: "calls_within E f [] s rs s'"
inductive_cases calls_ConsE: "calls_within E f (x # xs) s rs s'"

text \<open>Calls that nobody interrupts are such a run.\<close>

lemma calls_alone: "calls_within E f xs s (fst (run_ops (\<lambda>x. alone (f x)) xs s)) (snd (run_ops (\<lambda>x. alone (f x)) xs s))"
  by (induction xs arbitrary: s) (auto simp: Let_def split_beta intro: calls_within.intros within_alone)

locale interrupted_simulation =
  fixes wf :: "'w \<Rightarrow> bool"
    and rel :: "'w \<Rightarrow> 'c \<Rightarrow> 'a \<Rightarrow> bool"
    and env :: "'w \<Rightarrow> 'c \<Rightarrow> 'c \<Rightarrow> bool"
    and impl :: "'w \<Rightarrow> 'op \<Rightarrow> ('c, 'o) prog"
    and spec :: "'w \<Rightarrow> 'op \<Rightarrow> 'a \<Rightarrow> ('o \<times> 'a) option"
  assumes env_rel: "wf w \<Longrightarrow> env w c c' \<Longrightarrow> rel w c a \<Longrightarrow> rel w c' a"
    and call_rel: "wf w \<Longrightarrow> rel w c a \<Longrightarrow> spec w x a = Some (r, a') \<Longrightarrow> within (env w) (impl w x) c r' c' \<Longrightarrow>
      r' = r \<and> rel w c' a'"
begin

lemma envs_rel:
  assumes "wf w" and "(env w)\<^sup>*\<^sup>* c c'" and "rel w c a"
  shows "rel w c' a"
  using assms(2,3) by (induction rule: rtranclp_induct) (auto intro: env_rel [OF assms(1)])

lemma calls_rel:
  assumes "wf w"
  shows "rel w c a \<Longrightarrow> run_spec (spec w) xs a = Some (rs, a') \<Longrightarrow> calls_within (env w) (impl w) xs c rs' c' \<Longrightarrow>
    rs' = rs \<and> rel w c' a'"
proof (induction xs arbitrary: c a rs rs')
  case Nil
  then show ?case by (auto elim: calls_NilE intro: envs_rel [OF assms])
next
  case (Cons x xs)
  from Cons.prems(2) obtain r a1 rs1 where sp: "spec w x a = Some (r, a1)" "run_spec (spec w) xs a1 = Some (rs1, a')"
    "rs = r # rs1" by (auto split: option.splits)
  from Cons.prems(3) obtain r' c1 rs1' where cs: "within (env w) (impl w x) c r' c1"
    "calls_within (env w) (impl w) xs c1 rs1' c'" "rs' = r' # rs1'" by (auto elim: calls_ConsE)
  from call_rel [OF assms Cons.prems(1) sp(1) cs(1)] Cons.IH [OF _ sp(2) cs(2)] sp(3) cs(3) show ?case by simp
qed

end

section \<open>Pools of calls\<close>

text \<open>
  Calls are started at any time, the next command of any unfinished call is executed, and the
  environment acts.
\<close>

inductive pool_step ::
  "('s \<Rightarrow> 's \<Rightarrow> bool) \<Rightarrow> ('op \<Rightarrow> ('s, 'a) prog) \<Rightarrow> ('op \<Rightarrow> bool)
    \<Rightarrow> ('op \<times> ('s, 'a) prog) list \<times> 's \<Rightarrow> ('op \<times> ('s, 'a) prog) list \<times> 's \<Rightarrow> bool" for E f ok where
  pool_start: "ok x \<Longrightarrow> pool_step E f ok (ps, s) (ps @ [(x, f x)], s)"
| pool_cmd: "i < length ps \<Longrightarrow> ps ! i = (x, Cmd g k) \<Longrightarrow> pool_step E f ok (ps, s) (ps[i := (x, k s)], g s)"
| pool_env: "E s s' \<Longrightarrow> pool_step E f ok (ps, s) (ps, s')"

text \<open>Every command of the call keeps \<open>I\<close>, and what it returns satisfies \<open>P\<close>.\<close>

primrec keeps :: "('s \<Rightarrow> bool) \<Rightarrow> ('a \<Rightarrow> bool) \<Rightarrow> ('s, 'a) prog \<Rightarrow> bool" where
  "keeps I P (Ret a) = P a"
| "keeps I P (Cmd f k) = (\<forall>s. I s \<longrightarrow> I (f s) \<and> keeps I P (k s))"

lemma keeps_ask: "keeps I P (ask c k) \<longleftrightarrow> (\<forall>s. I s \<longrightarrow> I (snd (c s)) \<and> keeps I P (k (fst (c s))))"
  by (simp add: ask_def)

lemma keeps_askI:
  assumes "\<And>s r s'. c s = (r, s') \<Longrightarrow> I s \<Longrightarrow> I s' \<and> keeps I P (k r)"
  shows "keeps I P (ask c k)"
  unfolding keeps_ask using assms by (metis prod.collapse)

lemma keeps_mono: "keeps I P q \<Longrightarrow> (\<And>a. P a \<Longrightarrow> Q a) \<Longrightarrow> keeps I Q q"
  by (induction q) auto

text \<open>Every command of the call, whenever it is executed, is a step of \<open>E\<close>.\<close>

primrec guarantees :: "('s \<Rightarrow> 's \<Rightarrow> bool) \<Rightarrow> ('s, 'a) prog \<Rightarrow> bool" where
  "guarantees E (Ret a) = True"
| "guarantees E (Cmd f k) = (\<forall>s. E s (f s) \<and> guarantees E (k s))"

lemma guarantees_ask: "guarantees E (ask c k) \<longleftrightarrow> (\<forall>s. E s (snd (c s)) \<and> guarantees E (k (fst (c s))))"
  by (simp add: ask_def)

locale guarded_pool =
  fixes wf :: "'w \<Rightarrow> bool"
    and inv :: "'w \<Rightarrow> 's \<Rightarrow> bool"
    and env :: "'w \<Rightarrow> 's \<Rightarrow> 's \<Rightarrow> bool"
    and call :: "'w \<Rightarrow> 'op \<Rightarrow> ('s, 'a) prog"
    and allowed :: "'w \<Rightarrow> 'op \<Rightarrow> bool"
    and answer :: "'w \<Rightarrow> 'op \<Rightarrow> 'a \<Rightarrow> bool"
  assumes env_inv: "wf w \<Longrightarrow> env w s s' \<Longrightarrow> inv w s \<Longrightarrow> inv w s'"
    and call_keeps: "wf w \<Longrightarrow> allowed w x \<Longrightarrow> keeps (inv w) (answer w x) (call w x)"
begin

lemma pool_step_inv:
  assumes "wf w" and "pool_step (env w) (call w) (allowed w) (ps, s) (ps', s')"
    and "inv w s" and "\<forall>(x, q) \<in> set ps. keeps (inv w) (answer w x) q"
  shows "inv w s' \<and> (\<forall>(x, q) \<in> set ps'. keeps (inv w) (answer w x) q)"
  using assms(2)
proof (cases rule: pool_step.cases)
  case (pool_start x)
  with assms call_keeps show ?thesis by auto
next
  case (pool_cmd i x g k)
  then have "keeps (inv w) (answer w x) (Cmd g k)" using assms(4) nth_mem by fastforce
  with pool_cmd assms(3,4) show ?thesis by (auto dest!: subsetD [OF set_update_subset_insert])
next
  case pool_env
  with assms env_inv show ?thesis by auto
qed

lemma pool_inv:
  assumes "wf w" and "(pool_step (env w) (call w) (allowed w))\<^sup>*\<^sup>* ([], s) (ps, s')" and "inv w s"
  shows "inv w s' \<and> (\<forall>x a. (x, Ret a) \<in> set ps \<longrightarrow> answer w x a)"
proof -
  have "inv w s' \<and> (\<forall>(x, q) \<in> set ps. keeps (inv w) (answer w x) q)"
    using assms(2)
  proof (induction "(ps, s')" arbitrary: ps s' rule: rtranclp_induct)
    case base
    with assms(3) show ?case by simp
  next
    case (step y)
    obtain ps1 s1 where y: "y = (ps1, s1)" by (cases y)
    from step.hyps(3) [OF y] pool_step_inv [OF assms(1) step.hyps(2) [unfolded y]] show ?case by simp
  qed
  then show ?thesis by fastforce
qed

end

end
