(* ===== verification/SchedStore.thy ===== *)
theory SchedStore
  imports RedisRef Protocol Interleave
begin

text \<open>
  The store of scheduled jobs: \<^verbatim>\<open>internal/redisx/scheduler_store.go\<close>. Pending jobs are the members
  of one sorted set, scored with the time they are due; a claim is a key with a time to live.
  Times are in milliseconds, and a score is the integer the sources convert to \<^verbatim>\<open>float64\<close>,
  which is exact below \<open>2\<^sup>53\<close>.
\<close>

section \<open>Operations\<close>

definition SchedulerSetKey :: string where "SchedulerSetKey = ''jobScheduler''"

definition claimKeyPrefix :: string where "claimKeyPrefix = ''job:claim:''"

record StoredJob =
  sj_JobID :: string
  sj_JobData :: "JobData option"

definition marshal_retry :: "JobRetryPolicy \<Rightarrow> json" where
  "marshal_retry p = JObj [(''maxRetries'', json_int (MaxRetries p)), (''retryDelay'', json_int (RetryDelay p))]"

definition job_fields :: "JobData \<Rightarrow> (string \<times> json) list" where
  "job_fields j =
     [(''jobId'', JStr (jd_JobID j)), (''apiEndpoint'', JStr (APIEndpoint j)), (''method'', JStr (Method j))]
      @ field_unless (Headers j = []) ''headers'' (JObj (map (\<lambda>(k, x). (k, JStr x)) (Headers j)))
      @ field_unless (Payload j = None) ''payload'' (marshal_raw (Payload j))
      @ (case RetryPolicy j of None \<Rightarrow> [] | Some p \<Rightarrow> [(''retryPolicy'', marshal_retry p)])
      @ [(''executeAt'', JStr (ExecuteAt j))]
      @ field_unless (ValidUntil j = []) ''validUntil'' (JStr (ValidUntil j))
      @ field_unless (Interval j = 0) ''interval'' (json_int (Interval j))"

definition marshal_JobData :: "JobData \<Rightarrow> json" where
  "marshal_JobData j = JObj (job_fields j)"

definition marshal_StoredJob :: "StoredJob \<Rightarrow> blob" where
  "marshal_StoredJob s = Json (JObj
     [(''jobId'', JStr (sj_JobID s)),
      (''jobData'', case sj_JobData s of None \<Rightarrow> JNull | Some j \<Rightarrow> marshal_JobData j)])"

definition unmarshal_StoredJob :: "blob \<Rightarrow> StoredJob option" where
  "unmarshal_StoredJob b =
     (case object_fields b of
        None \<Rightarrow> None
      | Some kvs \<Rightarrow>
          (case (dec_string (matching ''jobId'' kvs) [], dec_job_ptr (matching ''jobData'' kvs) None) of
             (Some i, Some jd) \<Rightarrow> Some \<lparr>sj_JobID = i, sj_JobData = jd\<rparr>
           | _ \<Rightarrow> None))"

text \<open>The loops over the members: an entry that does not decode is passed over.\<close>

fun has_job :: "string \<Rightarrow> blob list \<Rightarrow> bool" where
  "has_job jobID [] = False"
| "has_job jobID (m # ms) =
     (case unmarshal_StoredJob m of
        None \<Rightarrow> has_job jobID ms
      | Some s \<Rightarrow> if sj_JobID s = jobID then True else has_job jobID ms)"

definition jobExists :: "'s redis \<Rightarrow> string \<Rightarrow> ('s, bool) cmd" where
  "jobExists R jobID s =
     (case rZRange R SchedulerSetKey s of
        (Inl e, s1) \<Rightarrow> (Inl (Wrap ''zrange scheduler: '' e []), s1)
      | (Inr members, s1) \<Rightarrow> (Inr (has_job jobID members), s1))"

text \<open>\<open>mid\<close> is what other clients do between the check and the write.\<close>

definition AddJob_between :: "('s \<Rightarrow> 's) \<Rightarrow> time_parse \<Rightarrow> 's redis \<Rightarrow> JobData option \<Rightarrow> ('s, unit) cmd" where
  "AddJob_between mid timeParse R jd s =
     (case jd of
        None \<Rightarrow> (Inl (Err ''job must have a jobId''), s)
      | Some j \<Rightarrow>
          if jd_JobID j = [] then (Inl (Err ''job must have a jobId''), s)
          else case ParseExecuteAt timeParse (ExecuteAt j) of
              Inl e \<Rightarrow> (Inl (Wrap ''executeAt: '' e []), s)
            | Inr executeAt \<Rightarrow>
                (case jobExists R (jd_JobID j) s of
                   (Inl e, s1) \<Rightarrow> (Inl e, s1)
                 | (Inr exists, s1) \<Rightarrow>
                     if exists then
                       (Inl (Err (''Job with ID '' @ jd_JobID j @ '' already exists in the scheduler.'')), s1)
                     else rZAdd R SchedulerSetKey executeAt
                            (marshal_StoredJob \<lparr>sj_JobID = jd_JobID j, sj_JobData = Some j\<rparr>) (mid s1)))"

definition AddJob :: "time_parse \<Rightarrow> 's redis \<Rightarrow> JobData option \<Rightarrow> ('s, unit) cmd" where
  "AddJob = AddJob_between (\<lambda>s. s)"

fun remove_first :: "'s redis \<Rightarrow> string \<Rightarrow> blob list \<Rightarrow> ('s, unit) cmd" where
  "remove_first R jobID [] s = (Inl (Err (''Job with ID '' @ jobID @ '' does not exist in the scheduler.'')), s)"
| "remove_first R jobID (m # ms) s =
     (case unmarshal_StoredJob m of
        None \<Rightarrow> remove_first R jobID ms s
      | Some sj \<Rightarrow>
          if sj_JobID sj = jobID then
            (case rZRem R SchedulerSetKey m s of
               (Inl e, s1) \<Rightarrow> (Inl (Wrap ''zrem job: '' e []), s1)
             | (Inr _, s1) \<Rightarrow> (Inr (), s1))
          else remove_first R jobID ms s)"

definition RemoveJob :: "'s redis \<Rightarrow> string \<Rightarrow> ('s, unit) cmd" where
  "RemoveJob R jobID s =
     (case rZRange R SchedulerSetKey s of
        (Inl e, s1) \<Rightarrow> (Inl (Wrap ''zrange scheduler: '' e []), s1)
      | (Inr members, s1) \<Rightarrow> remove_first R jobID members s1)"

text \<open>The same two operations as the sequences of their commands, for runs that others interrupt.\<close>

definition AddJob_cmds :: "time_parse \<Rightarrow> 's redis \<Rightarrow> JobData option \<Rightarrow> ('s, unit result) prog" where
  "AddJob_cmds timeParse R jd =
     (case jd of
        None \<Rightarrow> Ret (Inl (Err ''job must have a jobId''))
      | Some j \<Rightarrow>
          if jd_JobID j = [] then Ret (Inl (Err ''job must have a jobId''))
          else case ParseExecuteAt timeParse (ExecuteAt j) of
              Inl e \<Rightarrow> Ret (Inl (Wrap ''executeAt: '' e []))
            | Inr executeAt \<Rightarrow>
                ask (rZRange R SchedulerSetKey) (\<lambda>r. case r of
                   Inl e \<Rightarrow> Ret (Inl (Wrap ''zrange scheduler: '' e []))
                 | Inr members \<Rightarrow>
                     if has_job (jd_JobID j) members then
                       Ret (Inl (Err (''Job with ID '' @ jd_JobID j @ '' already exists in the scheduler.'')))
                     else ask (rZAdd R SchedulerSetKey executeAt
                            (marshal_StoredJob \<lparr>sj_JobID = jd_JobID j, sj_JobData = Some j\<rparr>)) Ret))"

fun remove_first_cmds :: "'s redis \<Rightarrow> string \<Rightarrow> blob list \<Rightarrow> ('s, unit result) prog" where
  "remove_first_cmds R jobID [] = Ret (Inl (Err (''Job with ID '' @ jobID @ '' does not exist in the scheduler.'')))"
| "remove_first_cmds R jobID (m # ms) =
     (case unmarshal_StoredJob m of
        None \<Rightarrow> remove_first_cmds R jobID ms
      | Some sj \<Rightarrow>
          if sj_JobID sj = jobID then
            ask (rZRem R SchedulerSetKey m) (\<lambda>r. case r of
               Inl e \<Rightarrow> Ret (Inl (Wrap ''zrem job: '' e []))
             | Inr _ \<Rightarrow> Ret (Inr ()))
          else remove_first_cmds R jobID ms)"

definition RemoveJob_cmds :: "'s redis \<Rightarrow> string \<Rightarrow> ('s, unit result) prog" where
  "RemoveJob_cmds R jobID =
     ask (rZRange R SchedulerSetKey) (\<lambda>r. case r of
        Inl e \<Rightarrow> Ret (Inl (Wrap ''zrange scheduler: '' e []))
      | Inr members \<Rightarrow> remove_first_cmds R jobID members)"

lemma job_cmds_alone:
  "alone (AddJob_cmds tp R jd) = AddJob tp R jd" "alone (RemoveJob_cmds R i) = RemoveJob R i"
proof -
  have "alone (remove_first_cmds R i ms) s = remove_first R i ms s" for ms s
    by (induction ms) (auto split: option.splits prod.splits sum.splits)
  then show "alone (RemoveJob_cmds R i) = RemoveJob R i"
    by (auto simp: fun_eq_iff RemoveJob_cmds_def RemoveJob_def split: prod.splits sum.splits)
  show "alone (AddJob_cmds tp R jd) = AddJob tp R jd"
    by (auto simp: fun_eq_iff AddJob_cmds_def AddJob_def AddJob_between_def jobExists_def
        split: option.splits prod.splits sum.splits)
qed

record DueJobsResult =
  RawMember :: blob
  due_Job :: StoredJob

fun parse_due :: "blob list \<Rightarrow> DueJobsResult list" where
  "parse_due [] = []"
| "parse_due (m # ms) =
     (case unmarshal_StoredJob m of
        None \<Rightarrow> parse_due ms
      | Some sj \<Rightarrow> \<lparr>RawMember = m, due_Job = sj\<rparr> # parse_due ms)"

definition ListDueJobs :: "'s redis \<Rightarrow> int \<Rightarrow> ('s, DueJobsResult list) cmd" where
  "ListDueJobs R nowMs s =
     (case rZRangeByScore R SchedulerSetKey 0 nowMs s of
        (Inl e, s1) \<Rightarrow> (Inl (Wrap ''zrangebyscore scheduler: '' e []), s1)
      | (Inr raws, s1) \<Rightarrow> (Inr (parse_due raws), s1))"

definition RemoveJobMember :: "'s redis \<Rightarrow> blob \<Rightarrow> ('s, bool) cmd" where
  "RemoveJobMember R m s =
     (case rZRem R SchedulerSetKey m s of
        (Inl e, s1) \<Rightarrow> (Inl (Wrap ''zrem job member: '' e []), s1)
      | (Inr n, s1) \<Rightarrow> (Inr (n > 0), s1))"

definition AddRescheduledJob :: "'s redis \<Rightarrow> StoredJob \<Rightarrow> int \<Rightarrow> ('s, unit) cmd" where
  "AddRescheduledJob R stored atMs = rZAdd R SchedulerSetKey atMs (marshal_StoredJob stored)"

definition NextDueAt :: "'s redis \<Rightarrow> ('s, int \<times> bool) cmd" where
  "NextDueAt R s =
     (case rZFirst R SchedulerSetKey s of
        (Inl e, s1) \<Rightarrow> (Inl (Wrap ''zrange scheduler: '' e []), s1)
      | (Inr zs, s1) \<Rightarrow> (Inr (case zs of [] \<Rightarrow> (-1, False) | z # _ \<Rightarrow> (z, True)), s1))"

definition ClaimJob :: "'s redis \<Rightarrow> string \<Rightarrow> string \<Rightarrow> int \<Rightarrow> ('s, bool) cmd" where
  "ClaimJob R jobID instanceID ttl s =
     (case rSetNX R (claimKeyPrefix @ jobID) instanceID (if ttl \<le> 0 then 30000 else ttl) s of
        (Inl e, s1) \<Rightarrow> (Inl (Wrap ''setnx job claim: '' e []), s1)
      | (Inr ok, s1) \<Rightarrow> (Inr ok, s1))"

definition JobCount :: "'s redis \<Rightarrow> ('s, int) cmd" where
  "JobCount R = rZCard R SchedulerSetKey"

section \<open>A stored job reads back\<close>

text \<open>What a value of the Go types satisfies: keys of a map are distinct, integers have 64 bits.\<close>

definition int64 :: "int \<Rightarrow> bool" where "int64 n \<longleftrightarrow> min_int64 \<le> n \<and> n \<le> max_int64"

definition go_JobData :: "JobData \<Rightarrow> bool" where
  "go_JobData j \<longleftrightarrow> distinct (map fst (Headers j)) \<and> int64 (Interval j)
     \<and> (case RetryPolicy j of None \<Rightarrow> True | Some p \<Rightarrow> int64 (MaxRetries p) \<and> int64 (RetryDelay p))"

lemma ParseInt_FormatInt: "int64 n \<Longrightarrow> ParseInt (FormatInt n) = (n, None)"
proof (cases "n < 0")
  case True
  assume "int64 n"
  with True have "nat (- n) \<le> 2 ^ 63" by (simp add: int64_def min_int64_def nat_le_iff)
  then have "parse_uint (FormatUint (nat (- n))) 0 = (nat (- n), None)" by (intro parse_uint_FormatUint) simp
  with \<open>nat (- n) \<le> 2 ^ 63\<close> True show ?thesis by (simp add: ParseInt_def FormatInt_def ParseUint_def)
next
  case False
  assume "int64 n"
  with False show ?thesis by (simp add: FormatInt_def int64_def ParseInt_FormatUint)
qed

lemma dec_int_back: "int64 n \<Longrightarrow> dec_int [json_int n] k = Some n"
  by (simp add: json_int_def ParseInt_FormatInt)

lemma dec_headers_back: "distinct (map fst hs) \<Longrightarrow> dec_headers (map (\<lambda>(k, x). (k, JStr x)) hs) = Some hs"
  by (induction hs) auto

lemma matching_field_unless:
  "matching k (field_unless z k' x) = (if \<not> z \<and> ToLower k' = ToLower k then [x] else [])"
  by (auto simp: field_unless_def)

lemma matching_opt:
  "matching k (case r of None \<Rightarrow> [] | Some p \<Rightarrow> [(k', f p)]) =
     (if ToLower k' = ToLower k then (case r of None \<Rightarrow> [] | Some p \<Rightarrow> [f p]) else [])"
  by (auto split: option.splits)

lemma matching_job_fields:
  "matching ''jobId'' (job_fields j) = [JStr (jd_JobID j)]"
  "matching ''apiEndpoint'' (job_fields j) = [JStr (APIEndpoint j)]"
  "matching ''method'' (job_fields j) = [JStr (Method j)]"
  "matching ''headers'' (job_fields j) = (if Headers j = [] then [] else [JObj (map (\<lambda>(k, x). (k, JStr x)) (Headers j))])"
  "matching ''payload'' (job_fields j) = (if Payload j = None then [] else [marshal_raw (Payload j)])"
  "matching ''retryPolicy'' (job_fields j) = (case RetryPolicy j of None \<Rightarrow> [] | Some p \<Rightarrow> [marshal_retry p])"
  "matching ''executeAt'' (job_fields j) = [JStr (ExecuteAt j)]"
  "matching ''validUntil'' (job_fields j) = (if ValidUntil j = [] then [] else [JStr (ValidUntil j)])"
  "matching ''interval'' (job_fields j) = (if Interval j = 0 then [] else [json_int (Interval j)])"
  by (simp_all add: job_fields_def matching_field_unless matching_opt ToLower_def lower_char_def Let_def)

lemma dec_job_back:
  assumes "go_JobData j"
  shows "dec_job_ptr [marshal_JobData j] None = Some (Some j)"
proof -
  have hdr: "dec_header_map (matching ''headers'' (job_fields j)) [] = Some (Headers j)"
    using assms dec_headers_back [of "Headers j"] by (simp add: go_JobData_def matching_job_fields)
  have rp: "dec_retry (matching ''retryPolicy'' (job_fields j)) None = Some (RetryPolicy j)"
    using assms by (cases "RetryPolicy j")
      (simp_all add: go_JobData_def marshal_retry_def dec_int_back matching_job_fields Let_def ToLower_def lower_char_def del: dec_int.simps)
  have iv: "dec_int (matching ''interval'' (job_fields j)) 0 = Some (Interval j)"
    using assms dec_int_back [of "Interval j" 0] by (simp add: go_JobData_def matching_job_fields)
  have vu: "dec_string (matching ''validUntil'' (job_fields j)) [] = Some (ValidUntil j)"
    by (simp add: matching_job_fields)
  have pl: "(if matching ''payload'' (job_fields j) = [] then None else dec_raw (matching ''payload'' (job_fields j))) = Payload j"
    by (auto simp: matching_job_fields dec_raw_def marshal_raw_def)
  have "dec_job_fields (job_fields j) zero_JobData = Some j"
    unfolding dec_job_fields_def zero_JobData_def JobData.simps hdr rp iv vu pl
    by (simp add: matching_job_fields(1-3,7))
  then show ?thesis by (simp add: marshal_JobData_def)
qed

lemma StoredJob_back:
  assumes "case sj_JobData s of None \<Rightarrow> True | Some j \<Rightarrow> go_JobData j"
  shows "unmarshal_StoredJob (marshal_StoredJob s) = Some s"
proof -
  have "dec_job_ptr [case sj_JobData s of None \<Rightarrow> JNull | Some j \<Rightarrow> marshal_JobData j] None = Some (sj_JobData s)"
    using assms dec_job_back by (cases "sj_JobData s") auto
  then show ?thesis
    by (simp add: unmarshal_StoredJob_def marshal_StoredJob_def object_fields_def ToLower_def lower_char_def Let_def
        del: dec_job_ptr.simps)
qed

end
