(* ===== verification/Scheduler.thy ===== *)
theory Scheduler
  imports SchedStore Ssrf
begin

text \<open>
  The runner of scheduled jobs: \<^verbatim>\<open>internal/scheduler/scheduler.go\<close>. Its state is the shared Redis
  state, the outside world of the HTTP requests and of the timers, and the counters it keeps.
  The environment supplies what the code does not define: the transport, the clock, the texts of
  times. \<open>se_during\<close> is what other clients do to Redis while a request of a job runs.
\<close>

section \<open>Environment and state\<close>

record httpRequest =
  hr_Method :: string
  hr_URL :: string
  hr_Header :: "(string \<times> string) list"
  hr_Body :: raw

record sched_cfg =
  InstanceID :: string
  sc_Guard :: "Guard option"
  HTTPTimeout :: int

text \<open>
  \<open>se_build method url\<close> is the error \<^verbatim>\<open>http.NewRequestWithContext\<close> has for a method or URL.
  \<open>se_target\<close> is the address the transport connects to, \<open>se_send\<close> the status of the response
  over that connection, \<open>se_sleep\<close> a timer of so many nanoseconds, which fails when the context
  is cancelled.
\<close>

record ('s, 'h) sched_env =
  se_redis :: "'s redis"
  se_cfg :: sched_cfg
  se_net :: netlib
  se_time :: time_parse
  se_format :: "int \<Rightarrow> string"
  se_build :: "string \<Rightarrow> string \<Rightarrow> goerr option"
  se_target :: "httpRequest \<Rightarrow> 'h \<Rightarrow> string"
  se_send :: "httpRequest \<Rightarrow> 'h \<Rightarrow> int result \<times> 'h"
  se_errtext :: "httpRequest \<Rightarrow> string \<Rightarrow> string"
  se_sleep :: "int \<Rightarrow> 'h \<Rightarrow> bool \<times> 'h"
  se_during :: "'s \<Rightarrow> 's"

record ('s, 'h) sched =
  sd_rds :: 's
  sd_http :: 'h
  wakeCh :: bool
  SchedulerQueueDepth :: int
  SchedulerClaimLost :: int
  ExecutedSuccess :: int
  ExecutedFailure :: int

text \<open>\<^verbatim>\<open>New\<close>: the timeout gets its default, the wake channel is empty.\<close>

definition new_cfg :: "sched_cfg \<Rightarrow> sched_cfg" where
  "new_cfg cfg = (if HTTPTimeout cfg = 0 then cfg\<lparr>HTTPTimeout := 10000\<rparr> else cfg)"

definition NewScheduler :: "'s \<Rightarrow> 'h \<Rightarrow> ('s, 'h) sched" where
  "NewScheduler s h = \<lparr>sd_rds = s, sd_http = h, wakeCh = False, SchedulerQueueDepth = 0, SchedulerClaimLost = 0,
     ExecutedSuccess = 0, ExecutedFailure = 0\<rparr>"

text \<open>\<^verbatim>\<open>Wake\<close> on a channel of capacity 1.\<close>

definition Wake :: "('s, 'h) sched \<Rightarrow> ('s, 'h) sched" where
  "Wake x = x\<lparr>wakeCh := True\<rparr>"

section \<open>One request\<close>

text \<open>
  \<^verbatim>\<open>textproto.CanonicalMIMEHeaderKey\<close>: a letter at the start and after a dash is upper case, the
  others lower case; a key with a byte that is not of a token stays as it is.
\<close>

definition token_char :: "char \<Rightarrow> bool" where
  "token_char c \<longleftrightarrow> is_digit c \<or> (let n = of_char c :: nat in (65 \<le> n \<and> n \<le> 90) \<or> (97 \<le> n \<and> n \<le> 122))
     \<or> c \<in> set ''!#$%&*+-.^_|~'' \<or> of_char c = (39 :: nat) \<or> of_char c = (96 :: nat)"

definition upper_char :: "char \<Rightarrow> char" where
  "upper_char c = (let n = of_char c :: nat in if 97 \<le> n \<and> n \<le> 122 then char_of (n - 32) else c)"

fun canon :: "bool \<Rightarrow> string \<Rightarrow> string" where
  "canon up [] = []"
| "canon up (c # cs) = (if up then upper_char c else lower_char c) # canon (c = CHR ''-'') cs"

definition CanonicalKey :: "string \<Rightarrow> string" where
  "CanonicalKey k = (if list_all token_char k then canon True k else k)"

definition Header_Set :: "string \<Rightarrow> string \<Rightarrow> (string \<times> string) list \<Rightarrow> (string \<times> string) list" where
  "Header_Set k x hs = filter (\<lambda>p. fst p \<noteq> CanonicalKey k) hs @ [(CanonicalKey k, x)]"

definition Header_Get :: "string \<Rightarrow> (string \<times> string) list \<Rightarrow> string" where
  "Header_Get k hs = (case map_of hs (CanonicalKey k) of None \<Rightarrow> [] | Some x \<Rightarrow> x)"

text \<open>
  The client's transport runs the dial hook on the address it connects to; a redirect is not
  followed, its response is the result.
\<close>

definition client_Do :: "('s, 'h) sched_env \<Rightarrow> httpRequest \<Rightarrow> 'h \<Rightarrow> int result \<times> 'h" where
  "client_Do E req h =
     (case DialControl (se_net E) (se_target E req h) of
        Some e \<Rightarrow> (Inl (Wrap (se_errtext E req (se_target E req h)) e []), h)
      | None \<Rightarrow> se_send E req h)"

text \<open>
  \<^verbatim>\<open>readerOrNil\<close> has the type of its argument, so a job without a payload hands a nil
  \<^verbatim>\<open>*bytes.Reader\<close> in a body that is not nil to \<^verbatim>\<open>http.NewRequestWithContext\<close>, which asks it for
  its length once the method and the URL are in order: a nil dereference.
\<close>

definition nil_deref :: goerr where
  "nil_deref = Panic ''runtime error: invalid memory address or nil pointer dereference''"

definition build_headers :: "JobData \<Rightarrow> (string \<times> string) list" where
  "build_headers jd =
     (let hs = fold (\<lambda>(k, x). Header_Set k x) (Headers jd) [] in
      if Payload jd \<noteq> None \<and> Header_Get ''Content-Type'' hs = [] then Header_Set ''Content-Type'' ''application/json'' hs
      else hs)"

definition doRequest :: "('s, 'h) sched_env \<Rightarrow> JobData \<Rightarrow> 'h \<Rightarrow> goerr option \<times> 'h" where
  "doRequest E jd h =
     (case se_build E (Method jd) (APIEndpoint jd) of
        Some e \<Rightarrow> (Some (Wrap ''build request: '' e []), h)
      | None \<Rightarrow>
          if Payload jd = None then (Some nil_deref, h)
          else
            (case client_Do E \<lparr>hr_Method = Method jd, hr_URL = APIEndpoint jd, hr_Header = build_headers jd,
                               hr_Body = Payload jd\<rparr> h of
               (Inl e, h1) \<Rightarrow> (Some (Wrap ''http do: '' e []), h1)
             | (Inr status, h1) \<Rightarrow>
                 if status \<ge> 400 then (Some (Err (''non-success status '' @ FormatInt status)), h1)
                 else (None, h1)))"

section \<open>A job with its retries\<close>

text \<open>The loop over the attempts; a panic leaves it at once.\<close>

function attempt_loop ::
  "('s, 'h) sched_env \<Rightarrow> JobData \<Rightarrow> int \<Rightarrow> int \<Rightarrow> int \<Rightarrow> goerr option \<Rightarrow> 'h \<Rightarrow> goerr option \<times> 'h" where
  "attempt_loop E jd delay maxAttempts attempt lastErr h =
     (if attempt \<le> maxAttempts then
        (case doRequest E jd h of
           (Some (Panic m), h1) \<Rightarrow> (Some (Panic m), h1)
         | (Some e, h1) \<Rightarrow>
             if attempt < maxAttempts then
               (case se_sleep E delay h1 of
                  (False, h2) \<Rightarrow> (Some Canceled, h2)
                | (True, h2) \<Rightarrow> attempt_loop E jd delay maxAttempts (attempt + 1) (Some e) h2)
             else (Some e, h1)
         | (None, h1) \<Rightarrow> (None, h1))
      else (lastErr, h))"
  by pat_completeness auto
termination
  by (relation "measure (\<lambda>(E, jd, delay, maxAttempts, attempt, lastErr, h). nat (maxAttempts - attempt + 1))") auto

declare attempt_loop.simps [simp del]

definition max_attempts :: "JobData \<Rightarrow> int" where
  "max_attempts jd = (case RetryPolicy jd of None \<Rightarrow> 1 | Some p \<Rightarrow> if MaxRetries p > 0 then MaxRetries p else 1)"

text \<open>A \<^verbatim>\<open>time.Duration\<close> in nanoseconds.\<close>

definition retry_delay :: "JobData \<Rightarrow> int" where
  "retry_delay jd =
     (case RetryPolicy jd of
        None \<Rightarrow> 10 ^ 9
      | Some p \<Rightarrow> if RetryDelay p > 0 then wrap64 (RetryDelay p * 10 ^ 6) else 10 ^ 9)"

definition precheck :: "('s, 'h) sched_env \<Rightarrow> JobData \<Rightarrow> goerr option" where
  "precheck E jd =
     (case sc_Guard (se_cfg E) of
        None \<Rightarrow> None
      | Some g \<Rightarrow> Guard_Validate (se_net E) g (APIEndpoint jd))"

definition executeJob :: "('s, 'h) sched_env \<Rightarrow> JobData \<Rightarrow> 'h \<Rightarrow> goerr option \<times> 'h" where
  "executeJob E jd h =
     (case precheck E jd of
        Some e \<Rightarrow> (Some e, h)
      | None \<Rightarrow> attempt_loop E jd (retry_delay jd) (max_attempts jd) 1 None h)"

section \<open>Due jobs\<close>

definition expired :: "('s, 'h) sched_env \<Rightarrow> JobData \<Rightarrow> int \<Rightarrow> bool" where
  "expired E jd now \<longleftrightarrow> ValidUntil jd \<noteq> [] \<and>
     (case ParseValidUntil (se_time E) (ValidUntil jd) of Inl e \<Rightarrow> False | Inr (vu, _) \<Rightarrow> vu < now)"

definition reschedule :: "('s, 'h) sched_env \<Rightarrow> JobData \<Rightarrow> int \<Rightarrow> 's \<Rightarrow> 's" where
  "reschedule E jd now s =
     (if Interval jd > 0 then
        let nextMs = wrap64 (now + Interval jd) in
        if expired E jd nextMs then s
        else let jd' = jd\<lparr>ExecuteAt := se_format E nextMs\<rparr> in
          snd (AddRescheduledJob (se_redis E) \<lparr>sj_JobID = jd_JobID jd, sj_JobData = Some jd'\<rparr> nextMs s)
      else s)"

text \<open>The result is the panic that ends the process, if there is one.\<close>

definition processDue :: "('s, 'h) sched_env \<Rightarrow> DueJobsResult \<Rightarrow> int \<Rightarrow> ('s, 'h) sched \<Rightarrow> goerr option \<times> ('s, 'h) sched" where
  "processDue E d now x =
     (case sj_JobData (due_Job d) of
        None \<Rightarrow> (None, x\<lparr>sd_rds := snd (RemoveJobMember (se_redis E) (RawMember d) (sd_rds x))\<rparr>)
      | Some jd \<Rightarrow>
          if expired E jd now then
            (None, x\<lparr>sd_rds := snd (RemoveJobMember (se_redis E) (RawMember d) (sd_rds x))\<rparr>)
          else
            (case ClaimJob (se_redis E) (jd_JobID jd) (InstanceID (se_cfg E)) 30000 (sd_rds x) of
               (Inl e, s1) \<Rightarrow> (None, x\<lparr>sd_rds := s1\<rparr>)
             | (Inr False, s1) \<Rightarrow> (None, x\<lparr>sd_rds := s1, SchedulerClaimLost := SchedulerClaimLost x + 1\<rparr>)
             | (Inr True, s1) \<Rightarrow>
                 (case RemoveJobMember (se_redis E) (RawMember d) s1 of
                    (Inl e, s2) \<Rightarrow> (None, x\<lparr>sd_rds := s2\<rparr>)
                  | (Inr False, s2) \<Rightarrow> (None, x\<lparr>sd_rds := s2\<rparr>)
                  | (Inr True, s2) \<Rightarrow>
                      (case executeJob E jd (sd_http x) of
                         (Some (Panic m), h1) \<Rightarrow> (Some (Panic m), x\<lparr>sd_rds := se_during E s2, sd_http := h1\<rparr>)
                       | (Some e, h1) \<Rightarrow>
                           (None, x\<lparr>sd_rds := reschedule E jd now (se_during E s2), sd_http := h1,
                              ExecutedFailure := ExecutedFailure x + 1\<rparr>)
                       | (None, h1) \<Rightarrow>
                           (None, x\<lparr>sd_rds := reschedule E jd now (se_during E s2), sd_http := h1,
                              ExecutedSuccess := ExecutedSuccess x + 1\<rparr>)))))"

fun process_all :: "('s, 'h) sched_env \<Rightarrow> DueJobsResult list \<Rightarrow> int \<Rightarrow> ('s, 'h) sched \<Rightarrow> goerr option \<times> ('s, 'h) sched" where
  "process_all E [] now x = (None, x)"
| "process_all E (d # ds) now x =
     (case processDue E d now x of
        (Some p, x1) \<Rightarrow> (Some p, x1)
      | (None, x1) \<Rightarrow> process_all E ds now x1)"

definition tick :: "('s, 'h) sched_env \<Rightarrow> int \<Rightarrow> ('s, 'h) sched \<Rightarrow> goerr option \<times> ('s, 'h) sched" where
  "tick E now x =
     (case ListDueJobs (se_redis E) now (sd_rds x) of
        (Inl e, s1) \<Rightarrow> (None, x\<lparr>sd_rds := s1\<rparr>)
      | (Inr due, s1) \<Rightarrow> process_all E due now (x\<lparr>sd_rds := s1\<rparr>))"

section \<open>The loop\<close>

text \<open>
  The cases of the select statements in \<^verbatim>\<open>waitForWakeOrTimer\<close> and \<^verbatim>\<open>sleepCtx\<close>: which of the
  channels is ready is a choice of the environment.
\<close>

datatype wait_event = EvCancel | EvWake | EvTimer

definition waitForWakeOrTimer :: "wait_event \<Rightarrow> bool \<Rightarrow> bool \<times> bool" where
  "waitForWakeOrTimer ev pending =
     (case ev of EvCancel \<Rightarrow> (False, pending) | EvWake \<Rightarrow> (True, False) | EvTimer \<Rightarrow> (True, pending))"

definition sleepCtx :: "wait_event \<Rightarrow> bool" where
  "sleepCtx ev \<longleftrightarrow> ev \<noteq> EvCancel"

datatype loop_next = Again | Parked int | Backoff | Stop | Crash goerr

text \<open>
  One turn of \<^verbatim>\<open>Run\<close> at the clock \<open>now\<close>, with the event that would end a wait of this turn.
  \<open>Parked\<close> carries the time waited for.
\<close>

definition run_turn :: "('s, 'h) sched_env \<Rightarrow> int \<Rightarrow> wait_event \<Rightarrow> ('s, 'h) sched \<Rightarrow> loop_next \<times> ('s, 'h) sched" where
  "run_turn E now ev x =
     (case NextDueAt (se_redis E) (sd_rds x) of
        (Inl e, s1) \<Rightarrow> (if sleepCtx ev then Backoff else Stop, x\<lparr>sd_rds := s1\<rparr>)
      | (Inr (nextMs, ok), s1) \<Rightarrow>
          let x1 = (if \<not> ok then x\<lparr>sd_rds := s1, SchedulerQueueDepth := 0\<rparr>
                    else case JobCount (se_redis E) s1 of
                        (Inl e, s2) \<Rightarrow> x\<lparr>sd_rds := s2\<rparr>
                      | (Inr n, s2) \<Rightarrow> x\<lparr>sd_rds := s2, SchedulerQueueDepth := n\<rparr>);
              wait = (if \<not> ok then 3600000 else if nextMs - now < 0 then 0 else nextMs - now)
          in if wait > 0 then
               (case waitForWakeOrTimer ev (wakeCh x1) of
                  (False, pending) \<Rightarrow> (Stop, x1\<lparr>wakeCh := pending\<rparr>)
                | (True, pending) \<Rightarrow> (Parked wait, x1\<lparr>wakeCh := pending\<rparr>))
             else
               (case tick E now x1 of
                  (Some p, x2) \<Rightarrow> (Crash p, x2)
                | (None, x2) \<Rightarrow> (Again, x2)))"

text \<open>\<^verbatim>\<open>Run\<close> over the clock and the events of its turns, as far as they go.\<close>

fun sched_Run :: "('s, 'h) sched_env \<Rightarrow> (int \<times> wait_event) list \<Rightarrow> ('s, 'h) sched \<Rightarrow> loop_next list \<times> ('s, 'h) sched" where
  "sched_Run E [] x = ([], x)"
| "sched_Run E ((now, ev) # rest) x =
     (case run_turn E now ev x of
        (Stop, x1) \<Rightarrow> ([Stop], x1)
      | (Crash p, x1) \<Rightarrow> ([Crash p], x1)
      | (nx, x1) \<Rightarrow> (case sched_Run E rest x1 of (nxs, x2) \<Rightarrow> (nx # nxs, x2)))"

definition MarshalJobForLog :: "JobData option \<Rightarrow> json result" where
  "MarshalJobForLog jd =
     (case jd of None \<Rightarrow> Inl (Err ''nil job'') | Some j \<Rightarrow> Inr (marshal_JobData (j\<lparr>Headers := []\<rparr>)))"

definition ResumeOnStartup :: "'s redis \<Rightarrow> ('s, int) cmd" where
  "ResumeOnStartup R s = (case JobCount R s of (Inl e, s1) \<Rightarrow> (Inl e, s1) | (Inr n, s1) \<Rightarrow> (Inr n, s1))"

end
