(* ===== verification/HandlerReg.thy ===== *)
theory HandlerReg
  imports Protocol "HOL-Library.AList"
begin

text \<open>
  The extension surface for inbound frames: \<^verbatim>\<open>handler/handler.go\<close>. A handler runs on a state
  \<open>'x\<close>, in which it also writes frames through its responder; it returns the text of a success
  frame or an error. A nil function or registry is \<open>None\<close>. The locale \<open>verb_table\<close> states what
  the dispatcher relies on of the registry.
\<close>

section \<open>Requests\<close>

record Conn_info =
  ci_ConnID :: string
  ci_UserKey :: string
  ci_Claims :: "(string \<times> json) list"

record handler_Request =
  hq_UserKey :: string
  hq_ConnID :: string
  hq_Claims :: "(string \<times> json) list"
  hq_Envelope :: "Envelope option"

definition req_ReqID :: "handler_Request \<Rightarrow> string" where
  "req_ReqID r = (case hq_Envelope r of None \<Rightarrow> [] | Some env \<Rightarrow> ReqID env)"

definition req_TopicOf :: "handler_Request \<Rightarrow> string" where
  "req_TopicOf r = (case hq_Envelope r of None \<Rightarrow> [] | Some env \<Rightarrow> Topic env)"

definition req_TypeOf :: "handler_Request \<Rightarrow> string" where
  "req_TypeOf r = (case hq_Envelope r of None \<Rightarrow> [] | Some env \<Rightarrow> Type env)"

type_synonym 'x Handler = "handler_Request \<Rightarrow> 'x \<Rightarrow> string result \<times> 'x"

type_synonym 'x Middleware = "'x Handler \<Rightarrow> 'x Handler"

text \<open>The loop of \<^verbatim>\<open>Chain\<close> runs from the last element to the first.\<close>

fun chain_from :: "nat \<Rightarrow> 'x Middleware option list \<Rightarrow> 'x Handler \<Rightarrow> 'x Handler" where
  "chain_from 0 mw h = h"
| "chain_from (Suc i) mw h = chain_from i mw (case mw ! i of None \<Rightarrow> h | Some f \<Rightarrow> f h)"

definition Chain :: "'x Handler \<Rightarrow> 'x Middleware option list \<Rightarrow> 'x Handler" where
  "Chain h mw = chain_from (length mw) mw h"

section \<open>The registry\<close>

type_synonym 'x Registry = "(string \<times> 'x Handler) list option"

definition NewRegistry :: "'x Registry" where "NewRegistry = Some []"

definition Register :: "string \<Rightarrow> 'x Handler option \<Rightarrow> 'x Registry \<Rightarrow> 'x Registry" where
  "Register verb h r =
     (case (r, h) of
        (Some hs, Some f) \<Rightarrow> if verb = [] then r else Some (AList.update verb f hs)
      | _ \<Rightarrow> r)"

fun Use :: "'x Handler option \<Rightarrow> string list \<Rightarrow> 'x Registry \<Rightarrow> 'x Registry" where
  "Use h [] r = r"
| "Use h (v # vs) r = Use h vs (Register v h r)"

definition Lookup :: "'x Registry \<Rightarrow> string \<Rightarrow> 'x Handler option" where
  "Lookup r verb = (case r of None \<Rightarrow> None | Some hs \<Rightarrow> map_of hs verb)"

definition Verbs :: "'x Registry \<Rightarrow> string list option" where
  "Verbs r = (case r of None \<Rightarrow> None | Some hs \<Rightarrow> Some (map fst hs))"

section \<open>What the dispatcher relies on\<close>

locale verb_table =
  fixes start :: 'r
    and reg :: "string \<Rightarrow> 'h \<Rightarrow> 'r \<Rightarrow> 'r"
    and look :: "'r \<Rightarrow> string \<Rightarrow> 'h option"
    and ok :: "'r \<Rightarrow> bool"
  assumes start_ok: "ok start" and reg_ok: "ok r \<Longrightarrow> ok (reg v h r)"
    and look_start: "look start v = None"
    and look_reg: "ok r \<Longrightarrow> v \<noteq> [] \<Longrightarrow> look (reg v h r) w = (if w = v then Some h else look r w)"
    and look_empty: "ok r \<Longrightarrow> look r [] = None"
begin

definition reg_all :: "(string \<times> 'h) list \<Rightarrow> 'r" where
  "reg_all vs = fold (\<lambda>(v, h) r. reg v h r) vs start"

lemma reg_all_ok: "ok (reg_all vs)"
proof -
  have "ok r \<Longrightarrow> ok (fold (\<lambda>(v, h) r. reg v h r) vs r)" for r
    by (induction vs arbitrary: r) (auto intro: reg_ok)
  then show ?thesis unfolding reg_all_def by (simp add: start_ok)
qed

text \<open>The last registration of a verb is the one that is found.\<close>

lemma look_reg_all:
  assumes "\<forall>v \<in> fst ` set vs. v \<noteq> []"
  shows "look (reg_all vs) w = map_of (rev vs) w"
  using assms
proof (induction vs rule: rev_induct)
  case Nil
  then show ?case by (simp add: reg_all_def look_start)
next
  case (snoc p vs)
  then show ?case
    using look_reg [OF reg_all_ok [of vs], of "fst p" "snd p" w] by (auto simp: reg_all_def split: prod.splits)
qed

end

definition registry_ok :: "'x Registry \<Rightarrow> bool" where
  "registry_ok r \<longleftrightarrow> (\<exists>hs. r = Some hs \<and> [] \<notin> fst ` set hs)"

interpretation registry: verb_table NewRegistry "\<lambda>v h. Register v (Some h)" Lookup registry_ok
proof
  show "registry_ok NewRegistry" by (simp add: registry_ok_def NewRegistry_def)
  show "registry_ok r \<Longrightarrow> registry_ok (Register v (Some h) r)" for r :: "'a Registry" and v h
    by (auto simp: registry_ok_def Register_def dom_update)
  show "Lookup NewRegistry v = None" for v by (simp add: Lookup_def NewRegistry_def)
  show "registry_ok r \<Longrightarrow> v \<noteq> [] \<Longrightarrow> Lookup (Register v (Some h) r) w = (if w = v then Some h else Lookup r w)"
    for r :: "'a Registry" and v h w by (auto simp: registry_ok_def Lookup_def Register_def update_conv)
  show "registry_ok r \<Longrightarrow> Lookup r [] = None" for r :: "'a Registry"
    by (auto simp: registry_ok_def Lookup_def map_of_eq_None_iff)
qed

section \<open>The order of middleware\<close>

lemma chain_from_foldr: "n \<le> length mw \<Longrightarrow>
    chain_from n mw h = foldr (\<lambda>m f. case m of None \<Rightarrow> f | Some g \<Rightarrow> g f) (take n mw) h"
  by (induction n arbitrary: h) (simp_all add: take_Suc_conv_app_nth)

lemma Chain_foldr: "Chain h mw = foldr (\<lambda>m f. case m of None \<Rightarrow> f | Some g \<Rightarrow> g f) mw h"
  by (simp add: Chain_def chain_from_foldr)

lemma Chain_append: "Chain h (xs @ ys) = Chain (Chain h ys) xs"
  by (simp add: Chain_foldr)

text \<open>
  Middleware and overrides. The first middleware of a list sees a request first, and one that
  answers without calling the next keeps everything behind it from running. A registry built
  by any sequence of registrations finds for every verb the handler registered last.
\<close>

theorem middleware_and_registry:
  assumes "\<forall>v \<in> fst ` set vs. v \<noteq> []"
  shows "((\<forall>next. m next = f) \<longrightarrow> Chain h (pre @ Some m # post) = Chain f pre)
    \<and> Chain h (Some m # post) = m (Chain h post)
    \<and> Lookup (fold (\<lambda>(v, g). Register v (Some g)) vs NewRegistry) w = map_of (rev vs) w"
  using registry.look_reg_all [OF assms, of w]
  by (simp add: Chain_append Chain_foldr registry.reg_all_def)

definition echo :: "string \<Rightarrow> unit Handler" where "echo txt req x = (Inr txt, x)"

theorem middleware_and_registry_witness:
  "Chain (echo ''verb'') [None, Some (\<lambda>next. echo ''stop''), Some (\<lambda>next. next)] = echo ''stop''
   \<and> Lookup (Register ''a'' (Some (echo ''2'')) (Register ''a'' (Some (echo ''1'')) NewRegistry)) ''a'' = Some (echo ''2'')"
proof -
  have "Chain (echo ''verb'') ([None] @ Some (\<lambda>next. echo ''stop'') # [Some (\<lambda>next. next)]) = Chain (echo ''stop'') [None]"
    using middleware_and_registry [of "[] :: (string \<times> unit Handler) list" "\<lambda>next. echo ''stop''" "echo ''stop''" "echo ''verb''" "[None]"
        "[Some (\<lambda>next. next)]" "''a''"] by simp
  moreover have "Lookup (fold (\<lambda>(v, g). Register v (Some g)) [(''a'', echo ''1''), (''a'', echo ''2'')] NewRegistry) ''a''
      = map_of (rev [(''a'', echo ''1''), (''a'', echo ''2'')]) ''a''"
    using middleware_and_registry [of "[(''a'', echo ''1''), (''a'', echo ''2'')]" "\<lambda>next. next" "echo ''1''" "echo ''1''"] by auto
  ultimately show ?thesis by (simp add: Chain_foldr)
qed

end
