(* ===== verification/Judging.thy ===== *)
theory Judging
  imports Json
begin

text \<open>
  Routing decisions: \<^verbatim>\<open>bus/judge.go\<close> and \<^verbatim>\<open>judge\<close>, \<^verbatim>\<open>judgeOnce\<close> of \<^verbatim>\<open>bus/bus.go\<close>. A Judge and a
  candidate source are supplied by the embedder, so both are functions in the configuration, with
  the timeout of their context as an argument; a call that times out returns
  \<open>DeadlineExceeded\<close>. The \<^verbatim>\<open>Score\<close> of a decision, which the bus
  does not interpret, is left out.
\<close>

section \<open>Data\<close>

record Message =
  msg_Topic :: string
  msg_Data :: raw

record Candidate =
  cand_ID :: string
  Criteria :: string

record Decision =
  dec_ID :: string
  Deliver :: bool

datatype FailurePolicy = DeliverAll | DeliverNone

fun policy_String :: "FailurePolicy \<Rightarrow> string" where
  "policy_String DeliverNone = ''deliver_none''"
| "policy_String DeliverAll = ''deliver_all''"

record judge_cfg =
  Judge :: "(int \<Rightarrow> Message \<Rightarrow> Candidate list \<Rightarrow> Decision list result) option"
  Candidates :: "(int \<Rightarrow> string \<Rightarrow> Candidate list result) option"
  JudgeTimeout :: int
  JudgeFailurePolicy :: FailurePolicy

text \<open>Five seconds, in milliseconds.\<close>

definition DefaultJudgeTimeout :: int where "DefaultJudgeTimeout = 5000"

section \<open>Operations\<close>

text \<open>The loop of \<^verbatim>\<open>resolve\<close>, with the set \<^verbatim>\<open>seen\<close> and the result \<^verbatim>\<open>out\<close> so far.\<close>

fun resolve_loop :: "string set \<Rightarrow> Decision list \<Rightarrow> string list \<Rightarrow> string list \<Rightarrow> string list result" where
  "resolve_loop known [] seen out = Inr out"
| "resolve_loop known (d # ds) seen out =
     (if dec_ID d \<notin> known then
        Inl (Err (''judge returned a decision for unknown subscriber '' @ Quote (dec_ID d)))
      else if dec_ID d \<in> set seen then
        Inl (Err (''judge returned two decisions for subscriber '' @ Quote (dec_ID d)))
      else resolve_loop known ds (dec_ID d # seen) (if Deliver d then out @ [dec_ID d] else out))"

definition resolve :: "Candidate list \<Rightarrow> Decision list \<Rightarrow> string list result" where
  "resolve candidates decisions = resolve_loop (cand_ID ` set candidates) decisions [] []"

text \<open>A nil slice of recipients is \<open>None\<close>.\<close>

definition judgeOnce ::
  "(int \<Rightarrow> string \<Rightarrow> Candidate list result) \<Rightarrow> (int \<Rightarrow> Message \<Rightarrow> Candidate list \<Rightarrow> Decision list result)
    \<Rightarrow> int \<Rightarrow> string \<Rightarrow> raw \<Rightarrow> string list option result" where
  "judgeOnce source jdg timeout topic data =
     (case source timeout topic of
        Inl e \<Rightarrow> Inl (Wrap (''candidates for '' @ Quote topic @ '': '') e [])
      | Inr candidates \<Rightarrow>
          if candidates = [] then Inr None
          else (case jdg timeout \<lparr>msg_Topic = topic, msg_Data = data\<rparr> candidates of
                  Inl e \<Rightarrow> Inl (Wrap (''judge '' @ Quote topic @ '': '') e [])
                | Inr decisions \<Rightarrow>
                    (case resolve candidates decisions of Inl e \<Rightarrow> Inl e | Inr out \<Rightarrow> Inr (Some out))))"

text \<open>\<^verbatim>\<open>judge\<close> returns the recipients and the label of \<^verbatim>\<open>JudgeDecisions\<close> it counted, if any.\<close>

definition judge :: "judge_cfg \<Rightarrow> string \<Rightarrow> raw \<Rightarrow> string list option result \<times> string option" where
  "judge cfg topic data =
     (case (Judge cfg, Candidates cfg) of
        (Some jdg, Some source) \<Rightarrow>
          (let timeout = (if JudgeTimeout cfg \<le> 0 then DefaultJudgeTimeout else JudgeTimeout cfg) in
           case judgeOnce source jdg timeout topic data of
             Inr recipients \<Rightarrow> (Inr recipients, Some ''ok'')
           | Inl e \<Rightarrow>
               (if JudgeFailurePolicy cfg = DeliverNone then Inr (Some []) else Inr None,
                Some (if errors_Is e DeadlineExceeded then ''timeout'' else ''error'')))
      | _ \<Rightarrow> (Inr None, None))"

section \<open>What a decision means\<close>

lemma resolve_loop_Inr:
  assumes "resolve_loop known ds seen out = Inr r"
  shows "r = out @ map dec_ID (filter Deliver ds)" and "dec_ID ` set ds \<subseteq> known"
    and "distinct (map dec_ID ds)" and "dec_ID ` set ds \<inter> set seen = {}"
proof -
  have "r = out @ map dec_ID (filter Deliver ds) \<and> dec_ID ` set ds \<subseteq> known
    \<and> distinct (map dec_ID ds) \<and> dec_ID ` set ds \<inter> set seen = {}"
    using assms by (induction known ds seen out rule: resolve_loop.induct) (auto split: if_splits)
  then show "r = out @ map dec_ID (filter Deliver ds)" and "dec_ID ` set ds \<subseteq> known"
    and "distinct (map dec_ID ds)" and "dec_ID ` set ds \<inter> set seen = {}" by blast+
qed

lemma resolve_loop_ok:
  assumes "dec_ID ` set ds \<subseteq> known" and "distinct (map dec_ID ds)" and "dec_ID ` set ds \<inter> set seen = {}"
  shows "resolve_loop known ds seen out = Inr (out @ map dec_ID (filter Deliver ds))"
  using assms by (induction known ds seen out rule: resolve_loop.induct) auto

text \<open>
  Resolving decisions. A judge's answer is accepted exactly when every decision names a
  candidate and no candidate is named twice; the recipients are then the candidates it chose, in
  its order. Everything else is an error, also a decision for an unknown ID.
\<close>

theorem resolve_spec:
  "resolve candidates decisions = Inr r \<longleftrightarrow>
     dec_ID ` set decisions \<subseteq> cand_ID ` set candidates \<and> distinct (map dec_ID decisions)
     \<and> r = map dec_ID (filter Deliver decisions)"
proof
  assume "resolve candidates decisions = Inr r"
  from resolve_loop_Inr [OF this [unfolded resolve_def]]
  show "dec_ID ` set decisions \<subseteq> cand_ID ` set candidates \<and> distinct (map dec_ID decisions)
     \<and> r = map dec_ID (filter Deliver decisions)" by simp
next
  assume "dec_ID ` set decisions \<subseteq> cand_ID ` set candidates \<and> distinct (map dec_ID decisions)
     \<and> r = map dec_ID (filter Deliver decisions)"
  then show "resolve candidates decisions = Inr r"
    using resolve_loop_ok [of decisions "cand_ID ` set candidates" "[]" "[]"] by (simp add: resolve_def)
qed

end
