(* ===== verification/Conn.thy ===== *)
theory Conn
  imports Prelude
begin

text \<open>
  One client socket: \<^verbatim>\<open>Conn\<close> of \<^verbatim>\<open>internal/connection/hub.go\<close>. The state is the struct's fields
  that change: the queue \<^verbatim>\<open>sendCh\<close> with its capacity, the count of buffered bytes, the drop
  counters, the close flag and reason, and the writer goroutine's view of the socket. Every
  method is one step on that state, and \<open>conn_step\<close> interleaves the methods, called by any
  goroutine, with the writer's iterations. A payload is the byte string it is in the source.
\<close>

section \<open>State\<close>

datatype frameKind = frameText | framePing | frameClose

record outFrame =
  kind :: frameKind
  payload :: string
  closeCode :: int

text \<open>
  The writer goroutine is running, or has returned (which closes the socket and the channel
  \<^verbatim>\<open>drained\<close>). \<open>wire\<close> is what it handed to the socket so far.
\<close>

record Conn =
  conn_id :: string
  userKey :: string
  sendCh :: "outFrame list"
  chanCap :: nat
  bufBytes :: int
  maxBuf :: int
  maxDrops :: int
  consecDrops :: int
  isClosed :: bool
  closeReason :: string
  drained :: bool
  wire :: "outFrame list"
  framesSent :: nat
  framesDropped :: "string list"

record ConnConfig =
  cfg_UserKey :: string
  cfg_MaxBufferedBytes :: int
  cfg_SendChanCapacity :: int
  cfg_ID :: string
  cfg_MaxConsecutiveDrops :: int

text \<open>The drop and close categories of \<^verbatim>\<open>metrics/metrics.go\<close>.\<close>

definition DropBufferThreshold :: string where "DropBufferThreshold = ''buffer_threshold''"
definition DropChannelFull :: string where "DropChannelFull = ''channel_full''"
definition CloseIdleTimeout :: string where "CloseIdleTimeout = ''idle_timeout''"
definition ClosePeer :: string where "ClosePeer = ''peer''"
definition CloseServer :: string where "CloseServer = ''server''"
definition CloseReadError :: string where "CloseReadError = ''read_error''"
definition CloseTokenExpired :: string where "CloseTokenExpired = ''token_expired''"
definition CloseSlowConsumer :: string where "CloseSlowConsumer = ''slow_consumer''"

section \<open>Methods\<close>

text \<open>The UUID of a connection without a configured ID is an argument.\<close>

definition NewConn :: "string \<Rightarrow> ConnConfig \<Rightarrow> Conn" where
  "NewConn uuid cfg =
     \<lparr>conn_id = (if cfg_ID cfg = [] then uuid else cfg_ID cfg),
      userKey = cfg_UserKey cfg,
      sendCh = [],
      chanCap = (if cfg_SendChanCapacity cfg \<le> 0 then 64 else nat (cfg_SendChanCapacity cfg)),
      bufBytes = 0,
      maxBuf = (if cfg_MaxBufferedBytes cfg \<le> 0 then 1024 * 1024 else cfg_MaxBufferedBytes cfg),
      maxDrops = cfg_MaxConsecutiveDrops cfg,
      consecDrops = 0,
      isClosed = False,
      closeReason = [],
      drained = False,
      wire = [],
      framesSent = 0,
      framesDropped = []\<rparr>"

definition enqueue :: "outFrame \<Rightarrow> Conn \<Rightarrow> Conn" where
  "enqueue f c = c\<lparr>sendCh := sendCh c @ [f]\<rparr>"

definition room :: "Conn \<Rightarrow> bool" where
  "room c \<longleftrightarrow> length (sendCh c) < chanCap c"

definition text_frame :: "string \<Rightarrow> outFrame" where
  "text_frame msg = \<lparr>kind = frameText, payload = msg, closeCode = 0\<rparr>"

definition ping_frame :: outFrame where
  "ping_frame = \<lparr>kind = framePing, payload = [], closeCode = 0\<rparr>"

text \<open>\<^verbatim>\<open>closeOnce\<close>: the first call records its category, offers the close frame and closes \<^verbatim>\<open>closed\<close>.\<close>

definition closeWith :: "int \<Rightarrow> string \<Rightarrow> string \<Rightarrow> Conn \<Rightarrow> Conn" where
  "closeWith code reason category c =
     (if isClosed c then c
      else let c1 = c\<lparr>closeReason := category\<rparr>;
               c2 = (if room c1 then enqueue \<lparr>kind = frameClose, payload = reason, closeCode = code\<rparr> c1 else c1)
           in c2\<lparr>isClosed := True\<rparr>)"

definition Close :: "int \<Rightarrow> string \<Rightarrow> Conn \<Rightarrow> Conn" where
  "Close code reason = closeWith code reason CloseServer"

text \<open>1013 is \<^verbatim>\<open>websocket.CloseTryAgainLater\<close>.\<close>

definition recordDrop :: "string \<Rightarrow> Conn \<Rightarrow> Conn" where
  "recordDrop reason c =
     (let c1 = c\<lparr>framesDropped := framesDropped c @ [reason]\<rparr> in
      if maxDrops c1 \<le> 0 then c1
      else let c2 = c1\<lparr>consecDrops := consecDrops c1 + 1\<rparr> in
        if consecDrops c2 < maxDrops c2 then c2
        else closeWith 1013 ''slow consumer'' CloseSlowConsumer c2)"

definition SendReporting :: "string \<Rightarrow> Conn \<Rightarrow> bool \<times> Conn" where
  "SendReporting msg c =
     (if isClosed c then (False, c)
      else let n = int (length msg) in
        if bufBytes c + n > maxBuf c then (False, recordDrop DropBufferThreshold c)
        else if room c then
          (True, (enqueue (text_frame msg) c)\<lparr>bufBytes := bufBytes c + n,
             framesSent := framesSent c + 1, consecDrops := 0\<rparr>)
        else (False, recordDrop DropChannelFull c))"

definition Send :: "string \<Rightarrow> Conn \<Rightarrow> Conn" where
  "Send msg c = snd (SendReporting msg c)"

text \<open>
  \<^verbatim>\<open>SendNow\<close> blocks until a case of its select is ready, which is the value \<open>None\<close> here. When
  both the queue and a stop signal are ready Go picks either: \<open>pick\<close> is that choice.
\<close>

definition SendNow :: "bool \<Rightarrow> bool \<Rightarrow> string \<Rightarrow> Conn \<Rightarrow> Conn option" where
  "SendNow pick ctxDone msg c =
     (let n = int (length msg); stop = (ctxDone \<or> isClosed c) in
      if room c \<and> (\<not> stop \<or> pick) then
        Some ((enqueue (text_frame msg) c)\<lparr>bufBytes := bufBytes c + n, framesSent := framesSent c + 1\<rparr>)
      else if stop then Some c
      else None)"

definition Ping :: "Conn \<Rightarrow> Conn" where
  "Ping c = (if isClosed c then c else if room c then enqueue ping_frame c else c)"

definition IsClosed :: "Conn \<Rightarrow> bool" where
  "IsClosed c = isClosed c"

text \<open>
  One iteration of \<^verbatim>\<open>runWriter\<close>: it takes the oldest frame and writes it; \<open>ok\<close> says whether the
  socket accepts the write. Without a frame the goroutine blocks, and once it returned it does
  nothing more. A close frame with code 0 goes out as 1000.
\<close>

definition writer_step :: "(outFrame \<Rightarrow> bool) \<Rightarrow> Conn \<Rightarrow> Conn option" where
  "writer_step ok c =
     (if drained c then None
      else case sendCh c of
        [] \<Rightarrow> None
      | f # fs \<Rightarrow>
          let c1 = c\<lparr>sendCh := fs\<rparr> in
          (case kind f of
             frameText \<Rightarrow>
               (let c2 = c1\<lparr>bufBytes := bufBytes c1 - int (length (payload f))\<rparr> in
                Some (if ok f then c2\<lparr>wire := wire c2 @ [f]\<rparr> else c2\<lparr>drained := True\<rparr>))
           | framePing \<Rightarrow> Some (if ok f then c1\<lparr>wire := wire c1 @ [f]\<rparr> else c1\<lparr>drained := True\<rparr>)
           | frameClose \<Rightarrow>
               (let f' = f\<lparr>closeCode := (if closeCode f = 0 then 1000 else closeCode f)\<rparr> in
                Some ((if ok f' then c1\<lparr>wire := wire c1 @ [f']\<rparr> else c1)\<lparr>drained := True\<rparr>))))"

lemma writer_step_shorter: "writer_step ok c = Some c' \<Longrightarrow> length (sendCh c') < length (sendCh c)"
  by (auto simp: writer_step_def Let_def split: list.splits frameKind.splits if_splits)

text \<open>The loop, run until the goroutine blocks or returns, with no other goroutine in between.\<close>

function runWriter :: "(outFrame \<Rightarrow> bool) \<Rightarrow> Conn \<Rightarrow> Conn" where
  "runWriter ok c = (case writer_step ok c of None \<Rightarrow> c | Some c' \<Rightarrow> runWriter ok c')"
  by pat_completeness auto
termination
  by (relation "measure (\<lambda>(ok, c). length (sendCh c))") (auto dest: writer_step_shorter)

declare runWriter.simps [simp del]

section \<open>Interleavings\<close>

text \<open>
  One step of a connection: a method called by some goroutine, or an iteration of the writer.
  With \<open>alive\<close> the socket accepts every write.
\<close>

inductive conn_step :: "bool \<Rightarrow> Conn \<Rightarrow> Conn \<Rightarrow> bool" for alive where
  step_Send: "conn_step alive c (Send msg c)"
| step_SendNow: "SendNow pick ctxDone msg c = Some c' \<Longrightarrow> conn_step alive c c'"
| step_Ping: "conn_step alive c (Ping c)"
| step_close: "conn_step alive c (closeWith code reason category c)"
| step_write: "(\<forall>f. alive \<longrightarrow> ok f) \<Longrightarrow> writer_step ok c = Some c' \<Longrightarrow> conn_step alive c c'"

inductive_cases conn_stepE: "conn_step alive c c'"

section \<open>Invariant\<close>

definition text_bytes :: "outFrame list \<Rightarrow> int" where
  "text_bytes fs = sum_list (map (\<lambda>f. if kind f = frameText then int (length (payload f)) else 0) fs)"

lemma text_bytes_simps [simp]:
  "text_bytes [] = 0"
  "text_bytes (f # fs) = (if kind f = frameText then int (length (payload f)) else 0) + text_bytes fs"
  "text_bytes (fs @ gs) = text_bytes fs + text_bytes gs"
  by (simp_all add: text_bytes_def)

definition closes :: "outFrame list \<Rightarrow> nat" where
  "closes fs = length (filter (\<lambda>f. kind f = frameClose) fs)"

lemma closes_simps [simp]:
  "closes [] = 0"
  "closes (f # fs) = (if kind f = frameClose then 1 else 0) + closes fs"
  "closes (fs @ gs) = closes fs + closes gs"
  by (simp_all add: closes_def)

text \<open>
  The queue is within its capacity, the byte count is the size of the queued text, an open
  connection is below its drop budget and has no close frame anywhere, a closed one has at most
  one, and nothing follows a close frame on the socket.
\<close>

definition conn_inv :: "Conn \<Rightarrow> bool" where
  "conn_inv c \<longleftrightarrow>
     length (sendCh c) \<le> chanCap c
     \<and> bufBytes c = text_bytes (sendCh c)
     \<and> 0 \<le> consecDrops c
     \<and> (\<not> isClosed c \<and> 0 < maxDrops c \<longrightarrow> consecDrops c < maxDrops c)
     \<and> (\<not> isClosed c \<longrightarrow> closes (wire c @ sendCh c) = 0)
     \<and> closes (wire c @ sendCh c) \<le> 1
     \<and> (0 < closes (wire c) \<longrightarrow> drained c \<and> kind (last (wire c)) = frameClose)"

lemmas conn_defs = enqueue_def room_def text_frame_def ping_frame_def closeWith_def recordDrop_def
  SendReporting_def Send_def SendNow_def Ping_def writer_step_def Let_def

lemma NewConn_inv: "conn_inv (NewConn uuid cfg)"
  by (simp add: conn_inv_def NewConn_def)

lemma closeWith_inv: "conn_inv c \<Longrightarrow> conn_inv (closeWith code reason category c)"
  by (auto simp: conn_inv_def closeWith_def enqueue_def room_def Let_def)

lemma recordDrop_inv: "conn_inv c \<Longrightarrow> conn_inv (recordDrop reason c)"
  by (auto simp: conn_inv_def recordDrop_def closeWith_def enqueue_def room_def Let_def)

lemma SendReporting_inv: "conn_inv c \<Longrightarrow> conn_inv (snd (SendReporting msg c))"
  by (auto simp: SendReporting_def Let_def intro: recordDrop_inv)
    (auto simp: conn_inv_def enqueue_def room_def text_frame_def)

lemma SendNow_inv: "conn_inv c \<Longrightarrow> SendNow pick ctxDone msg c = Some c' \<Longrightarrow> conn_inv c'"
  by (auto simp: SendNow_def conn_inv_def enqueue_def room_def text_frame_def Let_def split: if_splits)

lemma Ping_inv: "conn_inv c \<Longrightarrow> conn_inv (Ping c)"
  by (auto simp: Ping_def conn_inv_def enqueue_def room_def ping_frame_def)

lemma writer_step_inv:
  assumes "conn_inv c" and "writer_step ok c = Some c'"
  shows "conn_inv c'"
proof -
  from assms(2) obtain f fs where q: "sendCh c = f # fs" and "\<not> drained c"
    by (auto simp: writer_step_def split: list.splits if_splits)
  with assms show ?thesis
    by (cases "kind f") (auto simp: writer_step_def conn_inv_def Let_def split: if_splits)
qed

lemma conn_step_inv: "conn_step alive c c' \<Longrightarrow> conn_inv c \<Longrightarrow> conn_inv c'"
  by (induction rule: conn_step.induct)
    (auto simp: Send_def intro: SendReporting_inv SendNow_inv Ping_inv closeWith_inv writer_step_inv)

interpretation conn_sys: inv_system "\<lambda>_. True" "\<lambda>_ c. \<exists>uuid cfg. c = NewConn uuid cfg" conn_step "\<lambda>_. conn_inv"
  by unfold_locales (auto simp: NewConn_inv intro: conn_step_inv)

text \<open>
  The connection invariant (C14). Through every interleaving of sends, replies, pings, closes and
  writer iterations on a new connection, the queue stays within its capacity, the byte count is
  exactly the queued text, an open connection is below its drop budget, and at most one close
  frame is ever queued or written, with nothing written after it.
\<close>

theorem conn_reachable_inv:
  assumes "(conn_step alive)\<^sup>*\<^sup>* (NewConn uuid cfg) c"
  shows "length (sendCh c) \<le> chanCap c
    \<and> bufBytes c = text_bytes (sendCh c)
    \<and> (\<not> isClosed c \<and> 0 < maxDrops c \<longrightarrow> consecDrops c < maxDrops c)
    \<and> closes (wire c @ sendCh c) \<le> (if isClosed c then 1 else 0)
    \<and> (0 < closes (wire c) \<longrightarrow> kind (last (wire c)) = frameClose)"
proof -
  from conn_sys.reachable_inv [OF _ _ assms] have "conn_inv c" by blast
  then show ?thesis by (simp add: conn_inv_def)
qed

definition demo_cfg :: ConnConfig where
  "demo_cfg = \<lparr>cfg_UserKey = ''ann'', cfg_MaxBufferedBytes = 10, cfg_SendChanCapacity = 2,
     cfg_ID = ''c1'', cfg_MaxConsecutiveDrops = 2\<rparr>"

lemmas conn_eval = NewConn_def demo_cfg_def conn_defs

theorem conn_reachable_inv_witness:
  "bufBytes (Send ''ab'' (NewConn ''u'' demo_cfg)) = 2"
proof -
  have "(conn_step True)\<^sup>*\<^sup>* (NewConn ''u'' demo_cfg) (Send ''ab'' (NewConn ''u'' demo_cfg))"
    by (rule r_into_rtranclp) (rule step_Send)
  from conn_reachable_inv [OF this] show ?thesis by (simp add: conn_eval)
qed

section \<open>Order on the socket\<close>

text \<open>What was accepted so far: written, or still queued. A close frame with code 0 goes out as 1000.\<close>

definition norm_close :: "outFrame \<Rightarrow> outFrame" where
  "norm_close f = (if kind f = frameClose \<and> closeCode f = 0 then f\<lparr>closeCode := 1000\<rparr> else f)"

definition accepted :: "Conn \<Rightarrow> outFrame list" where
  "accepted c = wire c @ map norm_close (sendCh c)"

lemma writer_step_accepted:
  assumes "writer_step ok c = Some c'" and "\<forall>f. ok f"
  shows "accepted c' = accepted c"
proof -
  from assms obtain f fs where q: "sendCh c = f # fs" and "\<not> drained c"
    by (auto simp: writer_step_def split: list.splits if_splits)
  with assms show ?thesis
    by (cases "kind f") (auto simp: writer_step_def accepted_def norm_close_def Let_def)
qed

lemma closeWith_accepted: "prefix (accepted c) (accepted (closeWith code reason category c))"
  by (auto simp: closeWith_def accepted_def enqueue_def room_def Let_def)

lemma recordDrop_accepted: "prefix (accepted c) (accepted (recordDrop reason c))"
  using closeWith_accepted [of "c\<lparr>framesDropped := framesDropped c @ [reason], consecDrops := consecDrops c + 1\<rparr>"]
  by (auto simp: recordDrop_def Let_def accepted_def)

lemma Send_accepted: "prefix (accepted c) (accepted (Send msg c))"
  using recordDrop_accepted [of c]
  by (auto simp: Send_def SendReporting_def Let_def) (auto simp: accepted_def enqueue_def)

lemma conn_step_accepted: "conn_step True c c' \<Longrightarrow> prefix (accepted c) (accepted c')"
proof (induction rule: conn_step.induct)
  case (step_SendNow pick ctxDone msg c c')
  then show ?case
    by (auto simp: SendNow_def accepted_def enqueue_def Let_def split: if_splits)
next
  case (step_Ping c)
  then show ?case by (auto simp: Ping_def accepted_def enqueue_def)
next
  case (step_write ok c c')
  then show ?case by (simp add: writer_step_accepted)
qed (simp_all add: Send_accepted closeWith_accepted)

text \<open>
  Order on the socket (C15). As long as the socket accepts the writes, what was written followed by
  what is queued only ever grows at its end, through every interleaving: frames go out in the
  order they were accepted, none is lost from the queue and none is written twice.
\<close>

theorem conn_fifo:
  assumes "(conn_step True)\<^sup>*\<^sup>* c c'"
  shows "prefix (accepted c) (accepted c')"
  using assms
  by (induction rule: rtranclp_induct) (auto intro: prefix_order.trans dest: conn_step_accepted)

theorem conn_fifo_witness:
  "prefix (accepted (Send ''a'' (NewConn ''u'' demo_cfg)))
     (accepted (Close 1001 ''bye'' (Send ''a'' (NewConn ''u'' demo_cfg))))"
proof -
  let ?c = "Send ''a'' (NewConn ''u'' demo_cfg)"
  have "(conn_step True)\<^sup>*\<^sup>* ?c (closeWith 1001 ''bye'' CloseServer ?c)"
    by (rule r_into_rtranclp) (rule step_close)
  from conn_fifo [OF this] show ?thesis by (simp add: Close_def)
qed

section \<open>Draining\<close>

text \<open>A socket that accepts every write.\<close>

abbreviation all_ok :: "outFrame \<Rightarrow> bool" where
  "all_ok \<equiv> \<lambda>_. True"

lemma runWriter_drains:
  assumes "\<not> drained c" and "closes (sendCh c) \<noteq> 0"
  shows "drained (runWriter all_ok c) \<and> closes (wire (runWriter all_ok c)) \<noteq> 0"
  using assms
proof (induction "length (sendCh c)" arbitrary: c rule: less_induct)
  case less
  then obtain f fs where q: "sendCh c = f # fs" by (cases "sendCh c") auto
  then obtain c' where w: "writer_step all_ok c = Some c'"
    using less.prems by (cases "kind f") (auto simp: writer_step_def Let_def)
  then have run: "runWriter all_ok c = runWriter all_ok c'" by (simp add: runWriter.simps [of _ c])
  show ?case
  proof (cases "kind f = frameClose")
    case True
    with w q less.prems have "drained c' \<and> closes (wire c') \<noteq> 0" by (auto simp: writer_step_def Let_def)
    moreover then have "writer_step all_ok c' = None" by (simp add: writer_step_def)
    ultimately show ?thesis unfolding run by (simp add: runWriter.simps [of _ c'])
  next
    case False
    with w q less.prems have "\<not> drained c' \<and> closes (sendCh c') \<noteq> 0"
      by (cases "kind f") (auto simp: writer_step_def Let_def)
    with less.hyps [OF writer_step_shorter [OF w]] show ?thesis unfolding run by simp
  qed
qed

lemma runWriter_accepted: "accepted (runWriter all_ok c) = accepted c"
proof (induction "length (sendCh c)" arbitrary: c rule: less_induct)
  case less
  show ?case
  proof (cases "writer_step all_ok c")
    case None
    then show ?thesis by (simp add: runWriter.simps [of _ c])
  next
    case (Some c')
    with less.hyps [OF writer_step_shorter [OF Some]] writer_step_accepted [OF Some] show ?thesis
      by (simp add: runWriter.simps [of _ c])
  qed
qed

lemma runWriter_inv: "conn_inv c \<Longrightarrow> conn_inv (runWriter ok c)"
proof (induction ok c rule: runWriter.induct)
  case (1 ok c)
  then show ?case
    by (subst runWriter.simps) (auto split: option.splits intro: writer_step_inv)
qed

lemma closes_norm [simp]: "closes (map norm_close fs) = closes fs"
  by (induction fs) (auto simp: norm_close_def)

lemma last_close_unique:
  assumes "xs @ ys = zs @ [f]" and "closes zs = 0" and "closes xs \<noteq> 0" and "kind (last xs) = frameClose"
  shows "xs = zs @ [f]"
proof (cases ys rule: rev_cases)
  case Nil
  with assms(1) show ?thesis by simp
next
  case (snoc ys' g)
  with assms(1) have "xs @ ys' = zs" by simp
  with assms(2,3) show ?thesis by auto
qed

text \<open>
  A graceful close. When the queue of an open connection has room, closing it and letting the
  writer run on a socket that accepts the writes ends the writer, with exactly the frames
  accepted before the close on the socket, in order, and the close frame with the caller's code
  after them.
\<close>

theorem graceful_close:
  assumes inv: "conn_inv c" and op: "\<not> isClosed c" "\<not> drained c" and rm: "room c" and code: "code \<noteq> 0"
  shows "drained (runWriter all_ok (Close code reason c))
    \<and> wire (runWriter all_ok (Close code reason c))
        = accepted c @ [\<lparr>kind = frameClose, payload = reason, closeCode = code\<rparr>]"
proof -
  let ?f = "\<lparr>kind = frameClose, payload = reason, closeCode = code\<rparr>"
  let ?c1 = "Close code reason c" and ?w = "runWriter all_ok (Close code reason c)"
  have c1: "accepted ?c1 = accepted c @ [?f]" "\<not> drained ?c1" "closes (sendCh ?c1) \<noteq> 0"
    using op rm code
    by (simp_all add: Close_def closeWith_def accepted_def enqueue_def norm_close_def room_def Let_def)
  have "conn_inv ?w" unfolding Close_def by (rule runWriter_inv [OF closeWith_inv [OF inv]])
  moreover have dr: "drained ?w \<and> closes (wire ?w) \<noteq> 0" by (rule runWriter_drains [OF c1(2,3)])
  ultimately have lst: "kind (last (wire ?w)) = frameClose" by (simp add: conn_inv_def)
  have "wire ?w @ map norm_close (sendCh ?w) = accepted c @ [?f]"
    using runWriter_accepted [of ?c1] c1(1) by (simp add: accepted_def)
  moreover have "closes (accepted c) = 0" using inv op by (simp add: conn_inv_def accepted_def)
  ultimately have "wire ?w = accepted c @ [?f]" using last_close_unique dr lst by blast
  with dr show ?thesis by simp
qed

theorem graceful_close_witness:
  "wire (runWriter all_ok (Close 1001 ''bye'' (Send ''a'' (NewConn ''u'' demo_cfg))))
     = [text_frame ''a'', \<lparr>kind = frameClose, payload = ''bye'', closeCode = 1001\<rparr>]"
proof -
  let ?c = "Send ''a'' (NewConn ''u'' demo_cfg)"
  have "conn_inv ?c" by (simp add: Send_def SendReporting_inv NewConn_inv)
  moreover have "\<not> isClosed ?c" "\<not> drained ?c" "room ?c" by (simp_all add: conn_eval)
  moreover have "accepted ?c = [text_frame ''a'']" by (simp add: conn_eval accepted_def norm_close_def)
  ultimately show ?thesis using graceful_close [of ?c 1001 "''bye''"] by simp
qed

section \<open>Slow consumers\<close>

text \<open>The results and the state after offering a list of messages.\<close>

fun send_all :: "string list \<Rightarrow> Conn \<Rightarrow> bool list \<times> Conn" where
  "send_all [] c = ([], c)"
| "send_all (m # ms) c =
     (let (b, c1) = SendReporting m c; (bs, c2) = send_all ms c1 in (b # bs, c2))"

lemma SendReporting_dropped:
  assumes "SendReporting m c = (False, c')" and "\<not> isClosed c" and "0 < maxDrops c"
  shows "if consecDrops c + 1 < maxDrops c
    then \<not> isClosed c' \<and> consecDrops c' = consecDrops c + 1 \<and> maxDrops c' = maxDrops c
    else isClosed c' \<and> closeReason c' = CloseSlowConsumer"
  using assms by (auto simp: conn_defs split: if_splits)

lemma SendReporting_closed: "isClosed c \<Longrightarrow> SendReporting m c = (False, c)"
  by (simp add: SendReporting_def)

lemma send_all_dropped:
  assumes "send_all ms c = (replicate (length ms) False, c')" and "\<not> isClosed c" and "0 < maxDrops c"
    and "consecDrops c < maxDrops c"
  shows "if consecDrops c + int (length ms) < maxDrops c
    then \<not> isClosed c' \<and> consecDrops c' = consecDrops c + int (length ms)
    else isClosed c' \<and> closeReason c' = CloseSlowConsumer"
  using assms
proof (induction ms arbitrary: c)
  case Nil
  then show ?case by simp
next
  case (Cons m ms)
  obtain b c1 where s1: "SendReporting m c = (b, c1)" by fastforce
  obtain bs c2 where s2: "send_all ms c1 = (bs, c2)" by fastforce
  from Cons.prems(1) s1 s2 have b: "b = False" "bs = replicate (length ms) False" "c2 = c'" by simp_all
  note d = SendReporting_dropped [OF s1 [unfolded b] Cons.prems(2,3)]
  show ?case
  proof (cases "consecDrops c + 1 < maxDrops c")
    case True
    with d Cons.IH [of c1] s2 b Cons.prems show ?thesis by (auto simp: algebra_simps)
  next
    case False
    have stay: "send_all xs c1 = (replicate (length xs) False, c1)" if "isClosed c1" for xs
      using that by (induction xs) (simp_all add: SendReporting_closed)
    from False d have "isClosed c1 \<and> closeReason c1 = CloseSlowConsumer" by simp
    with False stay [of ms] s2 b Cons.prems show ?thesis by auto
  qed
qed

text \<open>
  Eviction. On an open connection with a drop budget and no drop so far, a run of refused sends
  closes the connection as a slow consumer exactly when the run is as long as the budget; a
  shorter run leaves it open, and an accepted send in between starts the count again.
\<close>

theorem slow_consumer_eviction:
  assumes "\<not> isClosed c" and "0 < maxDrops c" and "SendReporting m c = (True, c1)"
    and "send_all ms c1 = (replicate (length ms) False, c2)"
  shows "(isClosed c2 \<longleftrightarrow> maxDrops c \<le> int (length ms))
    \<and> (isClosed c2 \<longrightarrow> closeReason c2 = CloseSlowConsumer)"
proof -
  from assms(1,3) have "\<not> isClosed c1 \<and> maxDrops c1 = maxDrops c \<and> consecDrops c1 = 0"
    by (auto simp: conn_defs split: if_splits)
  with send_all_dropped [OF assms(4)] assms(2) show ?thesis by (auto split: if_splits)
qed

theorem slow_consumer_eviction_witness:
  "let c = NewConn ''u'' demo_cfg; c1 = snd (SendReporting ''a'' c);
       c2 = snd (send_all [''0123456789'', ''0123456789''] c1)
   in isClosed c2 \<and> closeReason c2 = CloseSlowConsumer"
proof -
  let ?c = "NewConn ''u'' demo_cfg"
  let ?c1 = "snd (SendReporting ''a'' ?c)" and ?ms = "[''0123456789'', ''0123456789'']"
  have "SendReporting ''a'' ?c = (True, ?c1)" "\<not> isClosed ?c" "0 < maxDrops ?c" "maxDrops ?c = 2"
    by (simp_all add: conn_eval)
  moreover have "send_all ?ms ?c1 = (replicate (length ?ms) False, snd (send_all ?ms ?c1))"
    by (simp add: conn_eval)
  ultimately show ?thesis
    using slow_consumer_eviction [of ?c "''a''" ?c1 ?ms "snd (send_all ?ms ?c1)"] by (simp add: Let_def)
qed

text \<open>Closed without a close frame: no step of a live socket ends the writer any more.\<close>

definition stuck_open :: "Conn \<Rightarrow> bool" where
  "stuck_open c \<longleftrightarrow> isClosed c \<and> \<not> drained c \<and> closes (wire c @ sendCh c) = 0"

lemma writer_step_stuck: "writer_step ok c = Some c' \<Longrightarrow> \<forall>f. ok f \<Longrightarrow> stuck_open c \<Longrightarrow> stuck_open c'"
  by (auto simp: stuck_open_def writer_step_def Let_def split: list.splits frameKind.splits if_splits)

lemma conn_step_stuck: "conn_step True c c' \<Longrightarrow> stuck_open c \<Longrightarrow> stuck_open c'"
proof (induction rule: conn_step.induct)
  case (step_SendNow pick ctxDone msg c c')
  then show ?case
    by (auto simp: stuck_open_def SendNow_def enqueue_def text_frame_def Let_def split: if_splits)
next
  case (step_write ok c c')
  then show ?case using writer_step_stuck by simp
qed (auto simp: stuck_open_def Send_def SendReporting_def Ping_def closeWith_def)

interpretation stuck_sys: inv_system "\<lambda>_. True" "\<lambda>_. stuck_open" "\<lambda>_. conn_step True" "\<lambda>_. stuck_open"
  by unfold_locales (auto intro: conn_step_stuck)

text \<open>
  An eviction the peer never hears of (C39). When the drop that exhausts the budget finds the queue
  full, the connection is marked closed but its close frame does not fit and is discarded. If
  the peer then reads again, the writer empties the queue and waits for ever: through every
  further interleaving on a live socket it does not return, so the socket is not closed, and no
  close frame is queued or sent.
\<close>

theorem eviction_of_full_queue_never_closes:
  assumes "conn_inv c" and "\<not> isClosed c" and "\<not> drained c" and "\<not> room c"
    and "0 < maxDrops c" and "maxDrops c \<le> consecDrops c + 1"
    and "(conn_step True)\<^sup>*\<^sup>* (Send msg c) c'"
  shows "isClosed (Send msg c) \<and> \<not> drained c' \<and> closes (accepted c') = 0"
proof -
  from assms(1-6) have st: "stuck_open (Send msg c)"
    by (auto simp: conn_inv_def stuck_open_def conn_defs)
  from stuck_sys.run_inv [OF _ assms(7) st] have "stuck_open c'" by blast
  with st show ?thesis by (simp add: stuck_open_def accepted_def)
qed

theorem eviction_of_full_queue_never_closes_witness:
  "let c = (snd (send_all [''a'', ''b'', ''c''] (NewConn ''u'' demo_cfg)))
   in isClosed (Send ''d'' c) \<and> \<not> drained (runWriter all_ok (Send ''d'' c))"
proof -
  let ?c = "snd (send_all [''a'', ''b'', ''c''] (NewConn ''u'' demo_cfg))"
  have step: "(conn_step True)\<^sup>*\<^sup>* d (runWriter all_ok d)" for d
  proof (induction "length (sendCh d)" arbitrary: d rule: less_induct)
    case less
    show ?case
    proof (cases "writer_step all_ok d")
      case None
      then show ?thesis by (simp add: runWriter.simps [of _ d])
    next
      case (Some d')
      then have "conn_step True d d'" by (intro step_write) auto
      with less.hyps [OF writer_step_shorter [OF Some]] Some show ?thesis
        by (simp add: runWriter.simps [of _ d] converse_rtranclp_into_rtranclp)
    qed
  qed
  have "conn_inv ?c" by (simp add: conn_inv_def conn_eval)
  moreover have "\<not> isClosed ?c" "\<not> drained ?c" "\<not> room ?c" "0 < maxDrops ?c"
    "maxDrops ?c \<le> consecDrops ?c + 1" by (simp_all add: conn_eval)
  ultimately show ?thesis
    using eviction_of_full_queue_never_closes [OF _ _ _ _ _ _ step, of ?c "''d''"] by (simp add: Let_def)
qed

section \<open>Watchers and the reader\<close>

text \<open>
  \<^verbatim>\<open>runExpiryWatcher\<close>: \<open>None\<close> is the zero time, \<open>now\<close> the clock when it starts, and the event the
  case of its select that becomes ready. 1008 is \<^verbatim>\<open>websocket.ClosePolicyViolation\<close>.
\<close>

datatype expiry_event = ExpCtxDone | ExpClosed | ExpTimer

definition runExpiryWatcher :: "int option \<Rightarrow> int \<Rightarrow> expiry_event \<Rightarrow> Conn \<Rightarrow> Conn" where
  "runExpiryWatcher expiresAt now ev c =
     (case expiresAt of
        None \<Rightarrow> c
      | Some t \<Rightarrow>
          if t - now \<le> 0 then closeWith 1008 ''token expired'' CloseTokenExpired c
          else (case ev of
                  ExpCtxDone \<Rightarrow> c
                | ExpClosed \<Rightarrow> c
                | ExpTimer \<Rightarrow> closeWith 1008 ''token expired'' CloseTokenExpired c))"

text \<open>
  \<^verbatim>\<open>runIdleWatcher\<close> wakes up with an event at a time. \<^verbatim>\<open>timer.Reset(idle)\<close> moves the deadline; the
  timer's case is ready only once the deadline has passed, and a tick of the ping ticker only
  exists with \<^verbatim>\<open>keepAlive\<close>. At the end of the list the watcher is still waiting.
\<close>

datatype idle_event = IdleCtxDone | IdleClosed | IdleReset | IdlePing | IdleTimer

fun idle_loop :: "int \<Rightarrow> bool \<Rightarrow> int \<Rightarrow> (int \<times> idle_event) list \<Rightarrow> Conn \<Rightarrow> Conn" where
  "idle_loop idle keepAlive deadline [] c = c"
| "idle_loop idle keepAlive deadline ((t, ev) # evs) c =
     (case ev of
        IdleCtxDone \<Rightarrow> c
      | IdleClosed \<Rightarrow> c
      | IdleReset \<Rightarrow> idle_loop idle keepAlive (t + idle) evs c
      | IdlePing \<Rightarrow> idle_loop idle keepAlive deadline evs (if keepAlive then Ping c else c)
      | IdleTimer \<Rightarrow>
          if deadline \<le> t then closeWith 1000 ''idle timeout'' CloseIdleTimeout c
          else idle_loop idle keepAlive deadline evs c)"

definition runIdleWatcher :: "int \<Rightarrow> bool \<Rightarrow> int \<Rightarrow> (int \<times> idle_event) list \<Rightarrow> Conn \<Rightarrow> Conn" where
  "runIdleWatcher idle keepAlive start evs c =
     (if idle \<le> 0 then c else idle_loop idle keepAlive (start + idle) evs c)"

text \<open>
  \<^verbatim>\<open>runReader\<close> over what \<^verbatim>\<open>ReadMessage\<close> returns: a message, or an error that is an orderly close
  or not. It returns \<^verbatim>\<open>readErr\<close>; \<open>dispatch\<close> runs on the state of the caller.
\<close>

datatype read_event = ReadMsg string | ReadError bool

fun runReader :: "(string \<Rightarrow> 'w \<Rightarrow> 'w) \<Rightarrow> read_event list \<Rightarrow> 'w \<Rightarrow> bool \<times> 'w" where
  "runReader dispatch [] w = (False, w)"
| "runReader dispatch (ReadError orderly # evs) w = (\<not> orderly, w)"
| "runReader dispatch (ReadMsg msg # evs) w = runReader dispatch evs (dispatch msg w)"

text \<open>The tail of \<^verbatim>\<open>Run\<close>, once the reader returned.\<close>

definition Run_teardown :: "bool \<Rightarrow> Conn \<Rightarrow> Conn" where
  "Run_teardown readErr c = closeWith 1000 [] (if readErr then CloseReadError else ClosePeer) c"

lemma Ping_open: "isClosed (Ping c) = isClosed c"
  by (simp add: Ping_def enqueue_def)

lemma idle_loop_quiet:
  assumes "sorted (map fst evs)" and "\<forall>e \<in> set evs. deadline \<le> fst e + idle"
    and "\<not> isClosed c" and "isClosed (idle_loop idle keepAlive deadline evs c)"
  shows "\<exists>pre t post. evs = pre @ (t, IdleTimer) # post \<and> deadline \<le> t
    \<and> (\<forall>t'. (t', IdleReset) \<in> set pre \<longrightarrow> t' + idle \<le> t)"
  using assms
proof (induction idle keepAlive deadline evs c rule: idle_loop.induct)
  case (1 idle keepAlive deadline c)
  then show ?case by simp
next
  case (2 idle keepAlive deadline t ev evs c)
  have quiet: "\<exists>pre u post. (t, ev) # evs = pre @ (u, IdleTimer) # post \<and> deadline \<le> u
      \<and> (\<forall>t'. (t', IdleReset) \<in> set pre \<longrightarrow> t' + idle \<le> u)"
    if "\<exists>pre u post. evs = pre @ (u, IdleTimer) # post \<and> d \<le> u
        \<and> (\<forall>t'. (t', IdleReset) \<in> set pre \<longrightarrow> t' + idle \<le> u)"
      and "deadline \<le> d" and "ev = IdleReset \<longrightarrow> d = t + idle" for d
  proof -
    from that(1) obtain pre u post where q: "evs = pre @ (u, IdleTimer) # post" "d \<le> u"
      "\<forall>t'. (t', IdleReset) \<in> set pre \<longrightarrow> t' + idle \<le> u" by blast
    with that(2,3) show ?thesis by (intro exI [of _ "(t, ev) # pre"] exI [of _ u] exI [of _ post]) auto
  qed
  show ?case
  proof (cases ev)
    case IdleReset
    with "2.prems" "2.IH"(1) show ?thesis by (intro quiet [of "t + idle"]) auto
  next
    case IdlePing
    with "2.prems" "2.IH"(2) show ?thesis by (intro quiet [of deadline]) (auto simp: Ping_open split: if_splits)
  next
    case IdleTimer
    show ?thesis
    proof (cases "deadline \<le> t")
      case True
      with IdleTimer show ?thesis by (intro exI [of _ "[]"]) auto
    next
      case False
      with IdleTimer "2.prems" "2.IH"(3) show ?thesis by (intro quiet [of deadline]) auto
    qed
  qed (use "2.prems" in auto)
qed

text \<open>
  Idle timeout. The idle watcher closes an open connection only after a quiet period: the
  timer fired at a time that lies at least the idle limit after the watcher's start and after
  every activity it had seen. A client that is active more often than the limit is never closed.
\<close>

theorem idle_timeout_only_when_quiet:
  assumes "sorted (map fst evs)" and "\<forall>e \<in> set evs. start \<le> fst e" and "\<not> isClosed c"
    and "isClosed (runIdleWatcher idle keepAlive start evs c)"
  shows "0 < idle \<and> (\<exists>pre t post. evs = pre @ (t, IdleTimer) # post \<and> start + idle \<le> t
    \<and> (\<forall>t'. (t', IdleReset) \<in> set pre \<longrightarrow> t' + idle \<le> t))"
  using assms idle_loop_quiet [of evs "start + idle" idle c keepAlive]
  by (auto simp: runIdleWatcher_def split: if_splits)

theorem idle_timeout_only_when_quiet_witness:
  "let evs = [(3, IdleReset), (10, IdleTimer), (13, IdleTimer)];
       c = NewConn ''u'' demo_cfg
   in isClosed (runIdleWatcher 10 False 0 evs c)
    \<and> (\<exists>pre t post. evs = pre @ (t, IdleTimer) # post \<and> (10 :: int) \<le> t
         \<and> (\<forall>t'. (t', IdleReset) \<in> set pre \<longrightarrow> t' + 10 \<le> t))"
proof -
  let ?evs = "[(3, IdleReset), (10, IdleTimer), (13, IdleTimer)] :: (int \<times> idle_event) list"
  let ?c = "NewConn ''u'' demo_cfg"
  have "isClosed (runIdleWatcher 10 False 0 ?evs ?c)" by (simp add: runIdleWatcher_def conn_eval)
  moreover have "\<not> isClosed ?c" by (simp add: conn_eval)
  ultimately show ?thesis
    using idle_timeout_only_when_quiet [of ?evs 0 ?c 10 False] unfolding Let_def by simp
qed

end
