(* ===== verification/Subscriber.thy ===== *)
theory Subscriber
  imports Json
begin

text \<open>
  The interfaces between the bus and the connections: \<^verbatim>\<open>Subscriber\<close>, \<^verbatim>\<open>DropReporter\<close>,
  \<^verbatim>\<open>Identified\<close> and \<^verbatim>\<open>BroadcastTarget\<close> of \<^verbatim>\<open>bus/bus.go\<close> and \<^verbatim>\<open>bus/judge.go\<close>. A subscriber
  is a reference \<open>'c\<close> into a world \<open>'w\<close>; a type assertion is a field that may be absent. The
  locale states what the bus relies on: a send is local to the subscriber it addresses, and
  \<^verbatim>\<open>SendReporting\<close> is \<^verbatim>\<open>Send\<close> with the outcome. Its lemmas describe the fan-out of one frame to
  many subscribers. The locale of the broadcast target extends it.
\<close>

record ('c, 'w) Subscriber =
  sub_Send :: "'c \<Rightarrow> json \<Rightarrow> 'w \<Rightarrow> 'w"
  sub_SendReporting :: "'c \<Rightarrow> (json \<Rightarrow> 'w \<Rightarrow> bool \<times> 'w) option"
  sub_ID :: "'w \<Rightarrow> 'c \<Rightarrow> string option"

record 'w BroadcastTarget =
  bt_SendToUser :: "string \<Rightarrow> json \<Rightarrow> 'w \<Rightarrow> 'w"
  bt_SendToConn :: "string \<Rightarrow> json \<Rightarrow> 'w \<Rightarrow> 'w"

text \<open>
  \<open>st\<close> reads the state of one subscriber; \<open>receive\<close> is what a send does to it and
  \<open>accepts\<close> whether it is queued.
\<close>

locale subscribers =
  fixes S :: "('c, 'w) Subscriber"
    and st :: "'w \<Rightarrow> 'c \<Rightarrow> 'q"
    and receive :: "json \<Rightarrow> 'q \<Rightarrow> 'q"
    and accepts :: "json \<Rightarrow> 'q \<Rightarrow> bool"
  assumes send_self: "st (sub_Send S c m w) c = receive m (st w c)"
    and send_other: "d \<noteq> c \<Longrightarrow> st (sub_Send S c m w) d = st w d"
    and send_id: "sub_ID S (sub_Send S c m w) d = sub_ID S w d"
    and reporting: "sub_SendReporting S c = Some f \<Longrightarrow> f m w = (accepts m (st w c), sub_Send S c m w)"
begin

lemma send_all_state:
  "distinct cs \<Longrightarrow> st (fold (\<lambda>c. sub_Send S c m) cs w) d = (if d \<in> set cs then receive m (st w d) else st w d)"
proof (induction cs arbitrary: w)
  case Nil
  then show ?case by simp
next
  case (Cons c cs)
  then show ?case by (cases "d = c") (auto simp: send_self send_other)
qed

lemma send_frames_state:
  "st (fold (sub_Send S c) ms w) d = (if d = c then fold receive ms (st w c) else st w d)"
  by (induction ms arbitrary: w) (auto simp: send_self send_other)

end

text \<open>
  A broadcast target reaches the same subscribers by the user or by the ID of a connection. \<open>of_user\<close> and
  \<open>of_conn\<close> say which; the table behind them lists nobody twice in the worlds that are \<open>wf\<close>.
\<close>

locale broadcast_target = subscribers S st receive accepts
  for S :: "('c, 'w) Subscriber" and st :: "'w \<Rightarrow> 'c \<Rightarrow> 'q" and receive accepts +
  fixes T :: "'w BroadcastTarget"
    and wf :: "'w \<Rightarrow> bool"
    and of_user :: "'w \<Rightarrow> string \<Rightarrow> 'c list"
    and of_conn :: "'w \<Rightarrow> string \<Rightarrow> 'c option"
  assumes to_user: "bt_SendToUser T u m w = fold (\<lambda>c. sub_Send S c m) (of_user w u) w"
    and to_conn: "bt_SendToConn T i m w = (case of_conn w i of None \<Rightarrow> w | Some c \<Rightarrow> sub_Send S c m w)"
    and user_distinct: "wf w \<Longrightarrow> distinct (of_user w u)"
begin

lemma to_user_state:
  "wf w \<Longrightarrow> st (bt_SendToUser T u m w) d = (if d \<in> set (of_user w u) then receive m (st w d) else st w d)"
  by (simp add: to_user send_all_state user_distinct)

lemma to_conn_state:
  "st (bt_SendToConn T i m w) d = (if of_conn w i = Some d then receive m (st w d) else st w d)"
  by (auto simp: to_conn send_self send_other split: option.splits)

end

end
