(* ===== verification/Hub.thy ===== *)
theory Hub
  imports Conn Subscriber "HOL-Library.AList"
begin

text \<open>
  The hub of \<^verbatim>\<open>internal/connection/hub.go\<close>: every active connection of one instance, grouped by
  user. Connections are shared by pointer, so the world is a heap of connections with the hub's
  map beside it; a map from users to slices is an association list in iteration order. The hub
  provides the bus with its subscribers and its broadcast target: the interpretation \<open>hub_subs\<close>
  discharges the laws of \<open>subscribers\<close> for \<^verbatim>\<open>Conn.Send\<close> and \<^verbatim>\<open>Conn.SendReporting\<close>.
\<close>

type_synonym cref = nat

record hub_world =
  heap :: "cref \<Rightarrow> Conn"
  users :: "(string \<times> cref list) list"

definition user_conns :: "hub_world \<Rightarrow> string \<Rightarrow> cref list" where
  "user_conns w u = (case map_of (users w) u of None \<Rightarrow> [] | Some cs \<Rightarrow> cs)"

section \<open>Operations\<close>

definition Add :: "cref \<Rightarrow> hub_world \<Rightarrow> bool \<times> hub_world" where
  "Add c w =
     (let u = userKey (heap w c); cs = user_conns w u in
      (cs = [], w\<lparr>users := AList.update u (cs @ [c]) (users w)\<rparr>))"

definition Remove :: "cref \<Rightarrow> hub_world \<Rightarrow> bool \<times> hub_world" where
  "Remove c w =
     (let u = userKey (heap w c); out = filter (\<lambda>x. x \<noteq> c) (user_conns w u) in
      if out = [] then (True, w\<lparr>users := AList.delete u (users w)\<rparr>)
      else (False, w\<lparr>users := AList.update u out (users w)\<rparr>))"

definition conn_Send :: "cref \<Rightarrow> string \<Rightarrow> hub_world \<Rightarrow> hub_world" where
  "conn_Send c msg w = w\<lparr>heap := (heap w)(c := Send msg (heap w c))\<rparr>"

definition conn_SendReporting :: "cref \<Rightarrow> string \<Rightarrow> hub_world \<Rightarrow> bool \<times> hub_world" where
  "conn_SendReporting c msg w =
     (let (b, c') = SendReporting msg (heap w c) in (b, w\<lparr>heap := (heap w)(c := c')\<rparr>))"

definition SendToUser :: "string \<Rightarrow> string \<Rightarrow> hub_world \<Rightarrow> hub_world" where
  "SendToUser u msg w = fold (\<lambda>c. conn_Send c msg) (user_conns w u) w"

definition Snapshot :: "hub_world \<Rightarrow> cref list" where
  "Snapshot w = concat (map snd (users w))"

definition SendToConn :: "string \<Rightarrow> string \<Rightarrow> hub_world \<Rightarrow> hub_world" where
  "SendToConn connID msg w =
     (case find (\<lambda>c. conn_id (heap w c) = connID) (Snapshot w) of
        None \<Rightarrow> w
      | Some c \<Rightarrow> conn_Send c msg w)"

text \<open>\<^verbatim>\<open>WaitDrained\<close> when its context ends: the connections whose writer has not returned by then.\<close>

definition WaitDrained :: "cref list \<Rightarrow> hub_world \<Rightarrow> nat" where
  "WaitDrained cs w = length (filter (\<lambda>c. \<not> drained (heap w c)) cs)"

text \<open>
  The interfaces the bus sees. \<^verbatim>\<open>json.Marshal\<close>, which renders a frame, is the argument
  \<open>marshal\<close>: only the length of its result matters to a connection.
\<close>

definition hub_subscribers :: "(json \<Rightarrow> string) \<Rightarrow> (cref, hub_world) Subscriber" where
  "hub_subscribers marshal =
     \<lparr>sub_Send = (\<lambda>c j. conn_Send c (marshal j)),
      sub_SendReporting = (\<lambda>c. Some (\<lambda>j. conn_SendReporting c (marshal j))),
      sub_ID = (\<lambda>w c. Some (conn_id (heap w c)))\<rparr>"

definition hub_target :: "(json \<Rightarrow> string) \<Rightarrow> hub_world BroadcastTarget" where
  "hub_target marshal =
     \<lparr>bt_SendToUser = (\<lambda>u j. SendToUser u (marshal j)),
      bt_SendToConn = (\<lambda>i j. SendToConn i (marshal j))\<rparr>"

section \<open>The hub provides subscribers\<close>

lemma conn_frame:
  "conn_id (closeWith code reason category c) = conn_id c"
  "userKey (closeWith code reason category c) = userKey c"
  "conn_id (recordDrop r c) = conn_id c" "userKey (recordDrop r c) = userKey c"
  "conn_id (Send msg c) = conn_id c" "userKey (Send msg c) = userKey c"
  by (simp_all add: conn_defs)

interpretation hub_subs: subscribers "hub_subscribers marshal" heap
  "\<lambda>j. Send (marshal j)" "\<lambda>j c. fst (SendReporting (marshal j) c)"
  by unfold_locales
    (auto simp: hub_subscribers_def conn_Send_def conn_SendReporting_def conn_frame Let_def split: prod.splits,
      simp add: Send_def)

section \<open>Invariant\<close>

definition hub_inv :: "hub_world \<Rightarrow> bool" where
  "hub_inv w \<longleftrightarrow> distinct (map fst (users w))
     \<and> (\<forall>u cs. map_of (users w) u = Some cs \<longrightarrow>
          cs \<noteq> [] \<and> distinct cs \<and> (\<forall>c \<in> set cs. userKey (heap w c) = u))"

lemma hub_inv_user_conns:
  assumes "hub_inv w"
  shows "distinct (user_conns w u)" and "c \<in> set (user_conns w u) \<Longrightarrow> userKey (heap w c) = u"
  using assms by (auto simp: hub_inv_def user_conns_def split: option.splits)

lemma Snapshot_iff:
  assumes "hub_inv w"
  shows "c \<in> set (Snapshot w) \<longleftrightarrow> c \<in> set (user_conns w (userKey (heap w c)))"
proof
  assume "c \<in> set (Snapshot w)"
  then obtain u cs where "(u, cs) \<in> set (users w)" "c \<in> set cs" by (auto simp: Snapshot_def)
  with assms have m: "map_of (users w) u = Some cs" by (simp add: hub_inv_def)
  with assms \<open>c \<in> set cs\<close> have "userKey (heap w c) = u" by (auto simp: hub_inv_def)
  with m \<open>c \<in> set cs\<close> show "c \<in> set (user_conns w (userKey (heap w c)))" by (simp add: user_conns_def)
next
  assume "c \<in> set (user_conns w (userKey (heap w c)))"
  then obtain cs where "map_of (users w) (userKey (heap w c)) = Some cs" "c \<in> set cs"
    by (cases "map_of (users w) (userKey (heap w c))") (simp_all add: user_conns_def)
  then show "c \<in> set (Snapshot w)" by (force simp: Snapshot_def dest: map_of_SomeD)
qed

lemma user_conns_Add:
  "user_conns (snd (Add c w)) u = user_conns w u @ (if u = userKey (heap w c) then [c] else [])"
  by (simp add: Add_def Let_def user_conns_def update_conv)

lemma user_conns_Remove:
  "user_conns (snd (Remove c w)) u =
     (if u = userKey (heap w c) then filter (\<lambda>x. x \<noteq> c) (user_conns w u) else user_conns w u)"
  by (simp add: Remove_def Let_def user_conns_def update_conv delete_conv)

lemma hub_inv_upd:
  assumes inv: "hub_inv w" and keys: "distinct (map fst us)"
    and us: "map_of us = (map_of (users w))(u := x)"
    and x: "x = None \<or> (\<exists>cs. x = Some cs \<and> cs \<noteq> [] \<and> distinct cs \<and> (\<forall>c \<in> set cs. userKey (heap w c) = u))"
  shows "hub_inv (w\<lparr>users := us\<rparr>)"
proof -
  have "cs \<noteq> [] \<and> distinct cs \<and> (\<forall>c \<in> set cs. userKey (heap w c) = v)" if "map_of us v = Some cs" for v cs
    using that inv x unfolding us hub_inv_def by (cases "v = u") auto
  with keys show ?thesis by (simp add: hub_inv_def del: map_of_eq_Some_iff)
qed

lemma hub_inv_update:
  assumes "hub_inv w" and "cs \<noteq> []" and "distinct cs" and "\<forall>c \<in> set cs. userKey (heap w c) = u"
  shows "hub_inv (w\<lparr>users := AList.update u cs (users w)\<rparr>)"
proof (rule hub_inv_upd [OF assms(1)])
  show "distinct (map fst (AList.update u cs (users w)))"
    using assms(1) by (simp add: hub_inv_def distinct_update)
  show "map_of (AList.update u cs (users w)) = (map_of (users w))(u := Some cs)" by (rule update_conv')
qed (use assms in blast)

lemma hub_inv_delete: "hub_inv w \<Longrightarrow> hub_inv (w\<lparr>users := AList.delete u (users w)\<rparr>)"
  by (rule hub_inv_upd [where u = u and x = None]) (auto simp: hub_inv_def distinct_delete delete_conv')

lemma Add_inv:
  assumes inv: "hub_inv w" and new: "c \<notin> set (Snapshot w)"
  shows "hub_inv (snd (Add c w))"
proof -
  let ?u = "userKey (heap w c)"
  have "c \<notin> set (user_conns w ?u)" using Snapshot_iff [OF inv] new by simp
  with hub_inv_user_conns(1) [OF inv, of ?u] hub_inv_user_conns(2) [OF inv, of _ ?u]
  have "distinct (user_conns w ?u @ [c])" "\<forall>d \<in> set (user_conns w ?u @ [c]). userKey (heap w d) = ?u" by auto
  from hub_inv_update [OF inv _ this] show ?thesis unfolding Add_def Let_def snd_conv by blast
qed

lemma Remove_inv:
  assumes inv: "hub_inv w"
  shows "hub_inv (snd (Remove c w))"
proof -
  let ?u = "userKey (heap w c)"
  define out where "out = filter (\<lambda>x. x \<noteq> c) (user_conns w ?u)"
  have "distinct out" "\<forall>x \<in> set out. userKey (heap w x) = ?u"
    using hub_inv_user_conns(1) [OF inv, of ?u] hub_inv_user_conns(2) [OF inv, of _ ?u]
    by (simp_all add: out_def)
  from hub_inv_update [OF inv _ this] hub_inv_delete [OF inv, of ?u] show ?thesis
    unfolding Remove_def Let_def out_def [symmetric] by auto
qed

lemma heap_Add_Remove [simp]: "heap (snd (Add c w)) = heap w" "heap (snd (Remove c w)) = heap w"
  by (simp_all add: Add_def Remove_def Let_def)

lemma Snapshot_Add:
  assumes "hub_inv w" and "c \<notin> set (Snapshot w)"
  shows "set (Snapshot (snd (Add c w))) = insert c (set (Snapshot w))"
proof -
  have "d \<in> set (Snapshot (snd (Add c w))) \<longleftrightarrow> d = c \<or> d \<in> set (Snapshot w)" for d
    by (auto simp: Snapshot_iff [OF Add_inv [OF assms]] Snapshot_iff [OF assms(1)] user_conns_Add)
  then show ?thesis by blast
qed

lemma Snapshot_Remove:
  assumes "hub_inv w"
  shows "set (Snapshot (snd (Remove c w))) = set (Snapshot w) - {c}"
proof -
  have "d \<in> set (Snapshot (snd (Remove c w))) \<longleftrightarrow> d \<noteq> c \<and> d \<in> set (Snapshot w)" for d
    by (auto simp: Snapshot_iff [OF Remove_inv [OF assms]] Snapshot_iff [OF assms] user_conns_Remove)
  then show ?thesis by blast
qed

lemma user_conns_empty_iff:
  assumes "hub_inv w"
  shows "user_conns w u = [] \<longleftrightarrow> (\<forall>d \<in> set (Snapshot w). userKey (heap w d) \<noteq> u)"
proof
  assume "user_conns w u = []"
  then show "\<forall>d \<in> set (Snapshot w). userKey (heap w d) \<noteq> u" using Snapshot_iff [OF assms] by auto
next
  assume none: "\<forall>d \<in> set (Snapshot w). userKey (heap w d) \<noteq> u"
  show "user_conns w u = []"
  proof (rule ccontr)
    assume "user_conns w u \<noteq> []"
    then have h: "hd (user_conns w u) \<in> set (user_conns w u)" by simp
    then have "userKey (heap w (hd (user_conns w u))) = u" by (rule hub_inv_user_conns(2) [OF assms])
    moreover with h have "hd (user_conns w u) \<in> set (Snapshot w)" using Snapshot_iff [OF assms] by simp
    ultimately show False using none by blast
  qed
qed

section \<open>Presence\<close>

lemma hub_answers:
  assumes inv: "hub_inv w"
  shows "c \<notin> set (Snapshot w) \<Longrightarrow> fst (Add c w) \<longleftrightarrow> (\<forall>d \<in> set (Snapshot w). userKey (heap w d) \<noteq> userKey (heap w c))"
    and "fst (Remove c w) \<longleftrightarrow> (\<forall>d \<in> set (Snapshot w) - {c}. userKey (heap w d) \<noteq> userKey (heap w c))"
proof -
  let ?u = "userKey (heap w c)"
  have "fst (Add c w) \<longleftrightarrow> user_conns w ?u = []" by (simp add: Add_def Let_def)
  moreover have "fst (Remove c w) \<longleftrightarrow> user_conns (snd (Remove c w)) ?u = []"
    by (simp add: user_conns_Remove) (simp add: Remove_def Let_def)
  ultimately show "c \<notin> set (Snapshot w) \<Longrightarrow> fst (Add c w) \<longleftrightarrow> (\<forall>d \<in> set (Snapshot w). userKey (heap w d) \<noteq> userKey (heap w c))"
    and "fst (Remove c w) \<longleftrightarrow> (\<forall>d \<in> set (Snapshot w) - {c}. userKey (heap w d) \<noteq> userKey (heap w c))"
    using user_conns_empty_iff [OF inv, of ?u] user_conns_empty_iff [OF Remove_inv [OF inv, of c], of ?u]
      Snapshot_Remove [OF inv, of c] by simp_all
qed

text \<open>
  The specification: a set of sockets, with the user of each. It answers an addition with whether the
  socket is the first of its user and a removal with whether no other socket of the user is left.
\<close>

datatype hub_op = HubAdd cref | HubRemove cref

fun hub_impl :: "hub_op \<Rightarrow> hub_world \<Rightarrow> bool \<times> hub_world" where
  "hub_impl (HubAdd c) w = Add c w"
| "hub_impl (HubRemove c) w = Remove c w"

fun presence_spec :: "(cref \<Rightarrow> string) \<Rightarrow> hub_op \<Rightarrow> cref set \<Rightarrow> (bool \<times> cref set) option" where
  "presence_spec u (HubAdd c) S = (if c \<in> S then None else Some (\<forall>d \<in> S. u d \<noteq> u c, insert c S))"
| "presence_spec u (HubRemove c) S = Some (\<forall>d \<in> S - {c}. u d \<noteq> u c, S - {c})"

definition hub_rel :: "(cref \<Rightarrow> string) \<Rightarrow> hub_world \<Rightarrow> cref set \<Rightarrow> bool" where
  "hub_rel u w S \<longleftrightarrow> hub_inv w \<and> set (Snapshot w) = S \<and> (\<forall>c. userKey (heap w c) = u c)"

interpretation hub_set: simulation "\<lambda>_. True" hub_rel "\<lambda>_. hub_impl" presence_spec
proof (unfold_locales, goal_cases)
  case (1 u w S x r S')
  then have inv: "hub_inv w" and S: "S = set (Snapshot w)" and u: "\<And>c. u c = userKey (heap w c)" by (simp_all add: hub_rel_def)
  show ?case
  proof (cases x)
    case (HubAdd c)
    with 1 S have new: "c \<notin> set (Snapshot w)" by (auto split: if_splits)
    with 1 HubAdd hub_answers(1) [OF inv new] Snapshot_Add [OF inv new] Add_inv [OF inv new] show ?thesis
      by (simp add: hub_rel_def S u)
  next
    case (HubRemove c)
    with 1 have "r = fst (Remove c w)" "S' = set (Snapshot w) - {c}"
      using hub_answers(2) [OF inv, of c] by (auto simp: S u)
    with HubRemove Snapshot_Remove [OF inv, of c] Remove_inv [OF inv, of c] show ?thesis by (simp add: hub_rel_def u)
  qed
qed

text \<open>
  Presence (C26). The hub refines a set of sockets. Through every sequence of additions of new sockets and
  of removals, it answers as the specification does: an addition is reported as the first exactly
  when no registered socket belongs to the same user, a removal as the last exactly when no other
  socket of the user remains; and the registered sockets are those of the specification.
\<close>

theorem hub_presence:
  assumes "hub_inv w" and "run_spec (presence_spec (\<lambda>c. userKey (heap w c))) ops (set (Snapshot w)) = Some (answers, S)"
  shows "fst (run_ops hub_impl ops w) = answers \<and> set (Snapshot (snd (run_ops hub_impl ops w))) = S
    \<and> hub_inv (snd (run_ops hub_impl ops w))"
  using hub_set.run_simulates [of "\<lambda>c. userKey (heap w c)" w "set (Snapshot w)" ops answers S] assms by (simp add: hub_rel_def)

definition demo_world :: hub_world where
  "demo_world = \<lparr>heap = (\<lambda>n. NewConn (FormatUint n) (demo_cfg\<lparr>cfg_ID := []\<rparr>)), users = []\<rparr>"

lemma demo_world_inv: "hub_inv demo_world"
  by (simp add: hub_inv_def demo_world_def)

lemma demo_user: "userKey (heap demo_world n) = ''ann''"
  by (simp add: demo_world_def NewConn_def demo_cfg_def)

theorem hub_presence_witness:
  "fst (run_ops hub_impl [HubAdd 3, HubAdd 4, HubRemove 3, HubRemove 4] demo_world) = [True, False, False, True]"
proof -
  have none: "set (Snapshot demo_world) = {}" by (simp add: demo_world_def Snapshot_def)
  have "run_spec (presence_spec (\<lambda>c. userKey (heap demo_world c))) [HubAdd 3, HubAdd 4, HubRemove 3, HubRemove 4] (set (Snapshot demo_world))
      = Some ([True, False, False, True], {})"
    by (auto simp: none demo_user insert_Diff_if)
  from hub_presence [OF demo_world_inv this] show ?thesis by blast
qed

section \<open>Addressed delivery\<close>

interpretation hub_bt: broadcast_target "hub_subscribers marshal" heap "\<lambda>j. Send (marshal j)"
  "\<lambda>j c. fst (SendReporting (marshal j) c)" "hub_target marshal" hub_inv user_conns
  "\<lambda>w i. find (\<lambda>c. conn_id (heap w c) = i) (Snapshot w)"
  by unfold_locales (auto simp: hub_target_def hub_subscribers_def SendToUser_def SendToConn_def hub_inv_user_conns(1)
      split: option.splits)

lemma hub_target_sends:
  "bt_SendToUser (hub_target (\<lambda>_. msg)) u j = SendToUser u msg" "bt_SendToConn (hub_target (\<lambda>_. msg)) i j = SendToConn i msg"
  by (simp_all add: hub_target_def)

lemma SendToUser_heap:
  assumes inv: "hub_inv w"
  shows "heap (SendToUser u msg w) d =
      (if d \<in> set (Snapshot w) \<and> userKey (heap w d) = u then Send msg (heap w d) else heap w d)"
proof -
  have "d \<in> set (user_conns w u) \<longleftrightarrow> d \<in> set (Snapshot w) \<and> userKey (heap w d) = u"
    using Snapshot_iff [OF inv] hub_inv_user_conns(2) [OF inv] by metis
  with hub_bt.to_user_state [OF inv, where marshal = "\<lambda>_. msg" and u = u and d = d] show ?thesis by (simp add: hub_target_sends)
qed

lemma SendToConn_heap:
  assumes ids: "inj_on (\<lambda>c. conn_id (heap w c)) (set (Snapshot w))"
  shows "heap (SendToConn i msg w) d =
      (if d \<in> set (Snapshot w) \<and> conn_id (heap w d) = i then Send msg (heap w d) else heap w d)"
proof -
  have "find (\<lambda>c. conn_id (heap w c) = i) (Snapshot w) = Some d \<longleftrightarrow> d \<in> set (Snapshot w) \<and> conn_id (heap w d) = i"
  proof (cases "find (\<lambda>c. conn_id (heap w c) = i) (Snapshot w)")
    case (Some c)
    then have "c \<in> set (Snapshot w)" "conn_id (heap w c) = i" by (auto simp: find_Some_iff)
    with Some ids show ?thesis by (auto dest: inj_onD)
  next
    case None
    then have "\<forall>c \<in> set (Snapshot w). conn_id (heap w c) \<noteq> i" by (simp add: find_None_iff)
    with None show ?thesis by auto
  qed
  with hub_bt.to_conn_state [where marshal = "\<lambda>_. msg" and i = i and w = w and d = d] show ?thesis by (simp add: hub_target_sends)
qed

text \<open>
  Addressed delivery. A broadcast reaches every registered socket of its user and changes no
  other connection; a delivery report reaches the registered socket with its ID, when the IDs
  of the registered sockets are distinct, and changes no other.
\<close>

theorem addressed_delivery:
  assumes "hub_inv w" and "inj_on (\<lambda>c. conn_id (heap w c)) (set (Snapshot w))"
  shows "heap (SendToUser u msg w) d =
      (if d \<in> set (Snapshot w) \<and> userKey (heap w d) = u then Send msg (heap w d) else heap w d)
    \<and> heap (SendToConn i msg w) d =
      (if d \<in> set (Snapshot w) \<and> conn_id (heap w d) = i then Send msg (heap w d) else heap w d)"
  using SendToUser_heap [OF assms(1)] SendToConn_heap [OF assms(2)] by blast

theorem addressed_delivery_witness:
  "let w = snd (Add 3 demo_world) in
     sendCh (heap (SendToUser ''ann'' ''x'' w) 3) = [text_frame ''x''] \<and> heap (SendToConn ''3'' ''x'' w) 4 = heap w 4"
proof -
  let ?w = "snd (Add 3 demo_world)"
  have inv: "hub_inv ?w" by (rule Add_inv [OF demo_world_inv]) (simp add: demo_world_def Snapshot_def)
  have snap: "Snapshot ?w = [3]" by (simp add: Add_def demo_world_def Snapshot_def Let_def user_conns_def)
  then have ids: "inj_on (\<lambda>c. conn_id (heap ?w c)) (set (Snapshot ?w))" by simp
  have "sendCh (Send ''x'' (heap ?w 3)) = [text_frame ''x'']"
    by (simp add: demo_world_def conn_eval)
  with addressed_delivery [OF inv ids, of "''ann''" "''x''" 3] addressed_delivery [OF inv ids, where d = 4 and msg = "''x''" and i = "''3''"]
  show ?thesis by (simp add: snap demo_user Let_def)
qed

end
