(* ===== verification/Bus.thy ===== *)
theory Bus
  imports RedisRef Protocol Judging Hub
begin

text \<open>
  The cross-instance delivery layer: \<^verbatim>\<open>bus/bus.go\<close>. The state is that of the struct \<^verbatim>\<open>Bus\<close> with
  the counters it keeps; a Go map is an association list in iteration order. The bus runs
  against an environment \<open>bus_env\<close>: the Redis client, the subscribers and the broadcast target,
  reached through their interfaces. A step works on the whole instance: the bus, the world of the
  subscribers and the Redis server.
\<close>

section \<open>State\<close>

definition topicChannelPrefix :: string where "topicChannelPrefix = ''ws:topic:''"
definition broadcastChannelPrefix :: string where "broadcastChannelPrefix = ''ws:broadcast:''"
definition reportChannelPrefix :: string where "reportChannelPrefix = ''ws:report:''"
definition streamKeyPrefix :: string where "streamKeyPrefix = ''topic:stream:''"

lemmas prefix_defs = topicChannelPrefix_def broadcastChannelPrefix_def reportChannelPrefix_def streamKeyPrefix_def

record bufferedMsg =
  bm_streamID :: string
  bm_data :: raw

record replayState =
  buffering :: bool
  seen :: "string list"
  buf :: "bufferedMsg list"

record 'c Bus =
  topicSubs :: "(string \<times> 'c list) list"
  replay :: "(('c \<times> string) \<times> replayState) list"
  FanoutFiltered :: nat
  FanoutBuffered :: nat
  LocalSubscriptions :: int
  PublishTotal :: nat
  ReplayMessages :: nat
  ReplayTruncated :: nat
  JudgeDecisions :: "string list"

record bus_cfg =
  StreamMaxLength :: int
  StreamTTL :: int
  InstanceID :: string
  judging :: judge_cfg

record ('c, 'w, 's) bus_env =
  be_pub :: "'s redis option"
  be_subs :: "('c, 'w) Subscriber"
  be_broadcast :: "'w BroadcastTarget option"
  be_cfg :: bus_cfg

record ('c, 'w, 's) inst =
  bus :: "'c Bus"
  world :: 'w
  rds :: 's

definition New :: "'c Bus" where
  "New = \<lparr>topicSubs = [], replay = [], FanoutFiltered = 0, FanoutBuffered = 0, LocalSubscriptions = 0,
     PublishTotal = 0, ReplayMessages = 0, ReplayTruncated = 0, JudgeDecisions = []\<rparr>"

section \<open>Wire payloads\<close>

record wireTopicPayload =
  wp_StreamID :: string
  wp_Data :: raw
  wp_ReportTo :: string
  wp_Recipients :: "string list option"

definition marshal_wireTopic :: "wireTopicPayload \<Rightarrow> blob" where
  "marshal_wireTopic p = Json (JObj
     ([(''streamId'', JStr (wp_StreamID p)), (''data'', marshal_raw (wp_Data p))]
      @ field_unless (wp_ReportTo p = []) ''reportTo'' (JStr (wp_ReportTo p))
      @ [(''recipients'', json_strings (wp_Recipients p))]))"

definition unmarshal_wireTopic :: "blob \<Rightarrow> wireTopicPayload option" where
  "unmarshal_wireTopic b =
     (case object_fields b of
        None \<Rightarrow> None
      | Some kvs \<Rightarrow>
          (case (dec_string (matching ''streamId'' kvs) [], dec_string (matching ''reportTo'' kvs) [],
                 dec_strings (matching ''recipients'' kvs) None) of
             (Some sid, Some rt, Some rc) \<Rightarrow>
               Some \<lparr>wp_StreamID = sid, wp_Data = dec_raw (matching ''data'' kvs), wp_ReportTo = rt,
                 wp_Recipients = rc\<rparr>
           | _ \<Rightarrow> None))"

record wireReportPayload =
  wr_Topic :: string
  wr_StreamID :: string
  wr_Delivered :: int
  wr_Dropped :: int
  wr_Filtered :: int
  wr_Instance :: string

definition marshal_wireReport :: "wireReportPayload \<Rightarrow> blob" where
  "marshal_wireReport r = Json (JObj
     [(''topic'', JStr (wr_Topic r)), (''streamId'', JStr (wr_StreamID r)),
      (''delivered'', json_int (wr_Delivered r)), (''dropped'', json_int (wr_Dropped r)),
      (''filtered'', json_int (wr_Filtered r)), (''instance'', JStr (wr_Instance r))])"

definition unmarshal_wireReport :: "blob \<Rightarrow> wireReportPayload option" where
  "unmarshal_wireReport b =
     (case object_fields b of
        None \<Rightarrow> None
      | Some kvs \<Rightarrow>
          (case (dec_string (matching ''topic'' kvs) [], dec_string (matching ''streamId'' kvs) [],
                 dec_int (matching ''delivered'' kvs) 0, dec_int (matching ''dropped'' kvs) 0,
                 dec_int (matching ''filtered'' kvs) 0, dec_string (matching ''instance'' kvs) []) of
             (Some t, Some sid, Some de, Some dr, Some fi, Some ins) \<Rightarrow>
               Some \<lparr>wr_Topic = t, wr_StreamID = sid, wr_Delivered = de, wr_Dropped = dr,
                 wr_Filtered = fi, wr_Instance = ins\<rparr>
           | _ \<Rightarrow> None))"

definition marshal_wireBroadcast :: "raw \<Rightarrow> blob" where
  "marshal_wireBroadcast d = Json (JObj [(''data'', marshal_raw d)])"

definition unmarshal_wireBroadcast :: "blob \<Rightarrow> raw option" where
  "unmarshal_wireBroadcast b =
     (case object_fields b of None \<Rightarrow> None | Some kvs \<Rightarrow> Some (dec_raw (matching ''data'' kvs)))"

section \<open>Local subscriptions\<close>

definition topic_subs :: "'c Bus \<Rightarrow> string \<Rightarrow> 'c list" where
  "topic_subs b topic = (case map_of (topicSubs b) topic of None \<Rightarrow> [] | Some cs \<Rightarrow> cs)"

definition addLocalSubLocked :: "string \<Rightarrow> 'c \<Rightarrow> 'c Bus \<Rightarrow> 'c Bus" where
  "addLocalSubLocked topic sub b =
     (if sub \<in> set (topic_subs b topic) then b
      else b\<lparr>topicSubs := AList.update topic (topic_subs b topic @ [sub]) (topicSubs b),
             LocalSubscriptions := LocalSubscriptions b + 1\<rparr>)"

definition AddLocalSubscription :: "string \<Rightarrow> 'c \<Rightarrow> 'c Bus \<Rightarrow> 'c Bus" where
  "AddLocalSubscription topic sub b = addLocalSubLocked topic sub b"

definition RemoveLocalSubscription :: "string \<Rightarrow> 'c \<Rightarrow> 'c Bus \<Rightarrow> 'c Bus" where
  "RemoveLocalSubscription topic sub b =
     (let b1 = (case map_of (topicSubs b) topic of
            None \<Rightarrow> b
          | Some cs \<Rightarrow>
              let out = filter (\<lambda>x. x \<noteq> sub) cs;
                  b' = (if sub \<in> set cs then b\<lparr>LocalSubscriptions := LocalSubscriptions b - 1\<rparr> else b)
              in if out = [] then b'\<lparr>topicSubs := AList.delete topic (topicSubs b')\<rparr>
                 else b'\<lparr>topicSubs := AList.update topic out (topicSubs b')\<rparr>)
      in b1\<lparr>replay := AList.delete (sub, topic) (replay b1)\<rparr>)"

text \<open>The loop of \<^verbatim>\<open>RemoveSubscriberAll\<close> over the topics; a topic without the subscriber stays as it is.\<close>

fun remove_from_topics :: "'c \<Rightarrow> (string \<times> 'c list) list \<Rightarrow> int \<Rightarrow> (string \<times> 'c list) list \<times> int" where
  "remove_from_topics sub [] n = ([], n)"
| "remove_from_topics sub ((topic, cs) # rest) n =
     (if sub \<in> set cs then
        (let out = filter (\<lambda>x. x \<noteq> sub) cs; (rest', n') = remove_from_topics sub rest (n - 1) in
         (if out = [] then rest' else (topic, out) # rest', n'))
      else (let (rest', n') = remove_from_topics sub rest n in ((topic, cs) # rest', n')))"

definition RemoveSubscriberAll :: "'c \<Rightarrow> 'c Bus \<Rightarrow> 'c Bus" where
  "RemoveSubscriberAll sub b =
     (let (ts, n) = remove_from_topics sub (topicSubs b) (LocalSubscriptions b) in
      b\<lparr>topicSubs := ts, LocalSubscriptions := n, replay := filter (\<lambda>p. fst (fst p) \<noteq> sub) (replay b)\<rparr>)"

section \<open>Fan-out\<close>

definition allowedSubscriber :: "('c, 'w) Subscriber \<Rightarrow> 'w \<Rightarrow> string list option \<Rightarrow> 'c \<Rightarrow> bool" where
  "allowedSubscriber S w allowed sub =
     (case allowed of
        None \<Rightarrow> True
      | Some ids \<Rightarrow> (case sub_ID S w sub of None \<Rightarrow> True | Some i \<Rightarrow> i \<in> set ids))"

definition is_buffering :: "'c Bus \<Rightarrow> 'c \<Rightarrow> string \<Rightarrow> bool" where
  "is_buffering b sub topic =
     (case map_of (replay b) (sub, topic) of None \<Rightarrow> False | Some rs \<Rightarrow> buffering rs)"

definition update_replay :: "'c \<Rightarrow> string \<Rightarrow> (replayState \<Rightarrow> replayState) \<Rightarrow> 'c Bus \<Rightarrow> 'c Bus" where
  "update_replay sub topic f b =
     (case map_of (replay b) (sub, topic) of
        None \<Rightarrow> b
      | Some rs \<Rightarrow> b\<lparr>replay := AList.update (sub, topic) (f rs) (replay b)\<rparr>)"

text \<open>The critical section of \<^verbatim>\<open>handleTopic\<close>: the bus, \<^verbatim>\<open>deliver\<close>, \<^verbatim>\<open>buffered\<close> and \<^verbatim>\<open>filtered\<close>.\<close>

fun decide_fanout ::
  "('c \<Rightarrow> bool) \<Rightarrow> string \<Rightarrow> bufferedMsg \<Rightarrow> 'c list \<Rightarrow> 'c Bus \<Rightarrow> 'c list \<Rightarrow> nat \<Rightarrow> nat \<Rightarrow> 'c Bus \<times> 'c list \<times> nat \<times> nat" where
  "decide_fanout allowed topic m [] b deliver buffered filtered = (b, deliver, buffered, filtered)"
| "decide_fanout allowed topic m (c # cs) b deliver buffered filtered =
     (if is_buffering b c topic then
        decide_fanout allowed topic m cs (update_replay c topic (\<lambda>rs. rs\<lparr>buf := buf rs @ [m]\<rparr>) b)
          deliver (buffered + 1) filtered
      else if \<not> allowed c then decide_fanout allowed topic m cs b deliver buffered (filtered + 1)
      else decide_fanout allowed topic m cs b (deliver @ [c]) buffered filtered)"

text \<open>The send loop: a subscriber that reports is asked for the outcome only when a report was requested.\<close>

fun deliver_loop ::
  "('c, 'w) Subscriber \<Rightarrow> string \<Rightarrow> json \<Rightarrow> 'c list \<Rightarrow> nat \<Rightarrow> nat \<Rightarrow> 'w \<Rightarrow> nat \<times> nat \<times> 'w" where
  "deliver_loop S reportTo frame [] delivered dropped w = (delivered, dropped, w)"
| "deliver_loop S reportTo frame (c # cs) delivered dropped w =
     (case (if reportTo \<noteq> [] then sub_SendReporting S c else None) of
        Some f \<Rightarrow>
          (let (b, w1) = f frame w in
           if b then deliver_loop S reportTo frame cs (delivered + 1) dropped w1
           else deliver_loop S reportTo frame cs delivered (dropped + 1) w1)
      | None \<Rightarrow> deliver_loop S reportTo frame cs (delivered + 1) dropped (sub_Send S c frame w))"

definition sendReport ::
  "('c, 'w, 's) bus_env \<Rightarrow> string \<Rightarrow> wireTopicPayload \<Rightarrow> nat \<Rightarrow> nat \<Rightarrow> nat \<Rightarrow> 's \<Rightarrow> 's" where
  "sendReport env topic p delivered dropped filtered s =
     (case be_pub env of
        None \<Rightarrow> s
      | Some R \<Rightarrow> snd (rPublish R (reportChannelPrefix @ wp_ReportTo p)
          (marshal_wireReport \<lparr>wr_Topic = topic, wr_StreamID = wp_StreamID p, wr_Delivered = int delivered,
             wr_Dropped = int dropped, wr_Filtered = int filtered, wr_Instance = InstanceID (be_cfg env)\<rparr>) s))"

definition handleTopic :: "('c, 'w, 's) bus_env \<Rightarrow> string \<Rightarrow> blob \<Rightarrow> ('c, 'w, 's) inst \<Rightarrow> ('c, 'w, 's) inst" where
  "handleTopic env topic pl x =
     (case unmarshal_wireTopic pl of
        None \<Rightarrow> x
      | Some p \<Rightarrow>
          let S = be_subs env;
              m = \<lparr>bm_streamID = wp_StreamID p, bm_data = wp_Data p\<rparr>;
              (b1, deliver, buffered, filtered) =
                decide_fanout (allowedSubscriber S (world x) (wp_Recipients p)) topic m
                  (topic_subs (bus x) topic) (bus x) [] 0 0;
              b2 = b1\<lparr>FanoutFiltered := FanoutFiltered b1 + filtered, FanoutBuffered := FanoutBuffered b1 + buffered\<rparr>
          in if deliver = [] then x\<lparr>bus := b2\<rparr>
             else let frame = EncodePublish topic (wp_Data p) (wp_StreamID p) False;
                      (delivered, dropped, w1) = deliver_loop S (wp_ReportTo p) frame deliver 0 0 (world x);
                      s1 = (if wp_ReportTo p \<noteq> [] then sendReport env topic p delivered dropped filtered (rds x) else rds x)
                  in x\<lparr>bus := b2, world := w1, rds := s1\<rparr>)"

definition handleReport :: "('c, 'w, 's) bus_env \<Rightarrow> string \<Rightarrow> blob \<Rightarrow> ('c, 'w, 's) inst \<Rightarrow> ('c, 'w, 's) inst" where
  "handleReport env connID pl x =
     (case be_broadcast env of
        None \<Rightarrow> x
      | Some bt \<Rightarrow>
          (case unmarshal_wireReport pl of
             None \<Rightarrow> x
           | Some r \<Rightarrow> x\<lparr>world := bt_SendToConn bt connID
               (EncodeDeliveryReport (wr_Topic r) (wr_StreamID r) (wr_Instance r) (wr_Delivered r)
                  (wr_Dropped r) (wr_Filtered r)) (world x)\<rparr>))"

definition handleBroadcast :: "('c, 'w, 's) bus_env \<Rightarrow> string \<Rightarrow> blob \<Rightarrow> ('c, 'w, 's) inst \<Rightarrow> ('c, 'w, 's) inst" where
  "handleBroadcast env uk pl x =
     (case be_broadcast env of
        None \<Rightarrow> x
      | Some bt \<Rightarrow>
          (case unmarshal_wireBroadcast pl of
             None \<Rightarrow> x
           | Some d \<Rightarrow> x\<lparr>world := bt_SendToUser bt uk (EncodeBroadcast d) (world x)\<rparr>))"

text \<open>One message of the pattern subscription, on its channel.\<close>

definition bus_dispatch :: "('c, 'w, 's) bus_env \<Rightarrow> string \<Rightarrow> blob \<Rightarrow> ('c, 'w, 's) inst \<Rightarrow> ('c, 'w, 's) inst" where
  "bus_dispatch env channel pl x =
     (if HasPrefix channel topicChannelPrefix then
        handleTopic env (drop (length topicChannelPrefix) channel) pl x
      else if HasPrefix channel broadcastChannelPrefix then
        handleBroadcast env (drop (length broadcastChannelPrefix) channel) pl x
      else if HasPrefix channel reportChannelPrefix then
        handleReport env (drop (length reportChannelPrefix) channel) pl x
      else x)"

section \<open>Publishing\<close>

definition nil_client :: goerr where
  "nil_client = Panic ''runtime error: invalid memory address or nil pointer dereference''"

definition PublishTopic ::
  "('c, 'w, 's) bus_env \<Rightarrow> string \<Rightarrow> raw \<Rightarrow> string \<Rightarrow> ('c, 'w, 's) inst \<Rightarrow> string result \<times> ('c, 'w, 's) inst" where
  "PublishTopic env topic data reportTo x =
     (let (recipients, label) = judge (judging (be_cfg env)) topic data;
          x1 = (case label of None \<Rightarrow> x | Some l \<Rightarrow> x\<lparr>bus := (bus x)\<lparr>JudgeDecisions := JudgeDecisions (bus x) @ [l]\<rparr>\<rparr>) in
      case recipients of
        Inl e \<Rightarrow> (Inl e, x1)
      | Inr rc \<Rightarrow>
          (case be_pub env of
             None \<Rightarrow> (Inl nil_client, x1)
           | Some R \<Rightarrow>
               (case rXAdd R (streamKeyPrefix @ topic) (StreamMaxLength (be_cfg env)) (Json (marshal_raw data)) (rds x1) of
                  (Inl e, s1) \<Rightarrow> (Inl (Wrap ''xadd: '' e []), x1\<lparr>rds := s1\<rparr>)
                | (Inr sid, s1) \<Rightarrow>
                    (case rPublish R (topicChannelPrefix @ topic)
                        (marshal_wireTopic \<lparr>wp_StreamID = sid, wp_Data = data, wp_ReportTo = reportTo, wp_Recipients = rc\<rparr>) s1 of
                       (Inl e, s2) \<Rightarrow> (Inl (Wrap ''publish topic: '' e []), x1\<lparr>rds := s2\<rparr>)
                     | (Inr _, s2) \<Rightarrow>
                         (Inr sid, x1\<lparr>rds := s2, bus := (bus x1)\<lparr>PublishTotal := PublishTotal (bus x1) + 1\<rparr>\<rparr>)))))"

definition PublishBroadcast ::
  "('c, 'w, 's) bus_env \<Rightarrow> string \<Rightarrow> raw \<Rightarrow> 's \<Rightarrow> unit result \<times> 's" where
  "PublishBroadcast env uk data s =
     (case be_pub env of
        None \<Rightarrow> (Inl nil_client, s)
      | Some R \<Rightarrow>
          (case rPublish R (broadcastChannelPrefix @ uk) (marshal_wireBroadcast data) s of
             (Inl e, s1) \<Rightarrow> (Inl (Wrap ''publish broadcast: '' e []), s1)
           | (Inr _, s1) \<Rightarrow> (Inr (), s1)))"

section \<open>Subscribing with replay\<close>

text \<open>
  An entry of a topic's stream: the field \<^verbatim>\<open>d\<close> is what \<^verbatim>\<open>PublishTopic\<close> wrote there, a JSON text.
\<close>

fun entry_data :: "blob \<Rightarrow> raw" where
  "entry_data (Json j) = Some j"
| "entry_data (Text t) = None"

definition replayMessages ::
  "'s redis \<Rightarrow> string \<Rightarrow> string \<Rightarrow> ('s, bufferedMsg list \<times> bool \<times> string) cmd" where
  "replayMessages R topic since s =
     (let streamKey = streamKeyPrefix @ topic;
          i = IndexByte since (CHR ''-'');
          sinceMs = (if i > 0 then take (nat i) since else since) in
      case rXRange R streamKey sinceMs s of
        (Inl e, s1) \<Rightarrow> (Inl (Wrap ''xrange: '' e []), s1)
      | (Inr ents, s1) \<Rightarrow>
          let out = map (\<lambda>e. \<lparr>bm_streamID = fst e, bm_data = entry_data (snd e)\<rparr>)
                (filter (\<lambda>e. \<not> compareStreamIDs (fst e) since \<le> 0) ents) in
          if fst (ParseInt sinceMs) > 0 then
            (case rXFirst R streamKey s1 of
               (Inl e, s2) \<Rightarrow> (Inr (out, False, []), s2)
             | (Inr olds, s2) \<Rightarrow>
                 (case olds of
                    [] \<Rightarrow> (Inr (out, False, []), s2)
                  | old # _ \<Rightarrow>
                      if compareStreamIDs since (fst old) < 0 then (Inr (out, True, fst old), s2)
                      else (Inr (out, False, []), s2)))
          else (Inr (out, False, []), s1))"

text \<open>The three critical sections of \<^verbatim>\<open>SubscribeWithReplay\<close>.\<close>

definition swr_register :: "'c \<Rightarrow> string \<Rightarrow> 'c Bus \<Rightarrow> 'c Bus" where
  "swr_register sub topic b =
     (let b1 = addLocalSubLocked topic sub b in
      b1\<lparr>replay := AList.update (sub, topic) \<lparr>buffering = True, seen = [], buf = []\<rparr> (replay b1)\<rparr>)"

definition swr_mark :: "'c \<Rightarrow> string \<Rightarrow> bufferedMsg \<Rightarrow> 'c Bus \<Rightarrow> 'c Bus" where
  "swr_mark sub topic m b = update_replay sub topic (\<lambda>rs. rs\<lparr>seen := bm_streamID m # seen rs\<rparr>) b"

definition swr_finish :: "'c \<Rightarrow> string \<Rightarrow> 'c Bus \<Rightarrow> bufferedMsg list \<times> 'c Bus" where
  "swr_finish sub topic b =
     ((case map_of (replay b) (sub, topic) of
         None \<Rightarrow> []
       | Some rs \<Rightarrow> filter (\<lambda>m. bm_streamID m \<notin> set (seen rs)) (buf rs)),
      b\<lparr>replay := AList.delete (sub, topic) (replay b)\<rparr>)"

definition send_msg :: "('c, 'w) Subscriber \<Rightarrow> 'c \<Rightarrow> string \<Rightarrow> bool \<Rightarrow> bufferedMsg \<Rightarrow> 'w \<Rightarrow> 'w" where
  "send_msg S sub topic replayed m w =
     sub_Send S sub (EncodePublish topic (bm_data m) (bm_streamID m) replayed) w"

fun swr_replay :: "('c, 'w) Subscriber \<Rightarrow> 'c \<Rightarrow> string \<Rightarrow> bufferedMsg list \<Rightarrow> 'c Bus \<times> 'w \<Rightarrow> 'c Bus \<times> 'w" where
  "swr_replay S sub topic [] (b, w) = (b, w)"
| "swr_replay S sub topic (m # ms) (b, w) =
     swr_replay S sub topic ms (swr_mark sub topic m b, send_msg S sub topic True m w)"

text \<open>\<^verbatim>\<open>SubscribeWithReplay\<close> with no other goroutine in between; theory \<open>ReplayRace\<close> interleaves its parts.\<close>

definition SubscribeWithReplay ::
  "(string \<Rightarrow> int option) \<Rightarrow> ('c, 'w, 's) bus_env \<Rightarrow> 'c \<Rightarrow> string \<Rightarrow> string \<Rightarrow> ('c, 'w, 's) inst
    \<Rightarrow> (bool \<times> string) result \<times> ('c, 'w, 's) inst" where
  "SubscribeWithReplay timeParse env sub topic since x =
     (case parseSinceCursor timeParse since of
        Inl e \<Rightarrow> (Inl e, x)
      | Inr cursor \<Rightarrow>
          let S = be_subs env; b1 = swr_register sub topic (bus x) in
          (case be_pub env of
             None \<Rightarrow> (Inl nil_client, x\<lparr>bus := b1\<rparr>)
           | Some R \<Rightarrow>
               (case replayMessages R topic cursor (rds x) of
                  (Inl e, s1) \<Rightarrow>
                    (Inl e, x\<lparr>bus := b1\<lparr>replay := AList.delete (sub, topic) (replay b1)\<rparr>, rds := s1\<rparr>)
                | (Inr (msgs, trunc, oldest), s1) \<Rightarrow>
                    let b2 = b1\<lparr>ReplayMessages := ReplayMessages b1 + length msgs,
                               ReplayTruncated := ReplayTruncated b1 + (if trunc then 1 else 0)\<rparr>;
                        (b3, w3) = swr_replay S sub topic msgs (b2, world x);
                        (leftover, b4) = swr_finish sub topic b3;
                        w4 = fold (send_msg S sub topic False) leftover w3
                    in (Inr (trunc, oldest), x\<lparr>bus := b4, world := w4, rds := s1\<rparr>))))"

section \<open>Trimming\<close>

fun trim_each :: "'s redis \<Rightarrow> string \<Rightarrow> string list \<Rightarrow> 's \<Rightarrow> 's" where
  "trim_each R minID [] s = s"
| "trim_each R minID (key # keys) s = trim_each R minID keys (snd (rXTrimMinID R key minID s))"

text \<open>\<open>nowMs\<close> is the clock; a scan that fails ends the pass after the keys it had found, a failed trim is logged and skipped.\<close>

definition trimAllStreams :: "'s redis \<Rightarrow> int \<Rightarrow> int \<Rightarrow> 's \<Rightarrow> 's" where
  "trimAllStreams R ttl nowMs s =
     (let minID = FormatInt (nowMs - ttl) @ ''-0'' in
      case rScan R streamKeyPrefix s of ((keys, err), s1) \<Rightarrow> trim_each R minID keys s1)"

definition trim_period :: "int \<Rightarrow> int" where
  "trim_period ttl = max (ttl div 4) 60000"

section \<open>Invariant of the subscription tables\<close>

declare map_of_eq_Some_iff [simp del]

definition gauge :: "(string \<times> 'c list) list \<Rightarrow> int" where
  "gauge ts = sum_list (map (\<lambda>p. int (length (snd p))) ts)"

text \<open>
  Every topic in the table has subscribers, each once; the gauge counts the pairs of a topic and
  a subscriber; replay state exists only for a registered subscriber.
\<close>

definition bus_inv :: "'c Bus \<Rightarrow> bool" where
  "bus_inv b \<longleftrightarrow>
     distinct (map fst (topicSubs b))
     \<and> (\<forall>p \<in> set (topicSubs b). snd p \<noteq> [] \<and> distinct (snd p))
     \<and> LocalSubscriptions b = gauge (topicSubs b)
     \<and> distinct (map fst (replay b))
     \<and> (\<forall>c t. map_of (replay b) (c, t) \<noteq> None \<longrightarrow> c \<in> set (topic_subs b t))"

lemma gauge_simps [simp]: "gauge [] = 0" "gauge ((t, cs) # ts) = int (length cs) + gauge ts"
  by (simp_all add: gauge_def)

definition count_at :: "(string \<times> 'c list) list \<Rightarrow> string \<Rightarrow> int" where
  "count_at ts t = (case map_of ts t of None \<Rightarrow> 0 | Some cs \<Rightarrow> int (length cs))"

lemma count_at_simps [simp]:
  "count_at [] t = 0"
  "count_at ((u, cs) # ts) t = (if u = t then int (length cs) else count_at ts t)"
  by (simp_all add: count_at_def)

lemma count_at_absent: "t \<notin> fst ` set ts \<Longrightarrow> count_at ts t = 0"
  by (induction ts) auto

lemma gauge_update:
  "distinct (map fst ts) \<Longrightarrow> gauge (AList.update t cs ts) = gauge ts + int (length cs) - count_at ts t"
  by (induction ts) (auto simp: count_at_absent)

lemma gauge_delete: "distinct (map fst ts) \<Longrightarrow> gauge (AList.delete t ts) = gauge ts - count_at ts t"
  by (induction ts) (auto simp: delete_id count_at_absent)

lemma length_filter_neq:
  "distinct cs \<Longrightarrow> int (length (filter (\<lambda>x. x \<noteq> c) cs)) = int (length cs) - (if c \<in> set cs then 1 else 0)"
  by (induction cs) auto

lemma topic_subs_New [simp]: "topic_subs New t = []"
  by (simp add: topic_subs_def New_def)

lemma New_inv: "bus_inv New"
  by (simp add: bus_inv_def New_def)

lemma bus_inv_subs:
  assumes "bus_inv b"
  shows "distinct (topic_subs b t)"
proof (cases "map_of (topicSubs b) t")
  case (Some cs)
  then have "(t, cs) \<in> set (topicSubs b)" by (rule map_of_SomeD)
  with assms Some show ?thesis by (auto simp: bus_inv_def topic_subs_def)
qed (simp add: topic_subs_def)

lemma set_update_table:
  "distinct (map fst ts) \<Longrightarrow> p \<in> set (AList.update t cs ts) \<Longrightarrow> p = (t, cs) \<or> p \<in> set ts"
  by (induction ts) (auto split: if_splits)

lemma topic_subs_addLocal:
  "topic_subs (addLocalSubLocked t c b) u =
     (if u = t \<and> c \<notin> set (topic_subs b t) then topic_subs b t @ [c] else topic_subs b u)"
  by (simp add: addLocalSubLocked_def topic_subs_def update_conv')

lemma replay_addLocal [simp]: "replay (addLocalSubLocked t c b) = replay b"
  by (simp add: addLocalSubLocked_def)

lemma addLocal_inv:
  assumes inv: "bus_inv b"
  shows "bus_inv (addLocalSubLocked t c b)"
proof (cases "c \<in> set (topic_subs b t)")
  case True
  with inv show ?thesis by (simp add: addLocalSubLocked_def)
next
  case False
  have keys: "distinct (map fst (topicSubs b))" using inv by (simp add: bus_inv_def)
  have len: "count_at (topicSubs b) t = int (length (topic_subs b t))"
    by (simp add: topic_subs_def count_at_def split: option.splits)
  have rep: "\<forall>d u. map_of (replay b) (d, u) \<noteq> None \<longrightarrow> d \<in> set (topic_subs (addLocalSubLocked t c b) u)"
    using inv by (auto simp: bus_inv_def topic_subs_addLocal)
  show ?thesis
    using inv False bus_inv_subs [OF inv, of t] rep
    by (auto simp: bus_inv_def addLocalSubLocked_def keys distinct_update gauge_update len
        dest: set_update_table [OF keys])
qed

lemma topic_subs_count: "count_at (topicSubs b) t = int (length (topic_subs b t))"
  by (simp add: topic_subs_def count_at_def split: option.splits)

lemma RemoveLocal_tables:
  "map_of (topicSubs (RemoveLocalSubscription t c b)) =
     (map_of (topicSubs b))(t := (let out = filter (\<lambda>x. x \<noteq> c) (topic_subs b t) in if out = [] then None else Some out))"
  "replay (RemoveLocalSubscription t c b) = AList.delete (c, t) (replay b)"
  by (auto simp: RemoveLocalSubscription_def topic_subs_def Let_def update_conv' delete_conv' fun_eq_iff split: option.splits)

lemma topic_subs_RemoveLocal:
  "topic_subs (RemoveLocalSubscription t c b) u =
     (if u = t then filter (\<lambda>x. x \<noteq> c) (topic_subs b t) else topic_subs b u)"
  unfolding topic_subs_def RemoveLocal_tables by (auto simp: Let_def split: option.splits)

lemma RemoveLocal_inv:
  assumes inv: "bus_inv b"
  shows "bus_inv (RemoveLocalSubscription t c b)"
proof -
  let ?out = "filter (\<lambda>x. x \<noteq> c) (topic_subs b t)"
  have keys: "distinct (map fst (topicSubs b))" using inv by (simp add: bus_inv_def)
  have rep: "\<forall>d u. map_of (AList.delete (c, t) (replay b)) (d, u) \<noteq> None \<longrightarrow>
      d \<in> set (topic_subs (RemoveLocalSubscription t c b) u)"
    using inv by (auto simp: bus_inv_def topic_subs_RemoveLocal delete_conv' split: if_splits)
  have tabs: "distinct (map fst (topicSubs (RemoveLocalSubscription t c b)))
      \<and> (\<forall>p \<in> set (topicSubs (RemoveLocalSubscription t c b)). snd p \<noteq> [] \<and> distinct (snd p))
      \<and> LocalSubscriptions (RemoveLocalSubscription t c b) = gauge (topicSubs (RemoveLocalSubscription t c b))"
  proof (cases "map_of (topicSubs b) t")
    case None
    then show ?thesis using inv by (simp add: RemoveLocalSubscription_def bus_inv_def)
  next
    case (Some cs)
    then have cs: "cs = topic_subs b t" by (simp add: topic_subs_def)
    have dis: "distinct cs" using bus_inv_subs [OF inv] cs by simp
    have del: "p \<in> set (AList.delete t (topicSubs b)) \<Longrightarrow> p \<in> set (topicSubs b)" for p
      by (simp add: AList.delete_eq)
    show ?thesis
      using inv Some dis length_filter_neq [OF dis, of c] topic_subs_count [of b t] cs
      by (auto simp: RemoveLocalSubscription_def bus_inv_def Let_def keys distinct_update distinct_delete
          gauge_update gauge_delete dest: set_update_table [OF keys] del)
  qed
  moreover have "distinct (map fst (AList.delete (c, t) (replay b)))"
    using inv by (simp add: bus_inv_def distinct_delete)
  ultimately show ?thesis using rep unfolding bus_inv_def RemoveLocal_tables(2) by blast
qed

lemma remove_from_topics_spec:
  assumes "distinct (map fst ts)" and "\<forall>p \<in> set ts. snd p \<noteq> [] \<and> distinct (snd p)"
    and "remove_from_topics c ts n = (ts', n')"
  shows "distinct (map fst ts') \<and> fst ` set ts' \<subseteq> fst ` set ts
    \<and> (\<forall>p \<in> set ts'. snd p \<noteq> [] \<and> distinct (snd p)) \<and> n' - gauge ts' = n - gauge ts
    \<and> (\<forall>t. map_of ts' t = (case map_of ts t of None \<Rightarrow> None
          | Some cs \<Rightarrow> let out = filter (\<lambda>x. x \<noteq> c) cs in if out = [] then None else Some out))"
  using assms
proof (induction ts arbitrary: n ts' n')
  case Nil
  then show ?case by simp
next
  case (Cons p ts)
  obtain t cs where p: "p = (t, cs)" by fastforce
  obtain ts1 n1 where rec: "remove_from_topics c ts (if c \<in> set cs then n - 1 else n) = (ts1, n1)" by fastforce
  from Cons.prems p have dis: "distinct cs" and new: "t \<notin> fst ` set ts" and "cs \<noteq> []" by auto
  from Cons.IH [OF _ _ rec] Cons.prems have ih: "distinct (map fst ts1)" "fst ` set ts1 \<subseteq> fst ` set ts"
    "\<forall>p \<in> set ts1. snd p \<noteq> [] \<and> distinct (snd p)" "n1 - gauge ts1 = (if c \<in> set cs then n - 1 else n) - gauge ts"
    "\<forall>t. map_of ts1 t = (case map_of ts t of None \<Rightarrow> None
          | Some cs \<Rightarrow> let out = filter (\<lambda>x. x \<noteq> c) cs in if out = [] then None else Some out)" by auto
  have absent: "map_of ts1 t = None" using new ih(2) by (force simp: map_of_eq_None_iff)
  have sub: "(a, ds) \<in> set ts1 \<Longrightarrow> a \<in> fst ` set ts" for a ds using ih(2) by force
  have keep: "filter (\<lambda>x. x \<noteq> c) cs = cs" if "c \<notin> set cs" using that by (auto simp: filter_id_conv)
  show ?case
    using Cons.prems(3) p rec ih new dis \<open>cs \<noteq> []\<close> absent keep length_filter_neq [OF dis, of c]
    by (auto simp: Let_def split: if_splits dest: sub)
qed

lemma RemoveAll_tables:
  assumes "bus_inv b"
  shows "topic_subs (RemoveSubscriberAll c b) t = filter (\<lambda>x. x \<noteq> c) (topic_subs b t)"
proof -
  obtain ts n where r: "remove_from_topics c (topicSubs b) (LocalSubscriptions b) = (ts, n)" by fastforce
  from assms have "distinct (map fst (topicSubs b))" "\<forall>p \<in> set (topicSubs b). snd p \<noteq> [] \<and> distinct (snd p)"
    by (auto simp: bus_inv_def)
  from remove_from_topics_spec [OF this r] r show ?thesis
    by (auto simp: topic_subs_def RemoveSubscriberAll_def Let_def split: option.splits)
qed

lemma map_of_filter_keys: "map_of (filter (\<lambda>p. P (fst p)) xs) k = (if P k then map_of xs k else None)"
  by (induction xs) auto

lemma RemoveAll_inv:
  assumes inv: "bus_inv b"
  shows "bus_inv (RemoveSubscriberAll c b)"
proof -
  obtain ts n where r: "remove_from_topics c (topicSubs b) (LocalSubscriptions b) = (ts, n)" by fastforce
  have fields: "topicSubs (RemoveSubscriberAll c b) = ts" "LocalSubscriptions (RemoveSubscriberAll c b) = n"
    "replay (RemoveSubscriberAll c b) = filter (\<lambda>p. fst (fst p) \<noteq> c) (replay b)"
    by (simp_all add: RemoveSubscriberAll_def r)
  from inv have "distinct (map fst (topicSubs b))" "\<forall>p \<in> set (topicSubs b). snd p \<noteq> [] \<and> distinct (snd p)"
    by (auto simp: bus_inv_def)
  note spec = remove_from_topics_spec [OF this r]
  have "map_of (replay (RemoveSubscriberAll c b)) (d, u) = (if d \<noteq> c then map_of (replay b) (d, u) else None)" for d u
    using map_of_filter_keys [of "\<lambda>k. fst k \<noteq> c" "replay b" "(d, u)"] by (simp add: fields)
  then have rep: "\<forall>d u. map_of (replay (RemoveSubscriberAll c b)) (d, u) \<noteq> None \<longrightarrow>
      d \<in> set (topic_subs (RemoveSubscriberAll c b) u)"
    using inv by (simp add: bus_inv_def RemoveAll_tables [OF inv])
  moreover have "distinct (map fst (replay (RemoveSubscriberAll c b)))"
    using inv unfolding fields by (simp add: bus_inv_def distinct_map_filter_fst)
  moreover have "n = gauge ts" using spec inv by (simp add: bus_inv_def)
  ultimately show ?thesis using spec unfolding bus_inv_def by (simp add: fields)
qed

text \<open>Operations on the replay table leave the subscriptions alone.\<close>

lemma update_replay_frame [simp]:
  "topicSubs (update_replay c t f b) = topicSubs b"
  "LocalSubscriptions (update_replay c t f b) = LocalSubscriptions b"
  "topic_subs (update_replay c t f b) u = topic_subs b u"
  by (simp_all add: update_replay_def topic_subs_def split: option.splits)

lemma update_replay_map:
  "map_of (replay (update_replay c t f b)) = (map_of (replay b))((c, t) := map_option f (map_of (replay b) (c, t)))"
  by (auto simp: update_replay_def update_conv' fun_eq_iff split: option.splits)

lemma update_replay_inv: "bus_inv b \<Longrightarrow> bus_inv (update_replay c t f b)"
  unfolding bus_inv_def update_replay_map update_replay_frame
  by (auto simp: update_replay_def distinct_update split: option.splits)

lemma bus_inv_replay:
  assumes "bus_inv b" and "distinct (map fst r)"
    and "\<forall>c t. map_of r (c, t) \<noteq> None \<longrightarrow> c \<in> set (topic_subs b t)"
  shows "bus_inv (b\<lparr>replay := r\<rparr>)"
  using assms by (simp add: bus_inv_def topic_subs_def)

lemma delete_replay_inv:
  assumes "bus_inv b"
  shows "bus_inv (b\<lparr>replay := AList.delete (c, t) (replay b)\<rparr>)"
  using assms by (intro bus_inv_replay) (auto simp: bus_inv_def distinct_delete delete_conv' split: if_splits)

lemma swr_register_inv:
  assumes "bus_inv b"
  shows "bus_inv (swr_register c t b)"
  unfolding swr_register_def Let_def
  using addLocal_inv [OF assms, of t c] topic_subs_addLocal [of t c b t]
  by (intro bus_inv_replay) (auto simp: bus_inv_def distinct_update update_conv' split: if_splits)

lemma decide_fanout_inv:
  "bus_inv b \<Longrightarrow> bus_inv (fst (decide_fanout P t m cs b dl n k))"
  by (induction P t m cs b dl n k rule: decide_fanout.induct) (auto intro: update_replay_inv)

lemma bus_inv_counters:
  "bus_inv (b\<lparr>FanoutFiltered := a, FanoutBuffered := d\<rparr>) = bus_inv b"
  "bus_inv (b\<lparr>PublishTotal := a\<rparr>) = bus_inv b"
  "bus_inv (b\<lparr>JudgeDecisions := l\<rparr>) = bus_inv b"
  "bus_inv (b\<lparr>ReplayMessages := a, ReplayTruncated := d\<rparr>) = bus_inv b"
  by (simp_all add: bus_inv_def topic_subs_def)

lemma handleTopic_inv: "bus_inv (bus x) \<Longrightarrow> bus_inv (bus (handleTopic env t pl x))"
  using decide_fanout_inv [of "bus x"]
  by (auto simp: handleTopic_def Let_def bus_inv_counters split: option.splits prod.splits) (metis fst_conv)+

lemma PublishTopic_bus_inv: "bus_inv (bus x) \<Longrightarrow> bus_inv (bus (snd (PublishTopic env t d rt x)))"
  by (auto simp: PublishTopic_def Let_def bus_inv_counters split: prod.splits option.splits sum.splits)

lemma bus_dispatch_inv: "bus_inv (bus x) \<Longrightarrow> bus_inv (bus (bus_dispatch env ch pl x))"
  by (auto simp: bus_dispatch_def handleTopic_inv handleBroadcast_def handleReport_def split: option.splits)

text \<open>
  One step of a bus: an operation of a connection, a critical section of \<^verbatim>\<open>SubscribeWithReplay\<close>, a
  publish, a message of the pattern subscription, or anything else that happens to the
  subscribers and to Redis.
\<close>

inductive bus_op :: "('c, 'w, 's) bus_env \<Rightarrow> ('c, 'w, 's) inst \<Rightarrow> ('c, 'w, 's) inst \<Rightarrow> bool" for env where
  op_add: "bus_op env x (x\<lparr>bus := AddLocalSubscription t c (bus x)\<rparr>)"
| op_remove: "bus_op env x (x\<lparr>bus := RemoveLocalSubscription t c (bus x)\<rparr>)"
| op_remove_all: "bus_op env x (x\<lparr>bus := RemoveSubscriberAll c (bus x)\<rparr>)"
| op_register: "bus_op env x (x\<lparr>bus := swr_register c t (bus x)\<rparr>)"
| op_mark: "bus_op env x (x\<lparr>bus := swr_mark c t m (bus x)\<rparr>)"
| op_finish: "bus_op env x (x\<lparr>bus := snd (swr_finish c t (bus x))\<rparr>)"
| op_publish: "bus_op env x (snd (PublishTopic env t d rt x))"
| op_dispatch: "bus_op env x (bus_dispatch env ch pl x)"
| op_other: "bus_op env x (x\<lparr>world := w, rds := s\<rparr>)"

lemma bus_op_inv: "bus_op env x x' \<Longrightarrow> bus_inv (bus x) \<Longrightarrow> bus_inv (bus x')"
  by (induction rule: bus_op.induct)
    (auto simp: AddLocalSubscription_def swr_mark_def swr_finish_def addLocal_inv RemoveLocal_inv RemoveAll_inv
      swr_register_inv update_replay_inv delete_replay_inv PublishTopic_bus_inv bus_dispatch_inv)

interpretation bus_sys: inv_system "\<lambda>_. True" "\<lambda>_ x. bus x = New" bus_op "\<lambda>_ x. bus_inv (bus x)"
  by unfold_locales (auto simp: New_inv intro: bus_op_inv)

text \<open>
  The subscription tables. Whatever sequence of subscribes, unsubscribes, disconnects, replays,
  publishes and announcements runs on a new bus, no subscriber is listed twice for a topic, no
  topic without subscribers stays in the table, the gauge of local subscriptions is the number
  of listed pairs, and replay state is held only for a subscriber that is registered.
\<close>

theorem bus_tables_consistent:
  assumes "(bus_op env)\<^sup>*\<^sup>* x0 x" and "bus x0 = New"
  shows "(\<forall>p \<in> set (topicSubs (bus x)). snd p \<noteq> [] \<and> distinct (snd p))
    \<and> distinct (map fst (topicSubs (bus x)))
    \<and> LocalSubscriptions (bus x) = gauge (topicSubs (bus x))
    \<and> (\<forall>c t. map_of (replay (bus x)) (c, t) \<noteq> None \<longrightarrow> c \<in> set (topic_subs (bus x) t))"
proof -
  from bus_sys.reachable_inv [OF _ assms(2,1)] have "bus_inv (bus x)" by blast
  then show ?thesis by (simp add: bus_inv_def)
qed

definition demo_cfg_bus :: bus_cfg where
  "demo_cfg_bus = \<lparr>StreamMaxLength = 100, StreamTTL = 0, InstanceID = ''i1'',
     judging = \<lparr>Judge = None, Candidates = None, JudgeTimeout = 0, JudgeFailurePolicy = DeliverAll\<rparr>\<rparr>"

text \<open>A rendering that only keeps the size of a frame small, for evaluation.\<close>

definition tiny :: "json \<Rightarrow> string" where
  "tiny j = ''x''"

definition demo_env :: "(cref, hub_world, ref_state) bus_env" where
  "demo_env = \<lparr>be_pub = Some ref_redis, be_subs = hub_subscribers tiny, be_broadcast = Some (hub_target tiny),
     be_cfg = demo_cfg_bus\<rparr>"

definition demo_inst :: "(cref, hub_world, ref_state) inst" where
  "demo_inst = \<lparr>bus = New, world = demo_world, rds = \<lparr>entries = [], pubs = []\<rparr>\<rparr>"

theorem bus_tables_consistent_witness:
  "LocalSubscriptions (RemoveSubscriberAll (3 :: nat) (AddLocalSubscription ''t'' 3 New)) = 0"
proof -
  let ?x = "demo_inst\<lparr>bus := AddLocalSubscription ''t'' 3 (bus demo_inst)\<rparr>"
  have "(bus_op demo_env)\<^sup>*\<^sup>* demo_inst (?x\<lparr>bus := RemoveSubscriberAll 3 (bus ?x)\<rparr>)"
    using op_add [of demo_env demo_inst "''t''" 3] op_remove_all [of demo_env ?x 3]
    by (meson converse_rtranclp_into_rtranclp r_into_rtranclp)
  from bus_tables_consistent [OF this] show ?thesis
    by (simp add: demo_inst_def AddLocalSubscription_def addLocalSubLocked_def New_def topic_subs_def
        RemoveSubscriberAll_def)
qed

section \<open>Fan-out\<close>

lemma is_buffering_update:
  "(\<And>rs. buffering (f rs) = buffering rs) \<Longrightarrow> is_buffering (update_replay c t f b) d u = is_buffering b d u"
  by (auto simp: is_buffering_def update_replay_map split: option.splits)

definition buffer_for :: "string \<Rightarrow> bufferedMsg \<Rightarrow> 'c \<Rightarrow> 'c Bus \<Rightarrow> 'c Bus" where
  "buffer_for t m c = update_replay c t (\<lambda>rs. rs\<lparr>buf := buf rs @ [m]\<rparr>)"

lemma is_buffering_buffer_for [simp]: "is_buffering (buffer_for t m c b) d u = is_buffering b d u"
  by (simp add: buffer_for_def is_buffering_update)

lemma decide_fanout_closed:
  "decide_fanout P t m cs b dl n k =
     (fold (buffer_for t m) (filter (\<lambda>c. is_buffering b c t) cs) b,
      dl @ filter (\<lambda>c. \<not> is_buffering b c t \<and> P c) cs,
      n + length (filter (\<lambda>c. is_buffering b c t) cs),
      k + length (filter (\<lambda>c. \<not> is_buffering b c t \<and> \<not> P c) cs))"
  by (induction cs arbitrary: b dl n k) (auto simp: buffer_for_def [symmetric])

lemma fold_buffer_map:
  "distinct cs \<Longrightarrow> map_of (replay (fold (buffer_for t m) cs b)) (c, u) =
     (if u = t \<and> c \<in> set cs then map_option (\<lambda>rs. rs\<lparr>buf := buf rs @ [m]\<rparr>) (map_of (replay b) (c, t))
      else map_of (replay b) (c, u))"
  by (induction cs arbitrary: b) (auto simp: buffer_for_def update_replay_map)

context subscribers
begin

lemma deliver_loop_world:
  "snd (snd (deliver_loop S rt frame cs d k w)) = fold (\<lambda>c. sub_Send S c frame) cs w"
  by (induction cs arbitrary: d k w) (auto simp: reporting split: option.splits)

lemma deliver_loop_counts:
  assumes "distinct cs" and "rt \<noteq> []" and "\<forall>c \<in> set cs. sub_SendReporting S c \<noteq> None"
  shows "fst (deliver_loop S rt frame cs d k w) = d + length (filter (\<lambda>c. accepts frame (st w c)) cs)
    \<and> fst (snd (deliver_loop S rt frame cs d k w)) = k + length (filter (\<lambda>c. \<not> accepts frame (st w c)) cs)"
  using assms
proof (induction cs arbitrary: d k w)
  case Nil
  then show ?case by simp
next
  case (Cons c cs)
  then obtain f where f: "sub_SendReporting S c = Some f" by auto
  have oth: "st (sub_Send S c frame w) e = st w e" if "e \<in> set cs" for e
    using Cons.prems(1) that by (intro send_other) auto
  have "filter (\<lambda>e. accepts frame (st (sub_Send S c frame w) e)) cs = filter (\<lambda>e. accepts frame (st w e)) cs"
    "filter (\<lambda>e. \<not> accepts frame (st (sub_Send S c frame w) e)) cs = filter (\<lambda>e. \<not> accepts frame (st w e)) cs"
    using oth by (auto intro!: filter_cong)
  with Cons f show ?case by (auto simp: reporting [OF f])
qed

end

text \<open>The subscribers one announcement is sent to at once.\<close>

definition chosen :: "('c, 'w) Subscriber \<Rightarrow> ('c, 'w, 's) inst \<Rightarrow> string \<Rightarrow> wireTopicPayload \<Rightarrow> 'c list" where
  "chosen S x t p = filter (\<lambda>c. \<not> is_buffering (bus x) c t \<and> allowedSubscriber S (world x) (wp_Recipients p) c)
     (topic_subs (bus x) t)"

lemma handleTopic_fields:
  assumes "unmarshal_wireTopic pl = Some p"
  shows "replay (bus (handleTopic env t pl x)) =
      replay (fold (buffer_for t \<lparr>bm_streamID = wp_StreamID p, bm_data = wp_Data p\<rparr>)
        (filter (\<lambda>c. is_buffering (bus x) c t) (topic_subs (bus x) t)) (bus x))"
    and "world (handleTopic env t pl x) = snd (snd (deliver_loop (be_subs env) (wp_ReportTo p)
        (EncodePublish t (wp_Data p) (wp_StreamID p) False) (chosen (be_subs env) x t p) 0 0 (world x)))"
  using assms by (auto simp: handleTopic_def decide_fanout_closed chosen_def Let_def split: prod.splits)

lemma hub_chosen:
  "c \<in> set (chosen (hub_subscribers marshal) x t p) \<longleftrightarrow>
     c \<in> set (topic_subs (bus x) t) \<and> \<not> is_buffering (bus x) c t
     \<and> (case wp_Recipients p of None \<Rightarrow> True | Some ids \<Rightarrow> conn_id (heap (world x) c) \<in> set ids)"
  by (auto simp: chosen_def allowedSubscriber_def hub_subscribers_def split: option.splits)

text \<open>
  Fan-out. An announcement is sent to exactly the local subscribers of its topic that are not
  in the middle of a replay and that its recipient list admits; every other connection is left
  as it was. A subscriber in the middle of a replay gets it appended to its buffer instead, and
  no other buffer changes.
\<close>

theorem handleTopic_fanout:
  assumes inv: "bus_inv (bus x)" and subs: "be_subs env = hub_subscribers marshal"
    and pl: "unmarshal_wireTopic pl = Some p"
  shows "heap (world (handleTopic env t pl x)) c =
      (if c \<in> set (topic_subs (bus x) t) \<and> \<not> is_buffering (bus x) c t
          \<and> (case wp_Recipients p of None \<Rightarrow> True | Some ids \<Rightarrow> conn_id (heap (world x) c) \<in> set ids)
       then Send (marshal (EncodePublish t (wp_Data p) (wp_StreamID p) False)) (heap (world x) c)
       else heap (world x) c)
    \<and> map_of (replay (bus (handleTopic env t pl x))) (c, u) =
      (if u = t \<and> c \<in> set (topic_subs (bus x) t) \<and> is_buffering (bus x) c t
       then map_option (\<lambda>rs. rs\<lparr>buf := buf rs @ [\<lparr>bm_streamID = wp_StreamID p, bm_data = wp_Data p\<rparr>]\<rparr>)
         (map_of (replay (bus x)) (c, t))
       else map_of (replay (bus x)) (c, u))"
proof -
  have dis: "distinct (topic_subs (bus x) t)" by (rule bus_inv_subs [OF inv])
  then have "distinct (chosen (be_subs env) x t p)" by (simp add: chosen_def)
  from hub_subs.send_all_state [OF this, where marshal = marshal and w = "world x" and d = c
      and m = "EncodePublish t (wp_Data p) (wp_StreamID p) False"]
  have "heap (world (handleTopic env t pl x)) c = (if c \<in> set (chosen (hub_subscribers marshal) x t p)
      then Send (marshal (EncodePublish t (wp_Data p) (wp_StreamID p) False)) (heap (world x) c) else heap (world x) c)"
    by (simp add: handleTopic_fields [OF pl] subs hub_subs.deliver_loop_world)
  moreover have "map_of (replay (bus (handleTopic env t pl x))) (c, u) =
      (if u = t \<and> c \<in> set (topic_subs (bus x) t) \<and> is_buffering (bus x) c t
       then map_option (\<lambda>rs. rs\<lparr>buf := buf rs @ [\<lparr>bm_streamID = wp_StreamID p, bm_data = wp_Data p\<rparr>]\<rparr>)
         (map_of (replay (bus x)) (c, t))
       else map_of (replay (bus x)) (c, u))"
    using dis by (simp add: handleTopic_fields [OF pl] fold_buffer_map)
  ultimately show ?thesis unfolding hub_chosen by blast
qed

lemma wireTopic_roundtrip:
  "unmarshal_wireTopic (marshal_wireTopic p) = Some (p\<lparr>wp_Data := Some (marshal_raw (wp_Data p))\<rparr>)"
  by (cases "wp_ReportTo p = []"; cases "wp_Recipients p")
    (simp_all add: unmarshal_wireTopic_def marshal_wireTopic_def object_fields_def ToLower_def lower_char_def
      dec_raw_def json_strings_def)

definition demo_sub_inst :: "(cref, hub_world, ref_state) inst" where
  "demo_sub_inst = demo_inst\<lparr>bus := AddLocalSubscription ''t'' 3 (AddLocalSubscription ''t'' 4 New)\<rparr>"

definition demo_payload :: wireTopicPayload where
  "demo_payload = \<lparr>wp_StreamID = ''1-0'', wp_Data = Some JNull, wp_ReportTo = [], wp_Recipients = Some [''3'']\<rparr>"

lemma demo_sub_inv: "bus_inv (bus demo_sub_inst)"
  by (simp add: demo_sub_inst_def AddLocalSubscription_def addLocal_inv New_inv)

lemmas bus_eval = demo_sub_inst_def demo_inst_def demo_payload_def AddLocalSubscription_def
  addLocalSubLocked_def New_def topic_subs_def demo_env_def tiny_def

theorem handleTopic_fanout_witness:
  "let x = handleTopic demo_env ''t'' (marshal_wireTopic demo_payload) demo_sub_inst in
     sendCh (heap (world x) 3) = [text_frame ''x''] \<and> sendCh (heap (world x) 4) = []"
proof -
  have subs: "be_subs demo_env = hub_subscribers tiny" by (simp add: demo_env_def)
  note f = handleTopic_fanout [OF demo_sub_inv subs wireTopic_roundtrip [of demo_payload], of "''t''"]
  have "sendCh (Send ''x'' (heap demo_world 3)) = [text_frame ''x'']" "sendCh (heap demo_world 4) = []"
    by (simp_all add: demo_world_def conn_eval)
  moreover have "conn_id (heap demo_world 3) = ''3''" "conn_id (heap demo_world 4) \<noteq> ''3''"
    by (simp_all add: demo_world_def NewConn_def demo_cfg_def FormatUint.simps digit_char_eval)
  ultimately show ?thesis
    using f [of 3] f [of 4] by (simp add: bus_eval is_buffering_def Let_def)
qed

end
