(* ===== verification/Client.thy ===== *)
theory Client
  imports Bus Interleave
begin

text \<open>
  The shared bookkeeping in Redis: \<^verbatim>\<open>internal/redisx/client.go\<close>. Connection reference counts, the
  membership of topics and the acknowledgement cursors, as programs over the Redis client. The
  operations that read and write in separate commands are also given as the sequences of their
  commands, which the rest of the cluster may interrupt anywhere, and with one such step in between.
\<close>

section \<open>Operations\<close>

definition count_key :: "string \<Rightarrow> string" where "count_key uk = ''conn:count:'' @ uk"

definition active_key :: string where "active_key = ''activeConnections''"

definition AddConnection :: "'s redis \<Rightarrow> string \<Rightarrow> ('s, unit) cmd" where
  "AddConnection R uk s =
     (case rIncr R (count_key uk) s of
        (Inl e, s1) \<Rightarrow> (Inl (Wrap ''incr conn count: '' e []), s1)
      | (Inr n, s1) \<Rightarrow>
          if n = 1 then
            (case rSAdd R active_key uk s1 of
               (Inl e, s2) \<Rightarrow> (Inl (Wrap ''sadd activeConnections: '' e []), s2)
             | (Inr _, s2) \<Rightarrow> (Inr (), s2))
          else (Inr (), s1))"

text \<open>\<open>other\<close> is what the rest of the cluster does between DECR and DEL.\<close>

definition RemoveConnection_between :: "('s \<Rightarrow> 's) \<Rightarrow> 's redis \<Rightarrow> string \<Rightarrow> ('s, unit) cmd" where
  "RemoveConnection_between other R uk s =
     (case rDecr R (count_key uk) s of
        (Inl e, s1) \<Rightarrow> (Inl (Wrap ''decr conn count: '' e []), s1)
      | (Inr n, s1) \<Rightarrow>
          if n \<le> 0 then
            (case rDel R (count_key uk) (other s1) of
               (Inl e, s2) \<Rightarrow> (Inl (Wrap ''del conn count: '' e []), s2)
             | (Inr _, s2) \<Rightarrow>
                 (case rSRem R active_key uk s2 of
                    (Inl e, s3) \<Rightarrow> (Inl (Wrap ''srem activeConnections: '' e []), s3)
                  | (Inr _, s3) \<Rightarrow> (Inr (), s3)))
          else (Inr (), s1))"

definition RemoveConnection :: "'s redis \<Rightarrow> string \<Rightarrow> ('s, unit) cmd" where
  "RemoveConnection = RemoveConnection_between (\<lambda>s. s)"

definition topic_key :: "string \<Rightarrow> string" where "topic_key topic = ''topic:'' @ topic"

definition subscribed_key :: "string \<Rightarrow> string" where "subscribed_key uk = uk @ '':subscribedTopics''"

definition AddTopicSubscription :: "'s redis \<Rightarrow> string \<Rightarrow> string \<Rightarrow> ('s, unit) cmd" where
  "AddTopicSubscription R uk topic s =
     (case rSAdd R (topic_key topic) uk s of
        (Inl e, s1) \<Rightarrow> (Inl (Wrap ''sadd topic members: '' e []), s1)
      | (Inr _, s1) \<Rightarrow>
          (case rSAdd R (subscribed_key uk) topic s1 of
             (Inl e, s2) \<Rightarrow> (Inl (Wrap ''sadd subscribedTopics: '' e []), s2)
           | (Inr _, s2) \<Rightarrow> (Inr (), s2)))"

definition RemoveTopicSubscription :: "'s redis \<Rightarrow> string \<Rightarrow> string \<Rightarrow> ('s, unit) cmd" where
  "RemoveTopicSubscription R uk topic s =
     (case rSRem R (topic_key topic) uk s of
        (Inl e, s1) \<Rightarrow> (Inl (Wrap ''srem topic members: '' e []), s1)
      | (Inr _, s1) \<Rightarrow>
          (case rSRem R (subscribed_key uk) topic s1 of
             (Inl e, s2) \<Rightarrow> (Inl (Wrap ''srem subscribedTopics: '' e []), s2)
           | (Inr _, s2) \<Rightarrow> (Inr (), s2)))"

definition ackCursorKey :: "string \<Rightarrow> string \<Rightarrow> string" where
  "ackCursorKey uk topic = ''ack:'' @ uk @ '':'' @ topic"

text \<open>\<open>other\<close> is what the rest of the cluster does between GET and SET.\<close>

definition SetAckCursor_between ::
  "('s \<Rightarrow> 's) \<Rightarrow> 's redis \<Rightarrow> string \<Rightarrow> string \<Rightarrow> string \<Rightarrow> int \<Rightarrow> ('s, unit) cmd" where
  "SetAckCursor_between other R uk topic sid ttl s =
     (let key = ackCursorKey uk topic; (r, s1) = rGet R key s in
      if (case r of Inl e \<Rightarrow> e \<noteq> RedisNil | Inr _ \<Rightarrow> False)
      then (Inl (Wrap ''get ack cursor: '' (projl r) []), s1)
      else let current = (case r of Inl _ \<Rightarrow> [] | Inr x \<Rightarrow> x) in
        if current \<noteq> [] \<and> \<not> StreamIDLess current sid then (Inr (), s1)
        else (case rSet R key sid ttl (other s1) of
                (Inl e, s2) \<Rightarrow> (Inl (Wrap ''set ack cursor: '' e []), s2)
              | (Inr _, s2) \<Rightarrow> (Inr (), s2)))"

definition SetAckCursor :: "'s redis \<Rightarrow> string \<Rightarrow> string \<Rightarrow> string \<Rightarrow> int \<Rightarrow> ('s, unit) cmd" where
  "SetAckCursor = SetAckCursor_between (\<lambda>s. s)"

definition AckCursor :: "'s redis \<Rightarrow> string \<Rightarrow> string \<Rightarrow> ('s, string) cmd" where
  "AckCursor R uk topic s =
     (case rGet R (ackCursorKey uk topic) s of
        (Inl e, s1) \<Rightarrow> (if e = RedisNil then Inr [] else Inl (Wrap ''get ack cursor: '' e []), s1)
      | (Inr x, s1) \<Rightarrow> (Inr x, s1))"

definition TopicSubscribers :: "'s redis \<Rightarrow> string \<Rightarrow> ('s, string list) cmd" where
  "TopicSubscribers R topic = rSMembers R (topic_key topic)"

definition SubscribedTopics :: "'s redis \<Rightarrow> string \<Rightarrow> ('s, string list) cmd" where
  "SubscribedTopics R uk = rSMembers R (subscribed_key uk)"

section \<open>Acknowledgement cursors\<close>

text \<open>The acknowledged position of a user in a topic, read off the keyspace.\<close>

definition ack_at :: "rdb \<Rightarrow> string \<Rightarrow> string \<Rightarrow> string option" where
  "ack_at d uk topic = str_at d (ackCursorKey uk topic)"

text \<open>The two commands of an acknowledgement; run alone they are \<^verbatim>\<open>SetAckCursor\<close>.\<close>

definition SetAckCursor_cmds :: "'s redis \<Rightarrow> string \<Rightarrow> string \<Rightarrow> string \<Rightarrow> int \<Rightarrow> ('s, unit result) prog" where
  "SetAckCursor_cmds R uk topic sid ttl =
     (let key = ackCursorKey uk topic in
      ask (rGet R key) (\<lambda>r.
        if (case r of Inl e \<Rightarrow> e \<noteq> RedisNil | Inr _ \<Rightarrow> False)
        then Ret (Inl (Wrap ''get ack cursor: '' (projl r) []))
        else let current = (case r of Inl _ \<Rightarrow> [] | Inr x \<Rightarrow> x) in
          if current \<noteq> [] \<and> \<not> StreamIDLess current sid then Ret (Inr ())
          else ask (rSet R key sid ttl) (\<lambda>r. case r of
                 Inl e \<Rightarrow> Ret (Inl (Wrap ''set ack cursor: '' e []))
               | Inr _ \<Rightarrow> Ret (Inr ()))))"

lemma SetAckCursor_alone: "alone (SetAckCursor_cmds R uk t sid ttl) = SetAckCursor R uk t sid ttl"
  by (auto simp: fun_eq_iff SetAckCursor_cmds_def SetAckCursor_def SetAckCursor_between_def Let_def split: prod.splits sum.splits)

text \<open>An acknowledgement is a position with the time to live of the cursor.\<close>

definition ack_cmds :: "'s redis \<Rightarrow> string \<Rightarrow> string \<Rightarrow> string \<times> int \<Rightarrow> ('s, unit result) prog" where
  "ack_cmds R uk t a = SetAckCursor_cmds R uk t (fst a) (snd a)"

text \<open>The rest of the cluster leaves the cursor alone, or else lets it expire at most.\<close>

definition leaves_ack :: "('s \<Rightarrow> rdb) \<Rightarrow> string \<Rightarrow> string \<Rightarrow> 's \<Rightarrow> 's \<Rightarrow> bool" where
  "leaves_ack v uk t s s' \<longleftrightarrow> ack_at (v s') uk t = ack_at (v s) uk t
     \<and> str_key (v s') (ackCursorKey uk t) = str_key (v s) (ackCursorKey uk t)"

definition may_expire :: "('s \<Rightarrow> rdb) \<Rightarrow> string \<Rightarrow> string \<Rightarrow> 's \<Rightarrow> 's \<Rightarrow> bool" where
  "may_expire v uk t s s' \<longleftrightarrow> ack_at (v s') uk t \<in> {None, ack_at (v s) uk t}"

lemma leaves_ack_steps [simp]: "(leaves_ack v uk t)\<^sup>*\<^sup>* = leaves_ack v uk t"
  by (rule steps_of_preorder) (auto simp: leaves_ack_def intro: reflpI transpI)

lemma SetAckCursor_moves:
  assumes doc: "documented net R v" and run: "within (leaves_ack v uk t) (ack_cmds R uk t a) s r s'"
  shows "ack_at (v s') uk t = ack_at (v s) uk t \<or>
    (ack_at (v s') uk t = Some (fst a) \<and> (\<forall>cur. ack_at (v s) uk t = Some cur \<and> cur \<noteq> [] \<longrightarrow> StreamIDLess cur (fst a)))"
proof -
  let ?k = "ackCursorKey uk t" and ?E = "leaves_ack v uk t" and ?at = "\<lambda>s. ack_at (v s) uk t"
  let ?rest = "ask (rSet R ?k (fst a) (snd a)) (\<lambda>r. case r of Inl e \<Rightarrow> Ret (Inl (Wrap ''set ack cursor: '' e [])) | Inr _ \<Rightarrow> Ret (Inr ()))"
  obtain s1 g s2 where "?E s s1" and get: "rGet R ?k s1 = (g, s2)"
    and rest: "within ?E (if (case g of Inl e \<Rightarrow> e \<noteq> RedisNil | Inr _ \<Rightarrow> False) then Ret (Inl (Wrap ''get ack cursor: '' (projl g) []))
      else if (case g of Inl _ \<Rightarrow> [] | Inr x \<Rightarrow> x) \<noteq> [] \<and> \<not> StreamIDLess (case g of Inl _ \<Rightarrow> [] | Inr x \<Rightarrow> x) (fst a)
        then Ret (Inr ()) else ?rest) s2 r s'"
    by (rule within_ask [OF run [unfolded ack_cmds_def SetAckCursor_cmds_def Let_def], unfolded leaves_ack_steps])
  then have e1: "?at s1 = ?at s" by (simp add: leaves_ack_def)
  have at2: "?at s2 = ?at s" using rGet_state [OF doc get] e1 by simp
  have stop: "?at s' = ?at s" if "within ?E (Ret x) s2 r s'" for x using within_Ret [OF that] at2 by (auto simp: leaves_ack_def)
  have wr: "?at s' = ?at s \<or> ?at s' = Some (fst a)" if w: "within ?E ?rest s2 r s'"
  proof -
    obtain s3 p s4 where "?E s2 s3" and set: "rSet R ?k (fst a) (snd a) s3 = (p, s4)"
      and ret: "within ?E (case p of Inl e \<Rightarrow> Ret (Inl (Wrap ''set ack cursor: '' e [])) | Inr _ \<Rightarrow> Ret (Inr ())) s4 r s'"
      by (rule within_ask [OF w, unfolded leaves_ack_steps])
    then have e3: "?at s3 = ?at s" using at2 by (simp add: leaves_ack_def)
    have "v s4 = v s3 \<or> v s4 = put ?k (Some (VStr (fst a) (ttl_of (snd a)))) (v s3)"
      using obeysD [OF doc_rSet [OF doc] set] by (auto simp: doc_Set_def)
    moreover have "?at s' = ?at s4" using ret by (auto simp: leaves_ack_def split: sum.splits dest!: within_Ret)
    ultimately show ?thesis using e3 by (auto simp: ack_at_def str_at_put)
  qed
  have "?at s = Some x" if "g = Inr x" for x using rGet_Inr [OF doc get [unfolded that]] e1 by (simp add: ack_at_def)
  moreover have "?at s = None" if "g = Inl RedisNil" using rGet_Nil [OF doc get [unfolded that]] e1 by (simp add: ack_at_def)
  ultimately show ?thesis using rest stop wr by (cases g) (auto split: if_splits)
qed


lemma SetAckCursor_lands:
  assumes doc: "documented False R v" and key: "str_key (v s) (ackCursorKey uk t)" and sid: "fst a \<noteq> []"
    and run: "within (leaves_ack v uk t) (ack_cmds R uk t a) s r s'"
  shows "str_key (v s') (ackCursorKey uk t)
    \<and> (\<exists>cur. ack_at (v s') uk t = Some cur \<and> cur \<noteq> [] \<and> \<not> StreamIDLess cur (fst a))"
proof -
  let ?k = "ackCursorKey uk t" and ?E = "leaves_ack v uk t" and ?at = "\<lambda>s. ack_at (v s) uk t"
  let ?rest = "ask (rSet R ?k (fst a) (snd a)) (\<lambda>r. case r of Inl e \<Rightarrow> Ret (Inl (Wrap ''set ack cursor: '' e [])) | Inr _ \<Rightarrow> Ret (Inr ()))"
  obtain s1 g s2 where e1: "?E s s1" and get: "rGet R ?k s1 = (g, s2)"
    and rest: "within ?E (if (case g of Inl e \<Rightarrow> e \<noteq> RedisNil | Inr _ \<Rightarrow> False) then Ret (Inl (Wrap ''get ack cursor: '' (projl g) []))
      else if (case g of Inl _ \<Rightarrow> [] | Inr x \<Rightarrow> x) \<noteq> [] \<and> \<not> StreamIDLess (case g of Inl _ \<Rightarrow> [] | Inr x \<Rightarrow> x) (fst a)
        then Ret (Inr ()) else ?rest) s2 r s'"
    by (rule within_ask [OF run [unfolded ack_cmds_def SetAckCursor_cmds_def Let_def], unfolded leaves_ack_steps])
  have key1: "str_key (v s1) ?k" using e1 key by (simp add: leaves_ack_def)
  have g: "g = (case ?at s1 of None \<Rightarrow> Inl RedisNil | Some y \<Rightarrow> Inr y)" "v s2 = v s1"
    using obeys_sureD [OF doc_rGet [OF doc, of ?k], of s1] get key1 by (simp_all add: doc_Get_def typed_def ack_at_def)
  have wr: "str_key (v s') ?k \<and> ?at s' = Some (fst a)" if w: "within ?E ?rest s2 r s'"
  proof -
    obtain s3 p s4 where "?E s2 s3" and set: "rSet R ?k (fst a) (snd a) s3 = (p, s4)"
      and ret: "within ?E (case p of Inl e \<Rightarrow> Ret (Inl (Wrap ''set ack cursor: '' e [])) | Inr _ \<Rightarrow> Ret (Inr ())) s4 r s'"
      by (rule within_ask [OF w, unfolded leaves_ack_steps])
    have "v s4 = put ?k (Some (VStr (fst a) (ttl_of (snd a)))) (v s3)"
      using obeys_sureD [OF doc_rSet [OF doc, of ?k "fst a" "snd a"], of s3] set by (simp add: doc_Set_def)
    then have "str_key (v s4) ?k \<and> ?at s4 = Some (fst a)" by (simp add: ack_at_def str_at_put str_key_def)
    then show ?thesis using ret by (auto simp: leaves_ack_def split: sum.splits dest!: within_Ret)
  qed
  show ?thesis
  proof (cases "within ?E ?rest s2 r s'")
    case True
    with wr sid show ?thesis by (simp add: StreamIDLess_pos pos_less_irrefl)
  next
    case False
    with rest g(1) obtain cur where cur: "?at s1 = Some cur" "cur \<noteq> []" "\<not> StreamIDLess cur (fst a)"
      and "within ?E (Ret (Inr ())) s2 r s'" by (auto split: option.splits if_splits)
    with within_Ret [OF this(4)] g(2) key1 show ?thesis by (auto simp: leaves_ack_def)
  qed
qed

lemma acks_forward:
  assumes doc: "documented net R v"
  shows "calls_within (leaves_ack v uk t) (ack_cmds R uk t) as s rs s' \<Longrightarrow> [] \<notin> fst ` set as \<Longrightarrow>
    ack_at (v s) uk t = Some cur \<Longrightarrow> cur \<noteq> [] \<Longrightarrow>
    \<exists>cur'. ack_at (v s') uk t = Some cur' \<and> cur' \<noteq> [] \<and> (cur' = cur \<or> StreamIDLess cur cur')"
proof (induction arbitrary: cur rule: calls_within.induct)
  case (calls_Nil s s')
  then have "leaves_ack v uk t s s'" by simp
  with calls_Nil.prems show ?case by (simp add: leaves_ack_def)
next
  case (calls_Cons a s r s1 as rs s')
  from SetAckCursor_moves [OF doc calls_Cons.hyps(1)] calls_Cons.prems obtain c1
    where c1: "ack_at (v s1) uk t = Some c1" "c1 \<noteq> []" "c1 = cur \<or> StreamIDLess cur c1" by force
  from calls_Cons.IH [OF _ c1(1,2)] calls_Cons.prems obtain c2
    where "ack_at (v s') uk t = Some c2" "c2 \<noteq> []" "c2 = c1 \<or> StreamIDLess c1 c2" by auto
  with c1 show ?case by (auto simp: StreamIDLess_pos intro: pos_less_trans)
qed

lemma acks_land:
  assumes doc: "documented False R v"
  shows "calls_within (leaves_ack v uk t) (ack_cmds R uk t) as s rs s' \<Longrightarrow> [] \<notin> fst ` set as \<Longrightarrow>
    str_key (v s) (ackCursorKey uk t) \<Longrightarrow> a \<in> set as \<Longrightarrow>
    \<exists>cur. ack_at (v s') uk t = Some cur \<and> \<not> StreamIDLess cur (fst a)"
proof (induction rule: calls_within.induct)
  case (calls_Nil s s')
  then show ?case by simp
next
  case (calls_Cons x s r s1 as rs s')
  have "fst x \<noteq> []" using calls_Cons.prems(1) by force
  note here = SetAckCursor_lands [OF doc calls_Cons.prems(2) this calls_Cons.hyps(1)]
  show ?case
  proof (cases "a \<in> set as")
    case True
    with calls_Cons here show ?thesis by auto
  next
    case False
    with calls_Cons.prems have a: "a = x" by simp
    from here obtain c1 where c1: "ack_at (v s1) uk t = Some c1" "c1 \<noteq> []" "\<not> StreamIDLess c1 (fst x)" by blast
    from acks_forward [OF doc calls_Cons.hyps(2) _ c1(1,2)] calls_Cons.prems(1) obtain c2
      where "ack_at (v s') uk t = Some c2" "c2 = c1 \<or> StreamIDLess c1 c2" by auto
    with c1 a show ?thesis by (auto simp: StreamIDLess_pos pos_less_def)
  qed
qed

text \<open>Acknowledgements of several sockets of a user, interleaved: the cursor stays among what was acknowledged.\<close>

interpretation ack_pool: guarded_pool "\<lambda>(R, v, uk, t, c0, S). documented True R v"
  "\<lambda>(R, v, uk, t, c0, S) s. ack_at (v s) uk t \<in> {None, c0} \<union> Some ` S" "\<lambda>(R, v, uk, t, c0, S). may_expire v uk t"
  "\<lambda>(R, v, uk, t, c0, S). ack_cmds R uk t" "\<lambda>(R, v, uk, t, c0, S) a. fst a \<in> S" "\<lambda>w a r. True"
proof (unfold_locales, goal_cases)
  case (1 w s s')
  then show ?case by (cases w) (auto simp: may_expire_def)
next
  case (2 w a)
  obtain R v uk t c0 S where w: "w = (R, v, uk, t, c0, S)" by (cases w)
  with 2 have doc: "documented True R v" and S: "fst a \<in> S" by simp_all
  let ?I = "\<lambda>s. ack_at (v s) uk t \<in> {None, c0} \<union> Some ` S" and ?k = "ackCursorKey uk t"
  have wr: "keeps ?I (\<lambda>r. True) (ask (rSet R ?k (fst a) (snd a)) (\<lambda>r. case r of
      Inl e \<Rightarrow> Ret (Inl (Wrap ''set ack cursor: '' e [])) | Inr _ \<Rightarrow> Ret (Inr ())))"
    using S by (intro keeps_askI)
      (auto simp: doc_Set_def ack_at_def str_at_put dest!: obeysD [OF doc_rSet [OF doc]] split: sum.splits)
  show ?case unfolding w prod.case ack_cmds_def SetAckCursor_cmds_def Let_def
    by (rule keeps_askI) (use wr in \<open>auto dest: rGet_state [OF doc] simp del: keeps.simps(2)\<close>)
qed

text \<open>
  Cursors move forward (C28). When the acknowledgements of a user in a topic do not overlap, in any order
  and with repetitions, while between their commands other clients do anything that leaves the
  cursor alone, a stored cursor never moves back, whatever fails on the way; and on a server that
  answers, it ends at or after every acknowledged position. When acknowledgements overlap, their
  commands interleaved in any order, and the cursor may expire, it may move back, but only to what it was at
  the start or to one of the acknowledged positions: nothing unacknowledged is passed over.
\<close>

theorem ack_cursor_monotone:
  assumes doc: "documented net R v" and ids: "[] \<notin> fst ` set as"
    and run: "calls_within (leaves_ack v uk t) (ack_cmds R uk t) as s rs s'"
    and mixed: "(pool_step (may_expire v uk t) (ack_cmds R uk t) (\<lambda>a. a \<in> set as))\<^sup>*\<^sup>* ([], s) (calls, s'')"
  shows "(ack_at (v s) uk t = Some cur \<and> cur \<noteq> [] \<longrightarrow>
      (\<exists>cur'. ack_at (v s') uk t = Some cur' \<and> (cur' = cur \<or> StreamIDLess cur cur')))
    \<and> (\<not> net \<and> str_key (v s) (ackCursorKey uk t) \<and> a \<in> set as \<longrightarrow>
      (\<exists>cur'. ack_at (v s') uk t = Some cur' \<and> \<not> StreamIDLess cur' (fst a)))
    \<and> ack_at (v s'') uk t \<in> {None, ack_at (v s) uk t} \<union> Some ` fst ` set as"
proof -
  have "\<exists>cur'. ack_at (v s') uk t = Some cur' \<and> \<not> StreamIDLess cur' (fst a)"
    if "\<not> net" "str_key (v s) (ackCursorKey uk t)" "a \<in> set as"
    using acks_land [of R v uk t as s rs s' a] doc run ids that by simp
  moreover have "ack_at (v s'') uk t \<in> {None, ack_at (v s) uk t} \<union> Some ` fst ` set as"
  proof -
    have "(pool_step (may_expire v uk t) (ack_cmds R uk t) (\<lambda>a. fst a \<in> fst ` set as))\<^sup>*\<^sup>* ([], s) (calls, s'')"
      by (rule rtranclp_mono [THEN predicate2D, OF _ mixed]) (auto elim!: pool_step.cases intro: pool_step.intros)
    with ack_pool.pool_inv [of "(R, v, uk, t, ack_at (v s) uk t, fst ` set as)" s calls s''] documented_any [OF doc]
    show ?thesis by simp
  qed
  ultimately show ?thesis using acks_forward [OF doc run ids, of cur] by blast
qed

definition no_data :: ref_state where "no_data = \<lparr>entries = [], pubs = []\<rparr>"

theorem ack_cursor_monotone_witness:
  "\<exists>rs s' cur. calls_within (leaves_ack ref_view ''ann'' ''t'') (ack_cmds ref_redis ''ann'' ''t'') [(''9-0'', 0), (''10-0'', 0)] no_data rs s'
     \<and> ack_at (ref_view s') ''ann'' ''t'' = Some cur \<and> \<not> StreamIDLess cur ''10-0''"
proof -
  let ?as = "[(''9-0'', 0), (''10-0'', 0)] :: (string \<times> int) list" and ?f = "ack_cmds ref_redis ''ann'' ''t''"
  let ?run = "run_ops (\<lambda>a. alone (?f a)) ?as no_data"
  have run: "calls_within (leaves_ack ref_view ''ann'' ''t'') ?f ?as no_data (fst ?run) (snd ?run)" by (rule calls_alone)
  have ids: "[] \<notin> fst ` set ?as" and key: "str_key (ref_view no_data) (ackCursorKey ''ann'' ''t'')"
    by (simp_all add: no_data_def str_key_def)
  from ack_cursor_monotone [OF ref_redis_documented ids run rtranclp.rtrancl_refl, of "[]" "(''10-0'', 0)"] run key
  show ?thesis by auto
qed

text \<open>
  Overlapping acknowledgements can move a cursor back: an acknowledgement whose GET found no cursor
  overwrites whatever a later position another socket of the user stored before its SET.
\<close>

lemma overlapping_ack_overwrites:
  assumes doc: "documented False R v" and none: "keyspace (v s) (ackCursorKey uk t) = None"
  shows "ack_at (v (snd (SetAckCursor_between other R uk t sid ttl s))) uk t = Some sid"
proof -
  let ?k = "ackCursorKey uk t"
  obtain g s1 where g: "rGet R ?k s = (g, s1)" by fastforce
  have "g = Inl RedisNil"
    using obeys_sureD [OF doc_rGet [OF doc, of ?k], of s] g none by (simp add: doc_Get_def typed_def str_key_def str_at_def)
  moreover obtain u s2 where u: "rSet R ?k sid ttl (other s1) = (u, s2)" by fastforce
  have "ack_at (v s2) uk t = Some sid"
    using obeys_sureD [OF doc_rSet [OF doc, of ?k sid ttl], of "other s1"] u by (simp add: doc_Set_def ack_at_def str_at_put)
  ultimately show ?thesis using g u by (auto simp: SetAckCursor_between_def Let_def split: sum.splits)
qed

section \<open>Connection counts\<close>

text \<open>The counter and the set of active users agree that a user has \<open>n\<close> connections.\<close>

definition conn_rel :: "rdb \<Rightarrow> string \<Rightarrow> nat \<Rightarrow> bool" where
  "conn_rel d uk n \<longleftrightarrow> set_key d active_key
     \<and> (if n = 0 then keyspace d (count_key uk) = None \<and> uk \<notin> set_at d active_key
        else str_at d (count_key uk) = Some (FormatInt (int n)) \<and> uk \<in> set_at d active_key)"

lemma count_key_not_active [simp]: "count_key uk \<noteq> active_key" "active_key \<noteq> count_key uk"
  by (simp_all add: count_key_def active_key_def)

lemma set_at_put_other: "k \<noteq> k' \<Longrightarrow> set_at (put k x d) k' = set_at d k'"
  "k \<noteq> k' \<Longrightarrow> set_key (put k x d) k' = set_key d k'"
  by (simp_all add: set_at_def set_key_def)

lemma conn_counter:
  assumes "conn_rel d uk n" and "int n \<le> max_int64"
  shows "str_key d (count_key uk) \<and> counter_at d (count_key uk) = Some (int n)"
proof (cases n)
  case 0
  with assms show ?thesis by (simp add: conn_rel_def counter_at_def str_at_def str_key_def)
next
  case (Suc m)
  with assms have st: "str_at d (count_key uk) = Some (FormatInt (int n))" by (simp add: conn_rel_def)
  then obtain tm where "keyspace d (count_key uk) = Some (VStr (FormatInt (int n)) tm)"
    using str_at_SomeD by blast
  with st assms(2) show ?thesis
    by (simp add: counter_at_def str_key_def FormatInt_def ParseInt_FormatUint)
qed

lemma doc_SAdd_in:
  assumes "doc_SAdd k x d r d'" and "set_key d k"
  shows "r = Inr () \<and> set_key d' k \<and> set_at d' k = insert x (set_at d k) \<and> (\<forall>q. q \<noteq> k \<longrightarrow> keyspace d' q = keyspace d q)"
proof -
  from assms have "r = Inr ()" and "\<exists>ys. d' = put k (Some (VSet ys)) d \<and> set ys = insert x (set_at d k)"
    unfolding doc_SAdd_def typed_def by metis+
  then show ?thesis by (elim exE conjE) (simp_all only: set_at_put, simp_all add: set_key_def)
qed

lemma doc_SRem_out:
  assumes "doc_SRem k x d r d'" and "set_key d k"
  shows "r = Inr () \<and> set_key d' k \<and> set_at d' k = set_at d k - {x} \<and> (\<forall>q. q \<noteq> k \<longrightarrow> keyspace d' q = keyspace d q)"
proof -
  from assms have "r = Inr ()" and
    "(set_at d k - {x} = {} \<and> d' = put k None d) \<or> (\<exists>ys. d' = put k (Some (VSet ys)) d \<and> set ys = set_at d k - {x})"
    unfolding doc_SRem_def typed_def by metis+
  then show ?thesis by (elim disjE exE conjE) (simp_all only: set_at_put, simp_all add: set_key_def)
qed

text \<open>The commands of a connect and of a disconnect; run alone they are the operations above.\<close>

definition AddConnection_cmds :: "'s redis \<Rightarrow> string \<Rightarrow> ('s, unit result) prog" where
  "AddConnection_cmds R uk =
     ask (rIncr R (count_key uk)) (\<lambda>r. case r of
        Inl e \<Rightarrow> Ret (Inl (Wrap ''incr conn count: '' e []))
      | Inr n \<Rightarrow>
          if n = 1 then
            ask (rSAdd R active_key uk) (\<lambda>r. case r of
               Inl e \<Rightarrow> Ret (Inl (Wrap ''sadd activeConnections: '' e []))
             | Inr _ \<Rightarrow> Ret (Inr ()))
          else Ret (Inr ()))"

definition RemoveConnection_cmds :: "'s redis \<Rightarrow> string \<Rightarrow> ('s, unit result) prog" where
  "RemoveConnection_cmds R uk =
     ask (rDecr R (count_key uk)) (\<lambda>r. case r of
        Inl e \<Rightarrow> Ret (Inl (Wrap ''decr conn count: '' e []))
      | Inr n \<Rightarrow>
          if n \<le> 0 then
            ask (rDel R (count_key uk)) (\<lambda>r. case r of
               Inl e \<Rightarrow> Ret (Inl (Wrap ''del conn count: '' e []))
             | Inr _ \<Rightarrow>
                 ask (rSRem R active_key uk) (\<lambda>r. case r of
                    Inl e \<Rightarrow> Ret (Inl (Wrap ''srem activeConnections: '' e []))
                  | Inr _ \<Rightarrow> Ret (Inr ())))
          else Ret (Inr ()))"

lemma conn_cmds_alone:
  "alone (AddConnection_cmds R uk) = AddConnection R uk" "alone (RemoveConnection_cmds R uk) = RemoveConnection R uk"
  by (auto simp: fun_eq_iff AddConnection_cmds_def AddConnection_def RemoveConnection_cmds_def RemoveConnection_def
      RemoveConnection_between_def split: prod.splits sum.splits)

text \<open>
  Connects (\<open>True\<close>) and disconnects of one user, on any instances, one after the other. The
  specification is the number of connections; it promises nothing for a disconnect without one.
\<close>

definition conn_cmds :: "'s redis \<Rightarrow> string \<Rightarrow> bool \<Rightarrow> ('s, unit result) prog" where
  "conn_cmds R uk b = (if b then AddConnection_cmds R uk else RemoveConnection_cmds R uk)"

fun conn_spec :: "bool \<Rightarrow> nat \<Rightarrow> (unit result \<times> nat) option" where
  "conn_spec True n = (if int n < max_int64 then Some (Inr (), Suc n) else None)"
| "conn_spec False 0 = None"
| "conn_spec False (Suc n) = (if int (Suc n) \<le> max_int64 then Some (Inr (), n) else None)"

text \<open>What the rest of the cluster may do meanwhile: anything that leaves the count and the membership of the user.\<close>

definition user_kept :: "string \<Rightarrow> rdb \<Rightarrow> rdb \<Rightarrow> bool" where
  "user_kept uk d d' \<longleftrightarrow> keyspace d' (count_key uk) = keyspace d (count_key uk)
     \<and> (uk \<in> set_at d' active_key \<longleftrightarrow> uk \<in> set_at d active_key) \<and> set_key d' active_key = set_key d active_key"

definition leaves_user :: "('s \<Rightarrow> rdb) \<Rightarrow> string \<Rightarrow> 's \<Rightarrow> 's \<Rightarrow> bool" where
  "leaves_user v uk s s' \<longleftrightarrow> user_kept uk (v s) (v s')"

lemma leaves_user_steps [simp]: "(leaves_user v uk)\<^sup>*\<^sup>* = leaves_user v uk"
  by (rule steps_of_preorder) (auto simp: leaves_user_def user_kept_def intro: reflpI transpI)

text \<open>A user's state between two commands: the count and the membership.\<close>

definition user_at :: "rdb \<Rightarrow> string \<Rightarrow> int option \<Rightarrow> bool \<Rightarrow> bool" where
  "user_at d uk n act \<longleftrightarrow> set_key d active_key \<and> (uk \<in> set_at d active_key \<longleftrightarrow> act)
     \<and> (case n of None \<Rightarrow> keyspace d (count_key uk) = None | Some c \<Rightarrow> str_at d (count_key uk) = Some (FormatInt c))"

lemma user_at_leaves: "leaves_user v uk s s' \<Longrightarrow> user_at (v s) uk n act \<Longrightarrow> user_at (v s') uk n act"
  by (auto simp: leaves_user_def user_kept_def user_at_def str_at_def split: option.splits)

lemma conn_rel_user_at: "conn_rel d uk n = user_at d uk (if n = 0 then None else Some (int n)) (0 < n)"
  by (auto simp: conn_rel_def user_at_def)

lemma user_at_incr:
  assumes "doc_IncrBy (count_key uk) z d r d'" and "user_at d uk (Some (c - z)) act \<or> (user_at d uk None act \<and> c = z)"
    and "0 \<le> c - z" "c - z \<le> max_int64" "0 \<le> c" "c \<le> max_int64"
  shows "r = Inr c \<and> user_at d' uk (Some c) act"
proof -
  have "str_key d (count_key uk) \<and> counter_at d (count_key uk) = Some (c - z)"
    using assms(2-4)
    by (auto simp: user_at_def str_key_def counter_at_def str_at_def FormatInt_def ParseInt_FormatUint split: option.splits rval.splits)
  moreover have "min_int64 \<le> c" using assms(5) by (simp add: min_int64_def)
  ultimately have "r = Inr c \<and> d' = put (count_key uk) (Some (VStr (FormatInt c) (ttl_at d (count_key uk)))) d"
    using assms(1,6) by (simp add: doc_IncrBy_def typed_def)
  with assms(2) show ?thesis by (auto simp: user_at_def set_at_put_other str_at_def)
qed

lemma AddConnection_within:
  assumes doc: "documented False R v" and rel: "conn_rel (v s) uk n" and big: "int n < max_int64"
    and run: "within (leaves_user v uk) (AddConnection_cmds R uk) s r s'"
  shows "r = Inr () \<and> conn_rel (v s') uk (Suc n)"
proof -
  let ?E = "leaves_user v uk"
  let ?add = "ask (rSAdd R active_key uk) (\<lambda>r. case r of Inl e \<Rightarrow> Ret (Inl (Wrap ''sadd activeConnections: '' e [])) | Inr _ \<Rightarrow> Ret (Inr ()))"
  obtain s1 i s2 where e1: "?E s s1" and inc: "rIncr R (count_key uk) s1 = (i, s2)"
    and rest: "within ?E (case i of Inl e \<Rightarrow> Ret (Inl (Wrap ''incr conn count: '' e [])) | Inr n \<Rightarrow> if n = 1 then ?add else Ret (Inr ())) s2 r s'"
    by (rule within_ask [OF run [unfolded AddConnection_cmds_def], unfolded leaves_user_steps])
  have "user_at (v s1) uk (if n = 0 then None else Some (int n)) (0 < n)"
    using user_at_leaves [OF e1] rel by (simp add: conn_rel_user_at)
  then have two: "i = Inr (int n + 1)" "user_at (v s2) uk (Some (int n + 1)) (0 < n)"
    using user_at_incr [OF obeys_sureD [OF doc_rIncr [OF doc, of "count_key uk"], of s1], of "int n + 1" "0 < n"] inc big
    by (auto split: if_splits)
  show ?thesis
  proof (cases n)
    case 0
    with rest two(1) have w: "within ?E ?add s2 r s'" by simp
    obtain s3 q s4 where e3: "?E s2 s3" and add: "rSAdd R active_key uk s3 = (q, s4)"
      and ret: "within ?E (case q of Inl e \<Rightarrow> Ret (Inl (Wrap ''sadd activeConnections: '' e [])) | Inr _ \<Rightarrow> Ret (Inr ())) s4 r s'"
      by (rule within_ask [OF w, unfolded leaves_user_steps])
    note u3 = user_at_leaves [OF e3 two(2)]
    from obeys_sureD [OF doc_rSAdd [OF doc, of active_key uk], of s3] add
    have "doc_SAdd active_key uk (v s3) q (v s4)" by simp
    from doc_SAdd_in [OF this] u3 have "q = Inr ()" "user_at (v s4) uk (Some 1) True"
      using 0 by (auto simp: user_at_def str_at_def)
    with ret within_Ret [of ?E "Inr ()" s4 r s'] user_at_leaves [of v uk s4 s'] 0 show ?thesis
      by (auto simp: conn_rel_user_at)
  next
    case (Suc m)
    with rest two within_Ret [of ?E "Inr ()" s2 r s'] user_at_leaves [of v uk s2 s'] show ?thesis
      by (auto simp: conn_rel_user_at algebra_simps)
  qed
qed

lemma RemoveConnection_within:
  assumes doc: "documented False R v" and rel: "conn_rel (v s) uk (Suc n)" and big: "int (Suc n) \<le> max_int64"
    and run: "within (leaves_user v uk) (RemoveConnection_cmds R uk) s r s'"
  shows "r = Inr () \<and> conn_rel (v s') uk n"
proof -
  let ?E = "leaves_user v uk"
  let ?rem = "ask (rSRem R active_key uk) (\<lambda>r. case r of Inl e \<Rightarrow> Ret (Inl (Wrap ''srem activeConnections: '' e [])) | Inr _ \<Rightarrow> Ret (Inr ()))"
  let ?del = "ask (rDel R (count_key uk)) (\<lambda>r. case r of Inl e \<Rightarrow> Ret (Inl (Wrap ''del conn count: '' e [])) | Inr _ \<Rightarrow> ?rem)"
  obtain s1 i s2 where e1: "?E s s1" and dec: "rDecr R (count_key uk) s1 = (i, s2)"
    and rest: "within ?E (case i of Inl e \<Rightarrow> Ret (Inl (Wrap ''decr conn count: '' e [])) | Inr n \<Rightarrow> if n \<le> 0 then ?del else Ret (Inr ())) s2 r s'"
    by (rule within_ask [OF run [unfolded RemoveConnection_cmds_def], unfolded leaves_user_steps])
  have "user_at (v s1) uk (Some (int n + 1)) True"
    using user_at_leaves [OF e1] rel by (simp add: conn_rel_user_at algebra_simps)
  then have two: "i = Inr (int n)" "user_at (v s2) uk (Some (int n)) True"
    using user_at_incr [OF obeys_sureD [OF doc_rDecr [OF doc, of "count_key uk"], of s1], of "int n" True] dec big by auto
  show ?thesis
  proof (cases n)
    case 0
    with rest two(1) have w: "within ?E ?del s2 r s'" by simp
    obtain s3 q s4 where e3: "?E s2 s3" and del: "rDel R (count_key uk) s3 = (q, s4)"
      and rest2: "within ?E (case q of Inl e \<Rightarrow> Ret (Inl (Wrap ''del conn count: '' e [])) | Inr _ \<Rightarrow> ?rem) s4 r s'"
      by (rule within_ask [OF w, unfolded leaves_user_steps])
    have q: "\<exists>z. q = Inr z" "user_at (v s4) uk None True"
      using obeys_sureD [OF doc_rDel [OF doc, of "count_key uk"], of s3] del user_at_leaves [OF e3 two(2)]
      by (auto simp: doc_Del_def user_at_def set_at_put_other)
    with rest2 have w2: "within ?E ?rem s4 r s'" by auto
    obtain s5 p s6 where e5: "?E s4 s5" and rem: "rSRem R active_key uk s5 = (p, s6)"
      and ret: "within ?E (case p of Inl e \<Rightarrow> Ret (Inl (Wrap ''srem activeConnections: '' e [])) | Inr _ \<Rightarrow> Ret (Inr ())) s6 r s'"
      by (rule within_ask [OF w2, unfolded leaves_user_steps])
    note u5 = user_at_leaves [OF e5 q(2)]
    from obeys_sureD [OF doc_rSRem [OF doc, of active_key uk], of s5] rem
    have "doc_SRem active_key uk (v s5) p (v s6)" by simp
    from doc_SRem_out [OF this] u5 have "p = Inr ()" "user_at (v s6) uk None False" by (auto simp: user_at_def)
    with ret within_Ret [of ?E "Inr ()" s6 r s'] user_at_leaves [of v uk s6 s'] 0 show ?thesis
      by (auto simp: conn_rel_user_at)
  next
    case (Suc m)
    with rest two within_Ret [of ?E "Inr ()" s2 r s'] user_at_leaves [of v uk s2 s'] show ?thesis
      by (auto simp: conn_rel_user_at)
  qed
qed

lemma AddConnection_count:
  assumes "documented False R v" and "conn_rel (v s) uk n" and "int n < max_int64"
  shows "fst (AddConnection R uk s) = Inr () \<and> conn_rel (v (snd (AddConnection R uk s))) uk (Suc n)"
  using AddConnection_within [OF assms within_alone] by (simp add: conn_cmds_alone)

lemma RemoveConnection_count:
  assumes "documented False R v" and "conn_rel (v s) uk (Suc n)" and "int (Suc n) \<le> max_int64"
  shows "fst (RemoveConnection R uk s) = Inr () \<and> conn_rel (v (snd (RemoveConnection R uk s))) uk n"
  using RemoveConnection_within [OF assms within_alone] by (simp add: conn_cmds_alone)

interpretation conn_count: interrupted_simulation "\<lambda>(R, v, uk). documented False R v" "\<lambda>(R, v, uk) s. conn_rel (v s) uk"
  "\<lambda>(R, v, uk). leaves_user v uk" "\<lambda>(R, v, uk). conn_cmds R uk" "\<lambda>_. conn_spec"
proof (unfold_locales, goal_cases)
  case (1 w s s' n)
  then show ?case by (cases w) (auto simp: conn_rel_user_at intro: user_at_leaves)
next
  case (2 w s n b r n' r' s')
  obtain R v uk where w: "w = (R, v, uk)" by (cases w)
  from 2 AddConnection_within [of R v s uk n r' s'] RemoveConnection_within [of R v s uk n' r' s'] show ?case
    by (cases "(b, n)" rule: conn_spec.cases) (auto simp: w conn_cmds_def split: if_splits)
qed

text \<open>Connects and disconnects of another user are such an environment, command by command.\<close>

lemma other_user_cmd:
  assumes "obeys net v c P" and "\<And>d r d'. P d r d' \<Longrightarrow> user_kept uk d d'"
  shows "leaves_user v uk s (snd (c s))"
  using obeysD [OF assms(1), of s "fst (c s)" "snd (c s)"] assms(2)
  by (auto simp: leaves_user_def) (auto simp: user_kept_def)

lemma other_user_kept:
  assumes "u \<noteq> uk"
  shows "doc_IncrBy (count_key u) z d r d' \<Longrightarrow> user_kept uk d d'" "doc_Del (count_key u) d r1 d' \<Longrightarrow> user_kept uk d d'"
    "doc_SAdd active_key u d r2 d' \<Longrightarrow> user_kept uk d d'" "doc_SRem active_key u d r3 d' \<Longrightarrow> user_kept uk d d'"
proof -
  have ck: "count_key uk \<noteq> count_key u" using assms by (simp add: count_key_def)
  then show "doc_IncrBy (count_key u) z d r d' \<Longrightarrow> user_kept uk d d'" "doc_Del (count_key u) d r1 d' \<Longrightarrow> user_kept uk d d'"
    by (auto simp: doc_IncrBy_def doc_Del_def typed_def user_kept_def set_at_put_other split: if_splits option.splits)
  show "user_kept uk d d'" if a: "doc_SAdd active_key u d r2 d'"
    using doc_SAdd_in [OF a] a assms by (cases "set_key d active_key") (auto simp: user_kept_def doc_SAdd_def typed_def)
  show "user_kept uk d d'" if a: "doc_SRem active_key u d r3 d'"
    using doc_SRem_out [OF a] a assms by (cases "set_key d active_key") (auto simp: user_kept_def doc_SRem_def typed_def)
qed

lemma other_users_leave:
  assumes "documented net R v" and "u \<noteq> uk"
  shows "guarantees (leaves_user v uk) (conn_cmds R u b)"
proof -
  note doc = assms(1) and kept = other_user_kept [OF assms(2)]
  have "leaves_user v uk s (snd (rIncr R (count_key u) s))" "leaves_user v uk s (snd (rDecr R (count_key u) s))"
    "leaves_user v uk s (snd (rDel R (count_key u) s))" "leaves_user v uk s (snd (rSAdd R active_key u s))"
    "leaves_user v uk s (snd (rSRem R active_key u s))" for s
    by (auto intro: other_user_cmd [OF doc_rIncr [OF doc]] other_user_cmd [OF doc_rDecr [OF doc]] other_user_cmd [OF doc_rDel [OF doc]]
        other_user_cmd [OF doc_rSAdd [OF doc]] other_user_cmd [OF doc_rSRem [OF doc]] kept)
  then show ?thesis
    by (auto simp: conn_cmds_def AddConnection_cmds_def RemoveConnection_cmds_def guarantees_ask split: sum.splits)
qed

text \<open>
  The active set (C27). The two keys in Redis refine the number of connections of a user: when the connects
  and disconnects of the user do not overlap one another, while anything that leaves the user's own
  count and membership happens before, between and after their commands, every call succeeds and
  the user is in \<^verbatim>\<open>activeConnections\<close> exactly when it has a connection left. The commands of the
  connects and disconnects of every other user are such changes, failed ones included.
\<close>

theorem active_iff_connected:
  assumes doc: "documented False R v" and start: "keyspace (v s) (count_key uk) = None"
    "set_key (v s) active_key" "uk \<notin> set_at (v s) active_key"
    and total: "run_spec conn_spec bs 0 = Some (rs, n)"
    and run: "calls_within (leaves_user v uk) (conn_cmds R uk) bs s rs' s'"
  shows "rs' = rs \<and> (uk \<in> set_at (v s') active_key \<longleftrightarrow> 0 < n)
    \<and> (\<forall>u b. u \<noteq> uk \<longrightarrow> guarantees (leaves_user v uk) (conn_cmds R u b))"
proof -
  have "conn_rel (v s) uk 0" using start by (simp add: conn_rel_def)
  with conn_count.calls_rel [of "(R, v, uk)" s 0 bs rs n rs' s'] doc total run other_users_leave [OF doc] show ?thesis
    by (simp add: conn_rel_def split: if_splits)
qed

theorem active_iff_connected_witness:
  "\<exists>s'. calls_within (leaves_user ref_view ''ann'') (conn_cmds ref_redis ''ann'') [True, True, False] no_data [Inr (), Inr (), Inr ()] s'
   \<and> ''ann'' \<in> set_at (ref_view s') active_key"
proof -
  let ?bs = "[True, True, False]" and ?f = "conn_cmds ref_redis ''ann''"
  let ?run = "run_ops (\<lambda>b. alone (?f b)) ?bs no_data"
  have run: "calls_within (leaves_user ref_view ''ann'') ?f ?bs no_data (fst ?run) (snd ?run)" by (rule calls_alone)
  have total: "run_spec conn_spec ?bs 0 = Some ([Inr (), Inr (), Inr ()], 1)" by (simp add: max_int64_def)
  from active_iff_connected [OF ref_redis_documented _ _ _ total run] run show ?thesis
    by (auto simp: no_data_def set_key_def set_at_def)
qed

text \<open>
  A connect lost to a disconnect. \<^verbatim>\<open>RemoveConnection\<close> decrements the count and deletes it in two
  commands. When the last connection of a user closes and the user connects again in between,
  the delete removes the new connection's count and the user leaves \<^verbatim>\<open>activeConnections\<close> while
  connected.
\<close>

theorem RemoveConnection_race:
  assumes doc: "documented False R v" and one: "conn_rel (v s) uk 1"
    and other: "other = (\<lambda>s. snd (AddConnection R uk s))"
  shows "uk \<in> set_at (v (snd (AddConnection R uk (snd (RemoveConnection R uk s))))) active_key
    \<and> uk \<notin> set_at (v (snd (RemoveConnection_between other R uk s))) active_key"
proof -
  let ?k = "count_key uk"
  have zero: "conn_rel (v (snd (RemoveConnection R uk s))) uk 0"
    using RemoveConnection_count [OF doc, of s uk 0] one by (simp add: max_int64_def)
  have fine: "uk \<in> set_at (v (snd (AddConnection R uk (snd (RemoveConnection R uk s))))) active_key"
    using AddConnection_count [OF doc zero] by (simp add: conn_rel_def max_int64_def)
  obtain r s1 where dec: "rDecr R ?k s = (r, s1)" by fastforce
  have r: "r = Inr 0" "v s1 = put ?k (Some (VStr (FormatInt 0) (ttl_at (v s) ?k))) (v s)"
    using obeys_sureD [OF doc_rDecr [OF doc, of ?k], of s] dec conn_counter [OF one]
    by (simp_all add: doc_IncrBy_def typed_def min_int64_def max_int64_def)
  obtain i s2 where inc: "rIncr R ?k s1 = (i, s2)" by fastforce
  have i: "i = Inr 1" "set_key (v s2) active_key"
    using obeys_sureD [OF doc_rIncr [OF doc, of ?k], of s1] inc one
    by (simp_all add: doc_IncrBy_def typed_def r str_key_def counter_at_def str_at_put FormatInt_def ParseInt_FormatUint
        min_int64_def max_int64_def conn_rel_def set_at_put_other)
  obtain q s3 where add: "rSAdd R active_key uk s2 = (q, s3)" by fastforce
  from obeys_sureD [OF doc_rSAdd [OF doc, of active_key uk], of s2] add
  have q: "q = Inr ()" "set_key (v s3) active_key" using doc_SAdd_in [OF _ i(2)] by auto
  obtain p s4 where del: "rDel R ?k s3 = (p, s4)" by fastforce
  have p: "\<exists>n. p = Inr n" "set_key (v s4) active_key"
    using obeys_sureD [OF doc_rDel [OF doc, of ?k], of s3] del q(2) by (simp_all add: doc_Del_def set_at_put_other)
  obtain z s5 where rem: "rSRem R active_key uk s4 = (z, s5)" by fastforce
  from obeys_sureD [OF doc_rSRem [OF doc, of active_key uk], of s4] rem
  have z: "z = Inr ()" "uk \<notin> set_at (v s5) active_key" using doc_SRem_out [OF _ p(2)] by auto
  have "other s1 = s3" by (simp add: other AddConnection_def inc i(1) add q(1))
  with dec r(1) del p(1) rem z fine show ?thesis by (auto simp: RemoveConnection_between_def)
qed

theorem RemoveConnection_race_witness:
  "''ann'' \<notin> set_at (ref_view (snd (RemoveConnection_between (\<lambda>s. snd (AddConnection ref_redis ''ann'' s)) ref_redis ''ann''
     (snd (AddConnection ref_redis ''ann'' no_data))))) active_key"
proof -
  have "conn_rel (ref_view no_data) ''ann'' 0" by (simp add: conn_rel_def no_data_def set_key_def set_at_def)
  from AddConnection_count [OF ref_redis_documented this]
  have "conn_rel (ref_view (snd (AddConnection ref_redis ''ann'' no_data))) ''ann'' 1" by (simp add: max_int64_def)
  from RemoveConnection_race [OF ref_redis_documented this refl] show ?thesis by blast
qed

section \<open>Keys\<close>

text \<open>
  Two uses of one key. The members of the topic \<^verbatim>\<open>stream:x\<close> live under the key of the history of
  the topic \<^verbatim>\<open>x\<close>. Once \<^verbatim>\<open>x\<close> has a history, subscribing to \<^verbatim>\<open>stream:x\<close> fails and changes nothing.
\<close>

theorem topic_key_collision:
  assumes doc: "documented False R v" and hist: "keyspace (v s) (streamKeyPrefix @ x) = Some (VStream es)"
  shows "fst (AddTopicSubscription R uk (''stream:'' @ x) s) = Inl (Wrap ''sadd topic members: '' WRONGTYPE [])
    \<and> v (snd (AddTopicSubscription R uk (''stream:'' @ x) s)) = v s"
proof -
  have k: "topic_key (''stream:'' @ x) = streamKeyPrefix @ x" by (simp add: topic_key_def prefix_defs)
  obtain r s1 where add: "rSAdd R (streamKeyPrefix @ x) uk s = (r, s1)" by fastforce
  have "r = Inl WRONGTYPE \<and> v s1 = v s"
    using obeys_sureD [OF doc_rSAdd [OF doc, of "streamKeyPrefix @ x" uk], of s] add hist
    by (simp add: doc_SAdd_def typed_def set_key_def)
  with add show ?thesis unfolding AddTopicSubscription_def k by simp
qed

theorem topic_key_collision_witness:
  "fst (AddTopicSubscription ref_redis ''ann'' ''stream:t'' \<lparr>entries = [(''topic:stream:t'', VStream [])], pubs = []\<rparr>)
     = Inl (Wrap ''sadd topic members: '' WRONGTYPE [])"
  using topic_key_collision [OF ref_redis_documented, of "\<lparr>entries = [(''topic:stream:t'', VStream [])], pubs = []\<rparr>" "''t''" "[]" "''ann''"]
  by (simp add: prefix_defs)

end
