(* ===== verification/Locks.thy ===== *)
theory Locks
  imports RedisRef Interleave
begin

text \<open>
  Topic locks: \<^verbatim>\<open>internal/redisx/locks.go\<close>. Every operation is a program over the Redis client;
  its error returns are the branches of the source. The operations are also given as the sequences
  of their commands, which calls of several holders interleave; what an owner can rely on then
  rests on an interpretation of \<open>guarded_pool\<close>, over every server that behaves as documented,
  failures of the network included.
\<close>

section \<open>Operations\<close>

definition LockPublish :: string where "LockPublish = ''publish''"

definition LockSubscribe :: string where "LockSubscribe = ''subscribe''"

definition DefaultLockTTL :: int where "DefaultLockTTL = 5 * 60 * 1000"

definition lockKey :: "string \<Rightarrow> string \<Rightarrow> string" where
  "lockKey topic kind = kind @ '':lock:'' @ topic"

definition lockedTopicsKey :: "string \<Rightarrow> string" where
  "lockedTopicsKey holder = holder @ '':lockedTopics''"

text \<open>The Lua script: GET, compare, DEL; a missing key is \<^verbatim>\<open>false\<close> in Lua and equals no string.\<close>

definition unlockScript :: "'s redis \<Rightarrow> string \<Rightarrow> string \<Rightarrow> ('s, int) cmd" where
  "unlockScript R key arg s =
     (case rGet R key s of
        (Inr x, s1) \<Rightarrow> if x = arg then rDel R key s1 else (Inr 0, s1)
      | (Inl e, s1) \<Rightarrow> if e = RedisNil then (Inr 0, s1) else (Inl e, s1))"

definition LockTopic :: "'s redis \<Rightarrow> string \<Rightarrow> string \<Rightarrow> string \<Rightarrow> int \<Rightarrow> ('s, unit) cmd" where
  "LockTopic R topic kind holder ttl s =
     (let ttl' = (if ttl \<le> 0 then DefaultLockTTL else ttl); key = lockKey topic kind in
      case rSetNX R key holder ttl' s of
        (Inl e, s1) \<Rightarrow> (Inl (Wrap ''setnx lock: '' e []), s1)
      | (Inr ok, s1) \<Rightarrow>
          if ok then
            (case rSAdd R (lockedTopicsKey holder) topic s1 of
               (Inl e, s2) \<Rightarrow> (Inl (Wrap ''sadd lockedTopics: '' e []), s2)
             | (Inr _, s2) \<Rightarrow> (Inr (), s2))
          else
            (case rGet R key s1 of
               (Inl e, s2) \<Rightarrow> (Inl (Wrap ''get lock owner: '' e []), s2)
             | (Inr owner, s2) \<Rightarrow> (if owner = holder then Inr () else Inl ErrLockHeldByOther, s2)))"

definition UnlockTopic :: "'s redis \<Rightarrow> string \<Rightarrow> string \<Rightarrow> string \<Rightarrow> ('s, unit) cmd" where
  "UnlockTopic R topic kind holder s =
     (case rEval R (unlockScript R (lockKey topic kind) holder) s of
        (Inl e, s1) \<Rightarrow> (Inl (Wrap ''eval unlock: '' e []), s1)
      | (Inr released, s1) \<Rightarrow>
          if released = 1 then
            (case rSRem R (lockedTopicsKey holder) topic s1 of
               (Inl e, s2) \<Rightarrow> (Inl (Wrap ''srem lockedTopics: '' e []), s2)
             | (Inr _, s2) \<Rightarrow> (Inr (), s2))
          else (Inr (), s1))"

text \<open>
  \<^verbatim>\<open>RenewLock\<close> is two commands, GET and then SET. \<open>RenewLock_between\<close> runs them with a step
  \<open>other\<close> of the rest of the cluster in between; \<open>RenewLock\<close> is the run in which nothing
  happens there.
\<close>

definition RenewLock_between :: "('s \<Rightarrow> 's) \<Rightarrow> 's redis \<Rightarrow> string \<Rightarrow> string \<Rightarrow> string \<Rightarrow> int \<Rightarrow> ('s, unit) cmd" where
  "RenewLock_between other R topic kind holder ttl s =
     (let ttl' = (if ttl \<le> 0 then DefaultLockTTL else ttl); key = lockKey topic kind in
      case rGet R key s of
        (Inl e, s1) \<Rightarrow>
          (if errors_Is e RedisNil then Inl ErrLockNotHeld else Inl (Wrap ''get lock owner: '' e []), s1)
      | (Inr owner, s1) \<Rightarrow>
          if owner \<noteq> holder then (Inl ErrLockNotHeld, s1)
          else (case rSet R key holder ttl' (other s1) of
                  (Inl e, s2) \<Rightarrow> (Inl (Wrap ''set lock: '' e []), s2)
                | (Inr _, s2) \<Rightarrow> (Inr (), s2)))"

definition RenewLock :: "'s redis \<Rightarrow> string \<Rightarrow> string \<Rightarrow> string \<Rightarrow> int \<Rightarrow> ('s, unit) cmd" where
  "RenewLock = RenewLock_between (\<lambda>s. s)"

definition IsTopicLockedByOther :: "'s redis \<Rightarrow> string \<Rightarrow> string \<Rightarrow> string \<Rightarrow> ('s, bool) cmd" where
  "IsTopicLockedByOther R topic kind userKey s =
     (case rGet R (lockKey topic kind) s of
        (Inl e, s1) \<Rightarrow>
          (if errors_Is e RedisNil then Inr False else Inl (Wrap ''get lock owner: '' e []), s1)
      | (Inr owner, s1) \<Rightarrow> (Inr (owner \<noteq> userKey), s1))"

definition LockedTopics :: "'s redis \<Rightarrow> string \<Rightarrow> ('s, string list) cmd" where
  "LockedTopics R holder = rSMembers R (lockedTopicsKey holder)"

fun release_each :: "'s redis \<Rightarrow> string \<Rightarrow> string list \<Rightarrow> ('s, unit) cmd" where
  "release_each R holder [] s = (Inr (), s)"
| "release_each R holder (t # ts) s =
     (case UnlockTopic R t LockPublish holder s of
        (Inl e, s1) \<Rightarrow> (Inl e, s1)
      | (Inr _, s1) \<Rightarrow>
          (case UnlockTopic R t LockSubscribe holder s1 of
             (Inl e, s2) \<Rightarrow> (Inl e, s2)
           | (Inr _, s2) \<Rightarrow> release_each R holder ts s2))"

definition ReleaseUserLocks :: "'s redis \<Rightarrow> string \<Rightarrow> ('s, unit) cmd" where
  "ReleaseUserLocks R holder s =
     (case LockedTopics R holder s of
        (Inl e, s1) \<Rightarrow> (Inl e, s1)
      | (Inr topics, s1) \<Rightarrow> release_each R holder topics s1)"

section \<open>What the commands do, step by step\<close>

text \<open>The owner of a lock, read off the keyspace.\<close>

definition lock_owner :: "rdb \<Rightarrow> string \<Rightarrow> string \<Rightarrow> string option" where
  "lock_owner d topic kind = str_at d (lockKey topic kind)"

section \<open>Safety of single operations, whatever the network does\<close>

lemma LockTopic_acquires:
  assumes doc: "documented net R v" and run: "LockTopic R t k h ttl s = (Inr (), s')"
  shows "lock_owner (v s') t k = Some h"
proof -
  define ttl' where "ttl' = (if ttl \<le> 0 then DefaultLockTTL else ttl)"
  obtain r1 s1 where nx: "rSetNX R (lockKey t k) h ttl' s = (r1, s1)" by fastforce
  show ?thesis
  proof (cases "r1 = Inr True")
    case True
    with nx run obtain x where add: "rSAdd R (lockedTopicsKey h) t s1 = (Inr x, s')"
      by (auto simp: LockTopic_def Let_def ttl'_def split: prod.splits sum.splits if_splits)
    have "str_at (v s1) (lockKey t k) = Some h"
      using rSetNX_won [OF doc nx [unfolded True]] by (simp add: str_at_put)
    with rSAdd_strings [OF doc add] show ?thesis by (simp add: lock_owner_def)
  next
    case False
    with nx run have g: "rGet R (lockKey t k) s1 = (Inr h, s')"
      by (auto simp: LockTopic_def Let_def ttl'_def split: prod.splits sum.splits if_splits)
    show ?thesis
      using rGet_Inr [OF doc g] rGet_state [OF doc g] by (simp add: lock_owner_def)
  qed
qed

lemma LockTopic_excluded:
  assumes doc: "documented net R v" and own: "lock_owner (v s) t k = Some own" and "own \<noteq> h"
    and run: "LockTopic R t k h ttl s = (r, s')"
  shows "v s' = v s \<and> r \<noteq> Inr ()"
proof -
  define ttl' where "ttl' = (if ttl \<le> 0 then DefaultLockTTL else ttl)"
  obtain r1 s1 where nx: "rSetNX R (lockKey t k) h ttl' s = (r1, s1)" by fastforce
  have s1: "v s1 = v s" "r1 \<noteq> Inr True"
    using rSetNX_taken [OF doc nx own [unfolded lock_owner_def]] by simp_all
  show ?thesis
  proof (cases r1)
    case (Inl e)
    with nx run s1 show ?thesis by (auto simp: LockTopic_def Let_def ttl'_def)
  next
    case (Inr ok)
    obtain r2 s2 where g: "rGet R (lockKey t k) s1 = (r2, s2)" by fastforce
    have "r2 \<noteq> Inr h"
      using rGet_Inr [OF doc, of "lockKey t k" s1 h s2] g own \<open>own \<noteq> h\<close> s1(1)
      by (auto simp: lock_owner_def)
    with Inr nx run s1 g rGet_state [OF doc g] show ?thesis
      by (auto simp: LockTopic_def Let_def ttl'_def split: sum.splits if_splits)
  qed
qed

lemma unlockScript_not_owner:
  assumes doc: "documented net R v" and own: "str_at (v s) key \<noteq> Some h"
    and run: "unlockScript R key h s = (r, s')"
  shows "v s' = v s \<and> (\<forall>n. r = Inr n \<longrightarrow> n = 0)"
proof -
  obtain r1 s1 where g: "rGet R key s = (r1, s1)" by fastforce
  have "r1 \<noteq> Inr h" using rGet_Inr [OF doc, of key s h s1] g own by auto
  with run g rGet_state [OF doc g] show ?thesis
    by (auto simp: unlockScript_def split: sum.splits if_splits)
qed

lemma UnlockTopic_not_owner:
  assumes doc: "documented net R v" and own: "lock_owner (v s) t k \<noteq> Some h"
    and run: "UnlockTopic R t k h s = (r, s')"
  shows "v s' = v s"
proof -
  let ?b = "unlockScript R (lockKey t k) h"
  obtain r1 s1 where ev: "rEval R ?b s = (r1, s1)" by fastforce
  have b: "v (snd (?b s)) = v s \<and> (\<forall>n. fst (?b s) = Inr n \<longrightarrow> n = 0)"
    using unlockScript_not_owner [OF doc own [unfolded lock_owner_def], of "fst (?b s)" "snd (?b s)"]
    by simp
  from eval_obeysD [OF doc_rEval [OF doc] ev] b have "v s1 = v s \<and> r1 \<noteq> Inr 1" by auto
  with ev run show ?thesis
    by (auto simp: UnlockTopic_def split: sum.splits if_splits)
qed

lemma UnlockTopic_other:
  assumes "UnlockTopic R t k h s = (r, s')" and "lock_owner (v s) t k = Some own" and "h \<noteq> own"
    and "documented net R v"
  shows "lock_owner (v s') t k = Some own"
  using UnlockTopic_not_owner [OF assms(4) _ assms(1)] assms(2,3) by simp

lemma RenewLock_not_owner:
  assumes doc: "documented net R v" and own: "lock_owner (v s) t k \<noteq> Some h"
    and run: "RenewLock R t k h ttl s = (r, s')"
  shows "v s' = v s \<and> r \<noteq> Inr ()"
proof -
  obtain r1 s1 where g: "rGet R (lockKey t k) s = (r1, s1)" by fastforce
  have "r1 \<noteq> Inr h" using rGet_Inr [OF doc, of "lockKey t k" s h s1] g own by (auto simp: lock_owner_def)
  with run g rGet_state [OF doc g] show ?thesis
    by (auto simp: RenewLock_def RenewLock_between_def Let_def split: sum.splits if_splits)
qed

lemma LockTopic_held:
  assumes doc: "documented net R v" and own: "lock_owner (v s) t k = Some h"
    and run: "LockTopic R t k h ttl s = (r, s')"
  shows "v s' = v s"
proof -
  define ttl' where "ttl' = (if ttl \<le> 0 then DefaultLockTTL else ttl)"
  obtain r1 s1 where nx: "rSetNX R (lockKey t k) h ttl' s = (r1, s1)" by fastforce
  have s1: "v s1 = v s" "r1 \<noteq> Inr True"
    using rSetNX_taken [OF doc nx own [unfolded lock_owner_def]] by simp_all
  obtain r2 s2 where g: "rGet R (lockKey t k) s1 = (r2, s2)" by fastforce
  from run nx s1 g rGet_state [OF doc g] show ?thesis
    by (auto simp: LockTopic_def Let_def ttl'_def split: sum.splits if_splits)
qed

lemma RenewLock_owner:
  assumes doc: "documented net R v" and own: "lock_owner (v s) t k = Some h"
    and run: "RenewLock R t k h ttl s = (r, s')"
  shows "lock_owner (v s') t k = Some h"
proof -
  define ttl' where "ttl' = (if ttl \<le> 0 then DefaultLockTTL else ttl)"
  obtain r1 s1 where g: "rGet R (lockKey t k) s = (r1, s1)" by fastforce
  have s1: "v s1 = v s" by (rule rGet_state [OF doc g])
  obtain r2 s2 where st: "rSet R (lockKey t k) h ttl' s1 = (r2, s2)" by fastforce
  from obeysD [OF doc_rSet [OF doc] st] have "v s2 = v s1 \<or> v s2 = put (lockKey t k) (Some (VStr h (ttl_of ttl'))) (v s1)"
    by (auto simp: doc_Set_def)
  with own s1 have "str_at (v s2) (lockKey t k) = Some h" by (auto simp: lock_owner_def str_at_put)
  with run g s1 st own show ?thesis
    by (auto simp: RenewLock_def RenewLock_between_def Let_def ttl'_def lock_owner_def
        split: sum.splits if_splits)
qed

text \<open>Unlocking changes no string but the lock's own key, and that only from the holder to nothing.\<close>

lemma unlockScript_strings:
  assumes doc: "documented net R v" and run: "unlockScript R key h s = (r, s')"
  shows "str_at (v s') = str_at (v s) \<or> (str_at (v s') = (str_at (v s))(key := None) \<and> str_at (v s) key = Some h)"
proof -
  obtain r1 s1 where g: "rGet R key s = (r1, s1)" by fastforce
  have s1: "v s1 = v s" by (rule rGet_state [OF doc g])
  show ?thesis
  proof (cases "r1 = Inr h")
    case True
    with run g have del: "rDel R key s1 = (r, s')" by (simp add: unlockScript_def)
    from obeysD [OF doc_rDel [OF doc] del] have "v s' = v s1 \<or> v s' = put key None (v s1)"
      by (auto simp: doc_Del_def)
    with s1 rGet_Inr [OF doc g [unfolded True]] show ?thesis by (auto simp: str_at_put fun_eq_iff)
  next
    case False
    with run g s1 show ?thesis by (auto simp: unlockScript_def split: sum.splits if_splits)
  qed
qed

lemma unlockScript_released:
  assumes doc: "documented net R v" and run: "unlockScript R key h s = (Inr n, s')"
  shows "str_at (v s') key \<noteq> Some h"
proof -
  obtain r1 s1 where g: "rGet R key s = (r1, s1)" by fastforce
  have s1: "v s1 = v s" by (rule rGet_state [OF doc g])
  show ?thesis
  proof (cases "r1 = Inr h")
    case True
    with run g have del: "rDel R key s1 = (Inr n, s')" by (simp add: unlockScript_def)
    from obeys_okD [OF doc_rDel [OF doc] del] show ?thesis by (auto simp: doc_Del_def str_at_put)
  next
    case False
    have "str_at (v s) key \<noteq> Some h" if "r1 = Inr x" for x
      using rGet_Inr [OF doc, of key s x s1] g that False by auto
    moreover have "str_at (v s) key = None" if "r1 = Inl RedisNil"
      using rGet_Nil [OF doc, of key s s1] g that by simp
    ultimately show ?thesis
      using run g s1 False by (auto simp: unlockScript_def split: sum.splits if_splits)
  qed
qed

lemma UnlockTopic_strings:
  assumes doc: "documented net R v" and run: "UnlockTopic R t k h s = (r, s')"
  shows "str_at (v s') = str_at (v s) \<or>
    (str_at (v s') = (str_at (v s))(lockKey t k := None) \<and> str_at (v s) (lockKey t k) = Some h)"
proof -
  let ?b = "unlockScript R (lockKey t k) h"
  obtain r1 s1 where ev: "rEval R ?b s = (r1, s1)" by fastforce
  have b: "str_at (v (snd (?b s))) = str_at (v s) \<or> (str_at (v (snd (?b s))) = (str_at (v s))(lockKey t k := None)
      \<and> str_at (v s) (lockKey t k) = Some h)"
    by (rule unlockScript_strings [OF doc, where r = "fst (?b s)"]) simp
  from eval_obeysD [OF doc_rEval [OF doc] ev] b
  have s1: "str_at (v s1) = str_at (v s) \<or> (str_at (v s1) = (str_at (v s))(lockKey t k := None)
      \<and> str_at (v s) (lockKey t k) = Some h)" by auto
  have "str_at (v s') = str_at (v s1)"
    using run ev by (auto simp: UnlockTopic_def rSRem_strings [OF doc] split: sum.splits if_splits prod.splits)
  with s1 show ?thesis by simp
qed

lemma UnlockTopic_done:
  assumes doc: "documented net R v" and run: "UnlockTopic R t k h s = (Inr u, s')"
  shows "lock_owner (v s') t k \<noteq> Some h"
proof -
  let ?b = "unlockScript R (lockKey t k) h"
  obtain r1 s1 where ev: "rEval R ?b s = (r1, s1)" by fastforce
  from run ev obtain n where n: "r1 = Inr n" by (cases r1) (auto simp: UnlockTopic_def)
  from eval_obeysD [OF doc_rEval [OF doc] ev] n
  have b: "?b s = (Inr n, snd (?b s))" and vs: "v s1 = v (snd (?b s))" by (auto simp: prod_eq_iff)
  have "str_at (v s1) (lockKey t k) \<noteq> Some h"
    unfolding vs by (rule unlockScript_released [OF doc b])
  moreover have "str_at (v s') = str_at (v s1)"
    using run ev by (auto simp: UnlockTopic_def rSRem_strings [OF doc] split: sum.splits if_splits prod.splits)
  ultimately show ?thesis by (simp add: lock_owner_def)
qed

section \<open>Commands of several holders, interleaved\<close>

text \<open>
  The three operations as sequences of commands, with the same branches; run alone they are the
  operations above. The unlock script is one command.
\<close>

definition LockTopic_cmds :: "'s redis \<Rightarrow> string \<Rightarrow> string \<Rightarrow> string \<Rightarrow> int \<Rightarrow> ('s, unit result) prog" where
  "LockTopic_cmds R topic kind holder ttl =
     (let ttl' = (if ttl \<le> 0 then DefaultLockTTL else ttl); key = lockKey topic kind in
      ask (rSetNX R key holder ttl') (\<lambda>r. case r of
        Inl e \<Rightarrow> Ret (Inl (Wrap ''setnx lock: '' e []))
      | Inr ok \<Rightarrow>
          if ok then
            ask (rSAdd R (lockedTopicsKey holder) topic) (\<lambda>r. case r of
               Inl e \<Rightarrow> Ret (Inl (Wrap ''sadd lockedTopics: '' e []))
             | Inr _ \<Rightarrow> Ret (Inr ()))
          else
            ask (rGet R key) (\<lambda>r. case r of
               Inl e \<Rightarrow> Ret (Inl (Wrap ''get lock owner: '' e []))
             | Inr owner \<Rightarrow> Ret (if owner = holder then Inr () else Inl ErrLockHeldByOther))))"

definition UnlockTopic_cmds :: "'s redis \<Rightarrow> string \<Rightarrow> string \<Rightarrow> string \<Rightarrow> ('s, unit result) prog" where
  "UnlockTopic_cmds R topic kind holder =
     ask (rEval R (unlockScript R (lockKey topic kind) holder)) (\<lambda>r. case r of
        Inl e \<Rightarrow> Ret (Inl (Wrap ''eval unlock: '' e []))
      | Inr released \<Rightarrow>
          if released = 1 then
            ask (rSRem R (lockedTopicsKey holder) topic) (\<lambda>r. case r of
               Inl e \<Rightarrow> Ret (Inl (Wrap ''srem lockedTopics: '' e []))
             | Inr _ \<Rightarrow> Ret (Inr ()))
          else Ret (Inr ()))"

definition RenewLock_cmds :: "'s redis \<Rightarrow> string \<Rightarrow> string \<Rightarrow> string \<Rightarrow> int \<Rightarrow> ('s, unit result) prog" where
  "RenewLock_cmds R topic kind holder ttl =
     (let ttl' = (if ttl \<le> 0 then DefaultLockTTL else ttl); key = lockKey topic kind in
      ask (rGet R key) (\<lambda>r. case r of
        Inl e \<Rightarrow> Ret (if errors_Is e RedisNil then Inl ErrLockNotHeld else Inl (Wrap ''get lock owner: '' e []))
      | Inr owner \<Rightarrow>
          if owner \<noteq> holder then Ret (Inl ErrLockNotHeld)
          else ask (rSet R key holder ttl') (\<lambda>r. case r of
                  Inl e \<Rightarrow> Ret (Inl (Wrap ''set lock: '' e []))
                | Inr _ \<Rightarrow> Ret (Inr ()))))"

lemma lock_cmds_alone:
  "alone (LockTopic_cmds R t k h ttl) = LockTopic R t k h ttl"
  "alone (UnlockTopic_cmds R t k h) = UnlockTopic R t k h"
  "alone (RenewLock_cmds R t k h ttl) = RenewLock R t k h ttl"
  by (auto simp: fun_eq_iff LockTopic_cmds_def LockTopic_def UnlockTopic_cmds_def UnlockTopic_def RenewLock_cmds_def
      RenewLock_def RenewLock_between_def Let_def split: prod.splits sum.splits)

text \<open>A call of a holder, with the time to live it asks for.\<close>

datatype lock_op = Acquire string int | Release string | Renew string int

fun lock_cmds :: "'s redis \<Rightarrow> string \<Rightarrow> string \<Rightarrow> lock_op \<Rightarrow> ('s, unit result) prog" where
  "lock_cmds R t k (Acquire h ttl) = LockTopic_cmds R t k h ttl"
| "lock_cmds R t k (Release h) = UnlockTopic_cmds R t k h"
| "lock_cmds R t k (Renew h ttl) = RenewLock_cmds R t k h ttl"

text \<open>A call that was answered with success and so believes to hold the lock.\<close>

fun believes :: "lock_op \<Rightarrow> unit result \<Rightarrow> string option" where
  "believes (Acquire h ttl) r = (if r = Inr () then Some h else None)"
| "believes (Renew h ttl) r = (if r = Inr () then Some h else None)"
| "believes (Release h) r = None"

text \<open>What the rest of the cluster and the clock may do meanwhile: anything that leaves the owner of this lock.\<close>

definition leaves_lock :: "('s \<Rightarrow> rdb) \<Rightarrow> string \<Rightarrow> string \<Rightarrow> 's \<Rightarrow> 's \<Rightarrow> bool" where
  "leaves_lock v t k s s' \<longleftrightarrow> lock_owner (v s') t k = lock_owner (v s) t k"

lemma LockTopic_keeps:
  assumes doc: "documented net R v"
  shows "keeps (\<lambda>s. lock_owner (v s) t k = Some p) (\<lambda>r. r = Inr () \<longrightarrow> h = p) (LockTopic_cmds R t k h ttl)"
  unfolding LockTopic_cmds_def Let_def lock_owner_def
proof (rule keeps_askI, goal_cases)
  case (1 s r s')
  from rSetNX_taken [OF doc 1] 1(2) have owned: "str_at (v s') (lockKey t k) = Some p" "r \<noteq> Inr True" by simp_all
  have "keeps (\<lambda>s. str_at (v s) (lockKey t k) = Some p) (\<lambda>r. r = Inr () \<longrightarrow> h = p)
      (ask (rGet R (lockKey t k)) (\<lambda>r. case r of
         Inl e \<Rightarrow> Ret (Inl (Wrap ''get lock owner: '' e []))
       | Inr owner \<Rightarrow> Ret (if owner = h then Inr () else Inl ErrLockHeldByOther)))"
    by (rule keeps_askI) (auto dest: rGet_state [OF doc] rGet_Inr [OF doc] split: sum.splits)
  with owned show ?case by (auto split: sum.splits)
qed

lemma UnlockTopic_keeps:
  assumes doc: "documented net R v" and "h \<noteq> p"
  shows "keeps (\<lambda>s. lock_owner (v s) t k = Some p) (\<lambda>r. True) (UnlockTopic_cmds R t k h)"
  unfolding UnlockTopic_cmds_def lock_owner_def
proof (rule keeps_askI, goal_cases)
  case (1 s r s')
  have "v (snd (unlockScript R (lockKey t k) h s)) = v s"
    using unlockScript_not_owner [OF doc, of s "lockKey t k" h "fst (unlockScript R (lockKey t k) h s)"] 1(2) assms(2) by simp
  with eval_obeysD [OF doc_rEval [OF doc] 1(1)] 1(2) have "str_at (v s') (lockKey t k) = Some p" by auto
  moreover have "keeps (\<lambda>s. str_at (v s) (lockKey t k) = Some p) (\<lambda>r. True)
      (ask (rSRem R (lockedTopicsKey h) t) (\<lambda>r. case r of
         Inl e \<Rightarrow> Ret (Inl (Wrap ''srem lockedTopics: '' e [])) | Inr _ \<Rightarrow> Ret (Inr ())))"
    by (rule keeps_askI) (auto dest: rSRem_strings [OF doc] split: sum.splits)
  ultimately show ?case by (auto split: sum.splits)
qed

lemma RenewLock_keeps:
  assumes doc: "documented net R v"
  shows "keeps (\<lambda>s. lock_owner (v s) t k = Some p) (\<lambda>r. r = Inr () \<longrightarrow> h = p) (RenewLock_cmds R t k h ttl)"
  unfolding RenewLock_cmds_def Let_def lock_owner_def
proof (rule keeps_askI, goal_cases)
  case (1 s r s')
  have own: "str_at (v s') (lockKey t k) = Some p" "\<And>x. r = Inr x \<Longrightarrow> x = p"
    using rGet_state [OF doc 1(1)] rGet_Inr [OF doc, of "lockKey t k" s] 1 by auto
  have "keeps (\<lambda>s. str_at (v s) (lockKey t k) = Some p) (\<lambda>r. r = Inr () \<longrightarrow> h = p)
      (ask (rSet R (lockKey t k) p ttl') (\<lambda>r. case r of
         Inl e \<Rightarrow> Ret (Inl (Wrap ''set lock: '' e [])) | Inr _ \<Rightarrow> Ret (Inr ())))" if "h = p" for ttl'
    using that
    by (intro keeps_askI) (auto simp: doc_Set_def str_at_put dest!: obeysD [OF doc_rSet [OF doc]] split: sum.splits)
  with own show ?case by (auto split: sum.splits)
qed

interpretation lock_pool: guarded_pool "\<lambda>(R, v, t, k, p). documented True R v" "\<lambda>(R, v, t, k, p) s. lock_owner (v s) t k = Some p"
  "\<lambda>(R, v, t, k, p). leaves_lock v t k" "\<lambda>(R, v, t, k, p). lock_cmds R t k" "\<lambda>(R, v, t, k, p) x. x \<noteq> Release p"
  "\<lambda>(R, v, t, k, p) x r. believes x r \<in> {None, Some p}"
proof (unfold_locales, goal_cases)
  case (1 w s s')
  then show ?case by (cases w) (simp add: leaves_lock_def)
next
  case (2 w x)
  obtain R v t k p where w: "w = (R, v, t, k, p)" by (cases w)
  have doc: "documented True R v" using 2 w by simp
  show ?case
  proof (cases x)
    case (Acquire h ttl)
    show ?thesis unfolding Acquire w prod.case lock_cmds.simps
      by (rule keeps_mono [OF LockTopic_keeps [OF doc]]) (auto split: sum.splits)
  next
    case (Release h)
    with 2 w have "h \<noteq> p" by simp
    show ?thesis unfolding Release w prod.case lock_cmds.simps
      by (rule keeps_mono [OF UnlockTopic_keeps [OF doc \<open>h \<noteq> p\<close>]]) simp
  next
    case (Renew h ttl)
    show ?thesis unfolding Renew w prod.case lock_cmds.simps
      by (rule keeps_mono [OF RenewLock_keeps [OF doc]]) (auto split: sum.splits)
  qed
qed

section \<open>Releasing everything a holder has\<close>

text \<open>Locks of different topics or kinds have different keys.\<close>

definition lock_kind :: "string \<Rightarrow> bool" where
  "lock_kind k \<longleftrightarrow> k = LockPublish \<or> k = LockSubscribe"

lemma lockKey_inject:
  "lock_kind k \<Longrightarrow> lock_kind k' \<Longrightarrow> lockKey t k = lockKey t' k' \<longleftrightarrow> t = t' \<and> k = k'"
  by (auto simp: lock_kind_def lockKey_def LockPublish_def LockSubscribe_def)

lemma lock_kinds [simp]: "lock_kind LockPublish" "lock_kind LockSubscribe"
  by (simp_all add: lock_kind_def)

lemma UnlockTopic_owner_mono:
  assumes "documented net R v" and "UnlockTopic R t k h s = (r, s')"
    and "lock_owner (v s) t' k' \<noteq> Some h'"
  shows "lock_owner (v s') t' k' \<noteq> Some h'"
  using UnlockTopic_strings [OF assms(1,2)] assms(3) by (auto simp: lock_owner_def split: if_splits)

lemma UnlockTopic_frame:
  assumes "documented net R v" and "UnlockTopic R t k h s = (r, s')"
    and "lock_kind k" and "lock_kind k'" and "t' \<noteq> t \<or> k' \<noteq> k \<or> lock_owner (v s) t' k' \<noteq> Some h"
  shows "lock_owner (v s') t' k' = lock_owner (v s) t' k'"
  using UnlockTopic_strings [OF assms(1,2)] assms(3-) by (auto simp: lock_owner_def lockKey_inject)

lemma release_each_mono:
  assumes "documented net R v" and "release_each R h ts s = (r, s')" and "lock_owner (v s) t k \<noteq> Some p"
  shows "lock_owner (v s') t k \<noteq> Some p"
  using assms(2,3)
proof (induction ts arbitrary: s)
  case Nil
  then show ?case by simp
next
  case (Cons x xs)
  then show ?case
    by (auto split: prod.splits sum.splits dest!: UnlockTopic_owner_mono [OF assms(1), where t' = t and k' = k])
qed

lemma release_each_done:
  assumes "documented net R v" and "release_each R h ts s = (Inr u, s')" and "t \<in> set ts" and "lock_kind k"
  shows "lock_owner (v s') t k \<noteq> Some h"
  using assms(2,3)
proof (induction ts arbitrary: s)
  case Nil
  then show ?case by simp
next
  case (Cons x xs)
  from Cons.prems(1) obtain u1 s1 u2 s2 where
    p: "UnlockTopic R x LockPublish h s = (Inr u1, s1)" and
    q: "UnlockTopic R x LockSubscribe h s1 = (Inr u2, s2)" and
    rest: "release_each R h xs s2 = (Inr u, s')"
    by (auto split: prod.splits sum.splits)
  show ?case
  proof (cases "t = x")
    case True
    have "lock_owner (v s2) x k \<noteq> Some h"
      using assms(4) UnlockTopic_owner_mono [OF assms(1) q UnlockTopic_done [OF assms(1) p]]
        UnlockTopic_done [OF assms(1) q] by (auto simp: lock_kind_def)
    with True release_each_mono [OF assms(1) rest] show ?thesis by simp
  next
    case False
    with Cons.prems(2) Cons.IH [OF rest] show ?thesis by simp
  qed
qed

lemma release_each_frame:
  assumes "documented net R v" and "release_each R h ts s = (r, s')" and "lock_kind k"
    and "t \<notin> set ts \<or> lock_owner (v s) t k \<noteq> Some h"
  shows "lock_owner (v s') t k = lock_owner (v s) t k"
  using assms(2,4)
proof (induction ts arbitrary: s)
  case Nil
  then show ?case by simp
next
  case (Cons x xs)
  have frame: "lock_owner (v s2) t k = lock_owner (v s1) t k"
    if "UnlockTopic R x k' h s1 = (r1, s2)" "lock_kind k'"
      "t \<noteq> x \<or> lock_owner (v s1) t k \<noteq> Some h" for k' s1 r1 s2
    using UnlockTopic_frame [OF assms(1) that(1,2) assms(3)] that(3) by blast
  obtain r1 s1 where u1: "UnlockTopic R x LockPublish h s = (r1, s1)" by fastforce
  obtain r2 s2 where u2: "UnlockTopic R x LockSubscribe h s1 = (r2, s2)" by fastforce
  have e1: "lock_owner (v s1) t k = lock_owner (v s) t k"
    using frame [OF u1] Cons.prems(2) by auto
  have e2: "lock_owner (v s2) t k = lock_owner (v s1) t k"
    using frame [OF u2] Cons.prems(2) e1 by auto
  show ?case
  proof (cases "\<exists>a b. r1 = Inr a \<and> r2 = Inr b")
    case True
    with Cons.prems(1) u1 u2 have "release_each R h xs s2 = (r, s')" by auto
    from Cons.IH [OF this] Cons.prems(2) e1 e2 show ?thesis by auto
  next
    case False
    with Cons.prems(1) u1 u2 e1 e2 show ?thesis by (auto split: sum.splits)
  qed
qed

lemma LockedTopics_index:
  assumes "documented net R v" and "LockedTopics R h s = (Inr ts, s')"
  shows "v s' = v s \<and> set ts = set_at (v s) (lockedTopicsKey h)"
  using obeys_okD [OF doc_rSMembers [OF assms(1)] assms(2) [unfolded LockedTopics_def]]
  by (auto simp: doc_SMembers_def typed_def split: if_splits)

lemma LockedTopics_state:
  assumes "documented net R v" and "LockedTopics R h s = (r, s')"
  shows "v s' = v s"
  using obeysD [OF doc_rSMembers [OF assms(1)] assms(2) [unfolded LockedTopics_def]]
  by (auto simp: doc_SMembers_def typed_def split: if_splits)

text \<open>On a server that does not fail, the owner's unlock drops the topic from the index.\<close>

lemma UnlockTopic_index:
  assumes doc: "documented False R v" and own: "lock_owner (v s) t k = Some h"
    and idx: "set_key (v s) (lockedTopicsKey h)" and run: "UnlockTopic R t k h s = (r, s')"
  shows "t \<notin> set_at (v s') (lockedTopicsKey h)"
proof -
  let ?key = "lockKey t k" and ?ix = "lockedTopicsKey h"
  obtain x s1 where g: "rGet R ?key s = (x, s1)" by fastforce
  have vs1: "v s1 = v s" by (rule rGet_state [OF doc g])
  from own obtain tm where key: "keyspace (v s) ?key = Some (VStr h tm)"
    by (auto simp: lock_owner_def dest: str_at_SomeD)
  then have x: "x = Inr h"
    using obeys_sureD [OF doc_rGet [OF doc, of ?key], of s] g by (simp add: doc_Get_def typed_def key_defs)
  have body: "unlockScript R ?key h s = rDel R ?key s1" using g x by (simp add: unlockScript_def)
  obtain y s2 where del: "rDel R ?key s1 = (y, s2)" by fastforce
  have vs2: "y = Inr 1 \<and> v s2 = put ?key None (v s)"
    using obeys_sureD [OF doc_rDel [OF doc, of ?key], of s1] del vs1 key by (simp add: doc_Del_def)
  obtain z s3 where ev: "rEval R (unlockScript R ?key h) s = (z, s3)" by fastforce
  have vs3: "z = Inr 1 \<and> v s3 = put ?key None (v s)"
    using eval_sureD [OF doc_rEval [OF doc], of "unlockScript R ?key h" s] ev vs2 by (simp add: body del)
  have ix: "set_key (v s3) ?ix" using idx vs3 key by (auto simp: set_key_def)
  obtain u s4 where rem: "rSRem R ?ix t s3 = (u, s4)" by fastforce
  have "t \<notin> set_at (v s4) ?ix"
    using doc_SRem_gone [OF obeys_sureD [OF doc_rSRem [OF doc, of ?ix t], of s3] ix] rem by simp
  moreover have "s' = s4" using run ev vs3 rem by (auto simp: UnlockTopic_def split: sum.splits)
  ultimately show ?thesis by simp
qed

section \<open>Properties\<close>

text \<open>
  Lock exclusion (C10). Once a holder owns a topic lock, calls of lock, unlock and renew that any holders
  begin from then on do not take it away, in whatever order their commands reach the server and
  whichever of them fail, while other clients do anything that leaves the owner of the lock alone:
  as long as the owner does not unlock and the lock does not expire, the owner stays the owner and
  no other holder's lock or renew call is answered with success.
\<close>

theorem lock_exclusive:
  assumes "documented True R v" and "lock_owner (v s) t k = Some p"
    and "(pool_step (leaves_lock v t k) (lock_cmds R t k) (\<lambda>x. x \<noteq> Release p))\<^sup>*\<^sup>* ([], s) (calls, s')"
  shows "lock_owner (v s') t k = Some p \<and> (\<forall>x r h. (x, Ret r) \<in> set calls \<and> believes x r = Some h \<longrightarrow> h = p)"
  using lock_pool.pool_inv [of "(R, v, t, k, p)" s calls s'] assms by fastforce

definition two_lock_state :: ref_state where
  "two_lock_state = \<lparr>entries = [(''publish:lock:t'', VStr ''ann'' (Some 300000)),
     (''subscribe:lock:t'', VStr ''ann'' (Some 300000)), (''ann:lockedTopics'', VSet [''t''])],
     pubs = []\<rparr>"

lemmas eval_defs = ref_redis_def ref_typed_def ref_view_def ref_put_def ref_put_zset_def two_lock_state_def
  lockKey_def lockedTopicsKey_def LockPublish_def LockSubscribe_def lock_owner_def key_defs

lemma two_lock_owner: "lock_owner (ref_view two_lock_state) ''t'' LockPublish = Some ''ann''"
  by (simp add: eval_defs)

text \<open>Another holder begins a renewal, whose GET finds the owner.\<close>

theorem lock_exclusive_witness:
  "\<exists>calls s'. (pool_step (leaves_lock ref_view ''t'' LockPublish) (lock_cmds ref_redis ''t'' LockPublish) (\<lambda>x. x \<noteq> Release ''ann''))\<^sup>*\<^sup>*
      ([], two_lock_state) (calls, s')
    \<and> (Renew ''bob'' 0, Ret (Inl ErrLockNotHeld)) \<in> set calls \<and> lock_owner (ref_view s') ''t'' LockPublish = Some ''ann''"
proof -
  let ?f = "lock_cmds ref_redis ''t'' LockPublish" and ?x = "Renew ''bob'' 0"
  let ?st = "pool_step (leaves_lock ref_view ''t'' LockPublish) ?f (\<lambda>x. x \<noteq> Release ''ann'')"
  obtain g q where x: "?f ?x = Cmd g q" by (simp add: RenewLock_cmds_def ask_def Let_def)
  then have "q two_lock_state = Ret (Inl ErrLockNotHeld)"
    by (auto simp: RenewLock_cmds_def ask_def Let_def eval_defs)
  moreover have "?st ([], two_lock_state) ([(?x, Cmd g q)], two_lock_state)"
    using pool_start [of "\<lambda>x. x \<noteq> Release ''ann''" ?x "leaves_lock ref_view ''t'' LockPublish" ?f "[]" two_lock_state] x by simp
  moreover have "?st ([(?x, Cmd g q)], two_lock_state) ([(?x, q two_lock_state)], g two_lock_state)"
    using pool_cmd [of 0 "[(?x, Cmd g q)]" ?x g q] by simp
  ultimately have run: "?st\<^sup>*\<^sup>* ([], two_lock_state) ([(?x, Ret (Inl ErrLockNotHeld))], g two_lock_state)"
    by simp
  from lock_exclusive [OF documented_weaken [OF ref_redis_documented] two_lock_owner this] run show ?thesis
    by (intro exI [of _ "[(?x, Ret (Inl ErrLockNotHeld))]"] exI [of _ "g two_lock_state"]) simp
qed

text \<open>
  Acquiring. On a server that does not fail, locking a topic whose key is free succeeds, gives
  the lock to the caller with the requested time to live (five minutes when none is requested)
  and records the topic in the holder's index, which is what a disconnect releases.
\<close>

theorem LockTopic_free:
  assumes doc: "documented False R v" and free: "keyspace (v s) (lockKey t k) = None"
    and idx: "set_key (v s) (lockedTopicsKey h)" and "lockKey t k \<noteq> lockedTopicsKey h"
  shows "fst (LockTopic R t k h ttl s) = Inr ()
    \<and> lock_owner (v (snd (LockTopic R t k h ttl s))) t k = Some h
    \<and> ttl_at (v (snd (LockTopic R t k h ttl s))) (lockKey t k) = Some (if ttl \<le> 0 then 300000 else ttl)
    \<and> set_at (v (snd (LockTopic R t k h ttl s))) (lockedTopicsKey h)
        = insert t (set_at (v s) (lockedTopicsKey h))"
proof -
  define ttl' where "ttl' = (if ttl \<le> 0 then DefaultLockTTL else ttl)"
  obtain r1 s1 where nx: "rSetNX R (lockKey t k) h ttl' s = (r1, s1)" by fastforce
  from obeys_sureD [OF doc_rSetNX [OF doc, of "lockKey t k" h ttl'], of s] nx free
  have r1: "r1 = Inr True" and v1: "v s1 = put (lockKey t k) (Some (VStr h (ttl_of ttl'))) (v s)"
    by (simp_all add: doc_SetNX_def)
  obtain r2 s2 where add: "rSAdd R (lockedTopicsKey h) t s1 = (r2, s2)" by fastforce
  have idx1: "set_key (v s1) (lockedTopicsKey h)" "set_at (v s1) (lockedTopicsKey h) = set_at (v s) (lockedTopicsKey h)"
    using idx assms(4) v1 by (auto simp: set_key_def set_at_def)
  from obeys_sureD [OF doc_rSAdd [OF doc, of "lockedTopicsKey h" t], of s1] add idx1
  obtain ys where r2: "r2 = Inr ()" and v2: "v s2 = put (lockedTopicsKey h) (Some (VSet ys)) (v s1)"
    and ys: "set ys = insert t (set_at (v s) (lockedTopicsKey h))"
    by (auto simp: doc_SAdd_def typed_def)
  have run: "LockTopic R t k h ttl s = (Inr (), s2)"
    using nx r1 add r2 by (simp add: LockTopic_def Let_def ttl'_def)
  have "0 < ttl'" by (simp add: ttl'_def DefaultLockTTL_def)
  then show ?thesis
    using run v1 v2 ys assms(4)
    by (auto simp: lock_owner_def str_at_def ttl_at_def set_at_def ttl_of_def ttl'_def DefaultLockTTL_def)
qed

theorem LockTopic_free_witness:
  "fst (LockTopic ref_redis ''u'' LockPublish ''ann'' 0 two_lock_state) = Inr ()"
  using LockTopic_free [OF ref_redis_documented, of two_lock_state "''u''" LockPublish "''ann''" 0]
  by (simp add: eval_defs)

text \<open>
  Releasing on disconnect. When the release of a holder's locks succeeds, the holder owns
  neither lock of any topic its index named, and every other lock (of another holder, or of a
  topic the index did not name) has the owner it had.
\<close>

theorem ReleaseUserLocks_releases:
  assumes doc: "documented net R v" and run: "ReleaseUserLocks R h s = (Inr (), s')"
  shows "(\<forall>t k. t \<in> set_at (v s) (lockedTopicsKey h) \<and> lock_kind k \<longrightarrow> lock_owner (v s') t k \<noteq> Some h)
    \<and> (\<forall>t k. lock_kind k \<and> (t \<notin> set_at (v s) (lockedTopicsKey h) \<or> lock_owner (v s) t k \<noteq> Some h)
         \<longrightarrow> lock_owner (v s') t k = lock_owner (v s) t k)"
proof -
  from run obtain ts s1 where idx: "LockedTopics R h s = (Inr ts, s1)"
    and rel: "release_each R h ts s1 = (Inr (), s')"
    by (auto simp: ReleaseUserLocks_def split: prod.splits sum.splits)
  note ts = LockedTopics_index [OF doc idx]
  show ?thesis
    using release_each_done [OF doc rel] release_each_frame [OF doc rel] ts by auto
qed

lemma two_lock_release:
  "\<exists>s'. ReleaseUserLocks ref_redis ''ann'' two_lock_state = (Inr (), s')"
  by (simp add: ReleaseUserLocks_def LockedTopics_def UnlockTopic_def unlockScript_def eval_defs)

theorem ReleaseUserLocks_releases_witness:
  "\<exists>s'. ReleaseUserLocks ref_redis ''ann'' two_lock_state = (Inr (), s')
    \<and> lock_owner (ref_view s') ''t'' LockSubscribe \<noteq> Some ''ann''"
proof -
  obtain s' where run: "ReleaseUserLocks ref_redis ''ann'' two_lock_state = (Inr (), s')"
    using two_lock_release by blast
  have "''t'' \<in> set_at (ref_view two_lock_state) (lockedTopicsKey ''ann'')" by (simp add: eval_defs)
  with ReleaseUserLocks_releases [OF ref_redis_documented run] run show ?thesis by auto
qed

text \<open>
  A lock left behind. The index that a disconnect releases is shared by the two kinds of lock.
  A holder of both locks of a topic that unlocks one of them loses the index entry, and the
  release of all its locks then leaves the other lock held.
\<close>

theorem unlock_strands_other_kind:
  assumes doc: "documented False R v"
    and pub: "lock_owner (v s) t LockPublish = Some h" and sub: "lock_owner (v s) t LockSubscribe = Some h"
    and idx: "set_key (v s) (lockedTopicsKey h)"
    and un: "UnlockTopic R t LockPublish h s = (r1, s1)" and rel: "ReleaseUserLocks R h s1 = (r2, s2)"
  shows "lock_owner (v s2) t LockSubscribe = Some h"
proof -
  have sub1: "lock_owner (v s1) t LockSubscribe = Some h"
    using UnlockTopic_frame [OF doc un, of LockSubscribe t] sub
    by (simp add: LockPublish_def LockSubscribe_def lock_kind_def)
  have gone: "t \<notin> set_at (v s1) (lockedTopicsKey h)"
    by (rule UnlockTopic_index [OF doc pub idx un])
  obtain r s1' where idx1: "LockedTopics R h s1 = (r, s1')" by fastforce
  show ?thesis
  proof (cases r)
    case (Inl e)
    then show ?thesis
      using idx1 rel sub1 LockedTopics_state [OF doc idx1] by (simp add: ReleaseUserLocks_def)
  next
    case (Inr ts)
    with idx1 rel have "release_each R h ts s1' = (r2, s2)" by (simp add: ReleaseUserLocks_def)
    from release_each_frame [OF doc this, of LockSubscribe t] LockedTopics_index [OF doc idx1 [unfolded Inr]]
      gone sub1 show ?thesis by simp
  qed
qed

theorem unlock_strands_other_kind_witness:
  "lock_owner (ref_view (snd (ReleaseUserLocks ref_redis ''ann''
     (snd (UnlockTopic ref_redis ''t'' LockPublish ''ann'' two_lock_state))))) ''t'' LockSubscribe = Some ''ann''"
proof -
  let ?s1 = "snd (UnlockTopic ref_redis ''t'' LockPublish ''ann'' two_lock_state)"
  have sub: "lock_owner (ref_view two_lock_state) ''t'' LockSubscribe = Some ''ann''"
    and idx: "set_key (ref_view two_lock_state) (lockedTopicsKey ''ann'')"
    by (simp_all add: eval_defs)
  show ?thesis
    by (rule unlock_strands_other_kind [OF ref_redis_documented two_lock_owner sub idx,
          of "fst (UnlockTopic ref_redis ''t'' LockPublish ''ann'' two_lock_state)" ?s1
            "fst (ReleaseUserLocks ref_redis ''ann'' ?s1)"]) simp_all
qed

text \<open>
  A renewal that takes a lock. \<^verbatim>\<open>RenewLock\<close> reads the owner and writes the key in two
  commands. If another holder acquires the lock in between (after the old lock expired, say), the
  renewal is still answered with success, and the lock changes hands while its new owner
  believes to hold it.
\<close>

theorem RenewLock_takes_lock:
  assumes doc: "documented False R v" and own: "lock_owner (v s) t k = Some h"
    and taken: "lock_owner (v (other (snd (rGet R (lockKey t k) s)))) t k = Some p" and "p \<noteq> h"
  shows "fst (RenewLock_between other R t k h ttl s) = Inr ()
    \<and> lock_owner (v (snd (RenewLock_between other R t k h ttl s))) t k = Some h"
proof -
  define ttl' where "ttl' = (if ttl \<le> 0 then DefaultLockTTL else ttl)"
  obtain x s1 where g: "rGet R (lockKey t k) s = (x, s1)" by fastforce
  from own obtain tm where "keyspace (v s) (lockKey t k) = Some (VStr h tm)"
    by (auto simp: lock_owner_def dest: str_at_SomeD)
  then have x: "x = Inr h"
    using obeys_sureD [OF doc_rGet [OF doc, of "lockKey t k"], of s] g by (simp add: doc_Get_def typed_def key_defs)
  obtain y s2 where st: "rSet R (lockKey t k) h ttl' (other s1) = (y, s2)" by fastforce
  have "y = Inr () \<and> lock_owner (v s2) t k = Some h"
    using obeys_sureD [OF doc_rSet [OF doc, of "lockKey t k" h ttl'], of "other s1"] st
    by (simp add: doc_Set_def lock_owner_def str_at_put)
  then show ?thesis using g x st by (simp add: RenewLock_between_def Let_def ttl'_def)
qed

text \<open>In the witness the lock expires after the GET and another holder takes it before the SET.\<close>

theorem RenewLock_takes_lock_witness:
  "let steal = (\<lambda>s. snd (LockTopic ref_redis ''t'' LockPublish ''bob'' 0 (ref_put ''publish:lock:t'' None s)))
   in fst (RenewLock_between steal ref_redis ''t'' LockPublish ''ann'' 0 two_lock_state) = Inr ()
    \<and> lock_owner (ref_view (snd (RenewLock_between steal ref_redis ''t'' LockPublish ''ann'' 0 two_lock_state)))
        ''t'' LockPublish = Some ''ann''"
proof -
  let ?steal = "\<lambda>s. snd (LockTopic ref_redis ''t'' LockPublish ''bob'' 0 (ref_put ''publish:lock:t'' None s))"
  have "lock_owner (ref_view (?steal (snd (rGet ref_redis (lockKey ''t'' LockPublish) two_lock_state)))) ''t'' LockPublish = Some ''bob''"
    by (simp add: LockTopic_def eval_defs)
  from RenewLock_takes_lock [where other = ?steal, OF ref_redis_documented two_lock_owner this, of 0]
  show ?thesis by (simp add: Let_def)
qed

text \<open>
  No refresh. Locking a topic one already holds is answered with success and changes nothing:
  in particular the time to live keeps running, and only \<^verbatim>\<open>RenewLock\<close> restarts it.
\<close>

theorem LockTopic_again_no_refresh:
  assumes doc: "documented False R v" and own: "lock_owner (v s) t k = Some h"
  shows "fst (LockTopic R t k h ttl s) = Inr () \<and> v (snd (LockTopic R t k h ttl s)) = v s"
proof -
  define ttl' where "ttl' = (if ttl \<le> 0 then DefaultLockTTL else ttl)"
  from own obtain tm where key: "keyspace (v s) (lockKey t k) = Some (VStr h tm)"
    by (auto simp: lock_owner_def dest: str_at_SomeD)
  obtain x s1 where nx: "rSetNX R (lockKey t k) h ttl' s = (x, s1)" by fastforce
  have x: "x = Inr False \<and> v s1 = v s"
    using obeys_sureD [OF doc_rSetNX [OF doc, of "lockKey t k" h ttl'], of s] nx key by (simp add: doc_SetNX_def)
  obtain y s2 where g: "rGet R (lockKey t k) s1 = (y, s2)" by fastforce
  have "y = Inr h \<and> v s2 = v s"
    using obeys_sureD [OF doc_rGet [OF doc, of "lockKey t k"], of s1] g key x
    by (simp add: doc_Get_def typed_def key_defs)
  then show ?thesis using nx x g by (simp add: LockTopic_def Let_def ttl'_def)
qed

theorem LockTopic_again_no_refresh_witness:
  "fst (LockTopic ref_redis ''t'' LockPublish ''ann'' 900000 two_lock_state) = Inr ()
   \<and> ttl_at (ref_view (snd (LockTopic ref_redis ''t'' LockPublish ''ann'' 900000 two_lock_state)))
       (lockKey ''t'' LockPublish) = Some 300000"
  using LockTopic_again_no_refresh [OF ref_redis_documented two_lock_owner, of 900000]
  by (simp add: eval_defs)

end
