(* ===== verification/RateLimit.thy ===== *)
theory RateLimit
  imports RedisRef
begin

text \<open>
  The sliding-window rate limiter: \<^verbatim>\<open>internal/ratelimit/ratelimit.go\<close>. A request is recorded in a
  sorted set under its time; the Lua script trims the set, counts it and adds the request if there
  is room. The refinement lemma shows that this decides exactly as a limiter that keeps every
  accepted request for ever. The time to live of the key, which only removes a set whose members
  are all outside the window, is not part of the keyspace view.
\<close>

section \<open>Operations\<close>

record rate_cfg =
  Window :: int
  MaxRequests :: int

definition DefaultMessageConfig :: "int \<Rightarrow> rate_cfg" where
  "DefaultMessageConfig perSec = \<lparr>Window = 1000, MaxRequests = (if perSec \<le> 0 then 50 else perSec)\<rparr>"

definition DefaultJobConfig :: "int \<Rightarrow> rate_cfg" where
  "DefaultJobConfig perMin = \<lparr>Window = 60000, MaxRequests = (if perMin \<le> 0 then 30 else perMin)\<rparr>"

text \<open>The Lua script: a failing \<^verbatim>\<open>redis.call\<close> ends it with the error.\<close>

definition rate_script :: "'s redis \<Rightarrow> string \<Rightarrow> int \<Rightarrow> int \<Rightarrow> int \<Rightarrow> blob \<Rightarrow> ('s, int) cmd" where
  "rate_script R key now window limit member s =
     (case rZRemRangeByScore R key (now - window) s of
        (Inl e, s1) \<Rightarrow> (Inl e, s1)
      | (Inr _, s1) \<Rightarrow>
          (case rZCard R key s1 of
             (Inl e, s2) \<Rightarrow> (Inl e, s2)
           | (Inr n, s2) \<Rightarrow>
               if n \<ge> limit then (Inr 0, s2)
               else (case rZAdd R key now member s2 of
                       (Inl e, s3) \<Rightarrow> (Inl e, s3)
                     | (Inr _, s3) \<Rightarrow>
                         (case rPExpire R key window s3 of
                            (Inl e, s4) \<Rightarrow> (Inl e, s4)
                          | (Inr _, s4) \<Rightarrow> (Inr 1, s4)))))"

definition rate_key :: "string \<Rightarrow> string \<Rightarrow> string" where
  "rate_key bucket uk = ''rl:'' @ bucket @ '':'' @ uk"

definition rate_member :: "int \<Rightarrow> nat \<Rightarrow> blob" where
  "rate_member now sq = Text (FormatInt now @ ''-'' @ FormatUint sq)"

text \<open>\<open>now\<close> is the clock in milliseconds, \<open>sq\<close> the next value of the process-wide counter \<^verbatim>\<open>seq\<close>.\<close>

definition Allow :: "'s redis \<Rightarrow> string \<Rightarrow> string \<Rightarrow> rate_cfg \<Rightarrow> int \<Rightarrow> nat \<Rightarrow> ('s, bool) cmd" where
  "Allow R bucket uk cfg now sq s =
     (case rEval R (rate_script R (rate_key bucket uk) now (Window cfg) (MaxRequests cfg) (rate_member now sq)) s of
        (Inl e, s1) \<Rightarrow> (Inl (Wrap ''eval ratelimit: '' e []), s1)
      | (Inr n, s1) \<Rightarrow> (Inr (n = 1), s1))"

section \<open>The reference limiter\<close>

text \<open>It keeps all accepted requests and counts those inside the window.\<close>

definition in_window :: "int \<Rightarrow> int \<Rightarrow> (blob \<times> int) list \<Rightarrow> (blob \<times> int) list" where
  "in_window window now acc = filter (\<lambda>p. now - window < snd p) acc"

definition spec_allow :: "rate_cfg \<Rightarrow> int \<Rightarrow> blob \<Rightarrow> (blob \<times> int) list \<Rightarrow> bool \<times> (blob \<times> int) list" where
  "spec_allow cfg now member acc =
     (if int (length (in_window (Window cfg) now acc)) < MaxRequests cfg then (True, (member, now) # acc) else (False, acc))"

text \<open>The set in Redis holds the accepted requests inside the window, each under a member of its own.\<close>

definition rate_rel :: "int \<Rightarrow> int \<Rightarrow> (blob \<times> int) list \<Rightarrow> (blob \<times> int) list \<Rightarrow> bool" where
  "rate_rel window now z acc \<longleftrightarrow> zset_ok z \<and> distinct (map fst acc) \<and> set z = set (in_window window now acc)"

lemma rate_rel_length:
  assumes "rate_rel window now z acc"
  shows "length z = length (in_window window now acc)"
proof -
  have "distinct z" "distinct acc" using assms by (auto simp: rate_rel_def zset_ok_def distinct_map)
  then show ?thesis
    using assms by (metis distinct_card distinct_filter in_window_def rate_rel_def)
qed

lemma rate_rel_trim:
  assumes "rate_rel window t0 z acc" and "t0 \<le> now"
  shows "rate_rel window now (filter (\<lambda>p. \<not> snd p \<le> now - window) z) acc"
proof -
  from assms(1) have ok: "zset_ok (filter (\<lambda>p. \<not> snd p \<le> now - window) z)" and acc: "distinct (map fst acc)"
    and z: "set z = set (in_window window t0 acc)" by (simp_all only: rate_rel_def zset_ok_filter)
  have "set (filter (\<lambda>p. \<not> snd p \<le> now - window) z) = {p \<in> set (in_window window t0 acc). \<not> snd p \<le> now - window}"
    by (simp only: set_filter z)
  also have "\<dots> = set (in_window window now acc)" using assms(2) by (auto simp: in_window_def)
  finally have "set (filter (\<lambda>p. \<not> snd p \<le> now - window) z) = set (in_window window now acc)" .
  with ok acc show ?thesis by (simp only: rate_rel_def)
qed

lemma zset_ok_map_of: "zset_ok z \<Longrightarrow> map_of z k = Some v \<longleftrightarrow> (k, v) \<in> set z"
  by (simp add: zset_ok_def)

lemma rate_rel_add:
  assumes rel: "rate_rel window now z acc" and new: "member \<notin> fst ` set acc" and win: "0 < window"
    and ok: "zset_ok ys" and ys: "map_of ys = (map_of z)(member \<mapsto> now)"
  shows "rate_rel window now ys ((member, now) # acc)"
proof -
  have z: "zset_ok z" "set z = set (in_window window now acc)" using rel by (simp_all add: rate_rel_def)
  have "member \<notin> fst ` set z" using new z(2) by (auto simp: in_window_def)
  then have none: "(member, v) \<notin> set z" for v by force
  have "(k, v) \<in> set ys \<longleftrightarrow> (k, v) = (member, now) \<or> (k, v) \<in> set z" for k v
    using zset_ok_map_of [OF ok, of k v] zset_ok_map_of [OF z(1), of k v] none [of v] by (auto simp: ys split: if_splits)
  then have "set ys = insert (member, now) (set z)" by auto
  with rel new win ok show ?thesis by (auto simp: rate_rel_def in_window_def)
qed

lemma rate_script_refines:
  assumes doc: "documented False R v" and key: "zset_key (v s) key" and win: "0 < window"
    and rel: "rate_rel window t0 (zset_at (v s) key) acc" and mono: "t0 \<le> now" and new: "member \<notin> fst ` set acc"
    and spec: "spec_allow \<lparr>Window = window, MaxRequests = limit\<rparr> now member acc = (b, acc')"
  shows "fst (rate_script R key now window limit member s) = Inr (if b then 1 else 0)
    \<and> zset_key (v (snd (rate_script R key now window limit member s))) key
    \<and> rate_rel window now (zset_at (v (snd (rate_script R key now window limit member s))) key) acc'"
proof -
  define z1 where "z1 = filter (\<lambda>p. \<not> snd p \<le> now - window) (zset_at (v s) key)"
  have rel1: "rate_rel window now z1 acc" unfolding z1_def by (rule rate_rel_trim [OF rel mono])
  obtain r1 s1 where c1: "rZRemRangeByScore R key (now - window) s = (r1, s1)" by fastforce
  have r1: "r1 = Inr ()" "v s1 = put_zset key z1 (v s)"
    using obeys_sureD [OF doc_rZRemRangeByScore [OF doc, of key "now - window"], of s] c1 key
    by (simp_all add: doc_ZRemRangeByScore_def typed_def z1_def)
  obtain r2 s2 where c2: "rZCard R key s1 = (r2, s2)" by fastforce
  have r2: "r2 = Inr (int (length z1))" "v s2 = v s1"
    using obeys_sureD [OF doc_rZCard [OF doc, of key], of s1] c2 by (simp_all add: doc_ZCard_def typed_def r1)
  note len = rate_rel_length [OF rel1]
  show ?thesis
  proof (cases "int (length z1) < limit")
    case False
    then have "\<not> b" "acc' = acc" using spec len by (auto simp: spec_allow_def split: if_splits)
    with False c1 r1 c2 r2 rel1 show ?thesis by (simp add: rate_script_def)
  next
    case True
    then have b: "b" "acc' = (member, now) # acc" using spec len by (auto simp: spec_allow_def split: if_splits)
    obtain r3 s3 where c3: "rZAdd R key now member s2 = (r3, s3)" by fastforce
    obtain ys where r3: "r3 = Inr ()" "v s3 = put_zset key ys (v s2)" "zset_ok z1 \<longrightarrow> zset_ok ys"
      "map_of ys = (map_of z1)(member \<mapsto> now)"
      using obeys_sureD [OF doc_rZAdd [OF doc, of key now member], of s2] c3
      by (auto simp: doc_ZAdd_def typed_def r2 r1)
    obtain r4 s4 where c4: "rPExpire R key window s3 = (r4, s4)" by fastforce
    have r4: "r4 = Inr ()" "v s4 = v s3"
      using obeys_sureD [OF doc_rPExpire [OF doc, of key window], of s3] c4 by (simp_all add: doc_PExpire_def)
    have "rate_rel window now ys ((member, now) # acc)"
      using rel1 r3(3,4) by (intro rate_rel_add [OF rel1 new win]) (simp_all add: rate_rel_def)
    with True c1 r1 c2 r2 c3 r3 c4 r4 b show ?thesis by (simp add: rate_script_def)
  qed
qed

section \<open>Sequences of requests\<close>

text \<open>Requests of one user to one bucket, each with its time and the counter's value.\<close>

abbreviation allow_all :: "'s redis \<Rightarrow> string \<Rightarrow> string \<Rightarrow> rate_cfg \<Rightarrow> (int \<times> nat) list \<Rightarrow> 's \<Rightarrow> bool result list \<times> 's" where
  "allow_all R bucket uk cfg \<equiv> run_ops (\<lambda>c. Allow R bucket uk cfg (fst c) (snd c))"

fun spec_all :: "rate_cfg \<Rightarrow> (int \<times> nat) list \<Rightarrow> (blob \<times> int) list \<Rightarrow> bool list" where
  "spec_all cfg [] acc = []"
| "spec_all cfg ((now, sq) # calls) acc =
     (let (b, acc1) = spec_allow cfg now (rate_member now sq) acc in b # spec_all cfg calls acc1)"

lemma Allow_refines:
  assumes doc: "documented False R v" and key: "zset_key (v s) (rate_key bucket uk)" and win: "0 < Window cfg"
    and rel: "rate_rel (Window cfg) t0 (zset_at (v s) (rate_key bucket uk)) acc" and mono: "t0 \<le> now"
    and new: "rate_member now sq \<notin> fst ` set acc"
    and spec: "spec_allow cfg now (rate_member now sq) acc = (b, acc')"
    and run: "Allow R bucket uk cfg now sq s = (r, s')"
  shows "r = Inr b \<and> zset_key (v s') (rate_key bucket uk)
    \<and> rate_rel (Window cfg) now (zset_at (v s') (rate_key bucket uk)) acc'"
proof -
  let ?b = "rate_script R (rate_key bucket uk) now (Window cfg) (MaxRequests cfg) (rate_member now sq)"
  have "spec_allow \<lparr>Window = Window cfg, MaxRequests = MaxRequests cfg\<rparr> now (rate_member now sq) acc = (b, acc')"
    using spec by (simp add: spec_allow_def)
  note ref = rate_script_refines [OF doc key win rel mono new this]
  obtain n s1 where ev: "rEval R ?b s = (n, s1)" by fastforce
  have "n = fst (?b s)" "v s1 = v (snd (?b s))"
    using eval_sureD [OF doc_rEval [OF doc], of ?b s] ev by simp_all
  with ref run ev show ?thesis by (auto simp: Allow_def split: if_splits)
qed

text \<open>
  The reference limiter as a specification of single requests. Its state is the time of the last
  request with the accepted ones; it promises nothing when time runs back or a member comes twice.
\<close>

definition rate_spec :: "rate_cfg \<Rightarrow> int \<times> nat \<Rightarrow> int \<times> (blob \<times> int) list \<Rightarrow> (bool result \<times> int \<times> (blob \<times> int) list) option" where
  "rate_spec cfg c a =
     (let m = rate_member (fst c) (snd c); (b, acc) = spec_allow cfg (fst c) m (snd a) in
      if fst a \<le> fst c \<and> m \<notin> fst ` set (snd a) then Some (Inr b, fst c, acc) else None)"

interpretation limiter_set: simulation "\<lambda>(R, v, bucket, uk, cfg). documented False R v \<and> 0 < Window cfg"
  "\<lambda>(R, v, bucket, uk, cfg) s a. zset_key (v s) (rate_key bucket uk) \<and> rate_rel (Window cfg) (fst a) (zset_at (v s) (rate_key bucket uk)) (snd a)"
  "\<lambda>(R, v, bucket, uk, cfg) c. Allow R bucket uk cfg (fst c) (snd c)" "\<lambda>(R, v, bucket, uk, cfg). rate_spec cfg"
proof (unfold_locales, goal_cases)
  case (1 w s a c r a')
  obtain R v bucket uk cfg where w: "w = (R, v, bucket, uk, cfg)" by (cases w)
  obtain b acc where sp: "spec_allow cfg (fst c) (rate_member (fst c) (snd c)) (snd a) = (b, acc)" by fastforce
  obtain q s' where al: "Allow R bucket uk cfg (fst c) (snd c) s = (q, s')" by fastforce
  from 1 w sp have "fst a \<le> fst c" "rate_member (fst c) (snd c) \<notin> fst ` set (snd a)" "r = Inr b" "a' = (fst c, acc)"
    by (auto simp: rate_spec_def Let_def split: if_splits)
  with Allow_refines [of R v s bucket uk cfg "fst a" "snd a" "fst c" "snd c" b acc q s'] 1 w sp al show ?case by simp
qed

lemma disjoint_insert_mono: "B \<subseteq> insert m A \<Longrightarrow> m \<notin> M \<Longrightarrow> M \<inter> A = {} \<Longrightarrow> M \<inter> B = {}"
  by blast

lemma spec_allow_members: "fst ` set (snd (spec_allow cfg now m acc)) \<subseteq> insert m (fst ` set acc)"
  by (auto simp: spec_allow_def)

text \<open>On requests in the order of their times, with members of their own, the specification is defined.\<close>

lemma run_rate_spec:
  "sorted (t0 # map fst calls) \<Longrightarrow> distinct (map (\<lambda>c. rate_member (fst c) (snd c)) calls) \<Longrightarrow>
    (\<lambda>c. rate_member (fst c) (snd c)) ` set calls \<inter> fst ` set acc = {} \<Longrightarrow>
    \<exists>a. run_spec (rate_spec cfg) calls (t0, acc) = Some (map Inr (spec_all cfg calls acc), a)"
proof (induction calls arbitrary: t0 acc)
  case Nil
  then show ?case by simp
next
  case (Cons c calls)
  let ?mem = "\<lambda>c. rate_member (fst c) (snd c)"
  obtain b acc1 where sp: "spec_allow cfg (fst c) (?mem c) acc = (b, acc1)" by fastforce
  have "fst ` set acc1 \<subseteq> insert (?mem c) (fst ` set acc)" using spec_allow_members [of cfg "fst c" "?mem c" acc] sp by simp
  moreover have "?mem c \<notin> ?mem ` set calls" "?mem ` set calls \<inter> fst ` set acc = {}" using Cons.prems by simp_all
  ultimately have "?mem ` set calls \<inter> fst ` set acc1 = {}" by (rule disjoint_insert_mono)
  with Cons.IH [of "fst c" acc1] Cons.prems
  obtain a where "run_spec (rate_spec cfg) calls (fst c, acc1) = Some (map Inr (spec_all cfg calls acc1), a)" by auto
  moreover have "rate_spec cfg c (t0, acc) = Some (Inr b, fst c, acc1)" using Cons.prems sp by (simp add: rate_spec_def Let_def)
  ultimately show ?case using sp by (cases c) simp
qed

text \<open>
  The limiter decides exactly (C12). For requests of one user to one bucket, in the order of their
  times and with distinct members, the script on Redis allows exactly the requests that the
  reference limiter allows: those that find fewer than the limit accepted requests in the
  window that ends with them.
\<close>

theorem rate_limit_exact:
  assumes doc: "documented False R v" and win: "0 < Window cfg" and fresh: "keyspace (v s) (rate_key bucket uk) = None"
    and times: "sorted (map fst calls)" and mem: "distinct (map (\<lambda>c. rate_member (fst c) (snd c)) calls)"
  shows "fst (allow_all R bucket uk cfg calls s) = map Inr (spec_all cfg calls [])"
proof (cases calls)
  case Nil
  then show ?thesis by simp
next
  case (Cons c cs)
  have key: "zset_key (v s) (rate_key bucket uk)" "zset_at (v s) (rate_key bucket uk) = []"
    using fresh by (simp_all add: zset_key_def zset_at_def)
  have rel: "rate_rel (Window cfg) (fst c) [] []" by (simp add: rate_rel_def zset_ok_def in_window_def)
  obtain a where "run_spec (rate_spec cfg) calls (fst c, []) = Some (map Inr (spec_all cfg calls []), a)"
    using run_rate_spec [of "fst c" calls "[]" cfg] times mem Cons by auto
  with limiter_set.run_simulates [of "(R, v, bucket, uk, cfg)" s "(fst c, [])" calls] doc win key rel show ?thesis by simp
qed

definition no_keys :: ref_state where "no_keys = \<lparr>entries = [], pubs = []\<rparr>"

theorem rate_limit_exact_witness:
  "fst (allow_all ref_redis ''msg'' ''ann'' (DefaultMessageConfig 2) [(0, 1), (500, 2), (900, 3), (1000, 4)] no_keys)
     = [Inr True, Inr True, Inr False, Inr True]"
proof -
  let ?calls = "[(0, 1), (500, 2), (900, 3), (1000, 4)] :: (int \<times> nat) list"
  have fresh: "keyspace (ref_view no_keys) (rate_key ''msg'' ''ann'') = None" by (simp add: no_keys_def)
  have mem: "distinct (map (\<lambda>c. rate_member (fst c) (snd c)) ?calls)"
    by (simp add: rate_member_def FormatInt_def FormatUint.simps digit_char_eval)
  have "spec_all (DefaultMessageConfig 2) ?calls [] = [True, True, False, True]"
    by (simp add: spec_allow_def in_window_def DefaultMessageConfig_def)
  with rate_limit_exact [OF ref_redis_documented _ fresh _ mem, of "DefaultMessageConfig 2"] show ?thesis
    by (simp add: DefaultMessageConfig_def)
qed

text \<open>
  The counter \<^verbatim>\<open>seq\<close> belongs to a process, so two instances can produce the same member in the same
  millisecond. The second request then replaces the first in the set: with a limit of two, three
  requests at one instant are allowed.
\<close>

lemma rate_member_collision:
  "fst (allow_all ref_redis ''msg'' ''ann'' \<lparr>Window = 1000, MaxRequests = 2\<rparr> [(0, 1), (0, 1), (0, 2)] no_keys)
     = [Inr True, Inr True, Inr True]"
  by (simp add: Allow_def rate_script_def rate_key_def rate_member_def FormatInt_def FormatUint.simps digit_char_eval
      ref_redis_def ref_typed_def ref_view_def ref_put_def ref_put_zset_def zset_key_def zset_at_def no_keys_def)

end
