(* ===== verification/Dispatch.thy ===== *)
theory Dispatch
  imports HandlerReg Client Locks RateLimit Authz SchedStore
begin

text \<open>
  The handlers of inbound frames: \<^verbatim>\<open>internal/connection/handler.go\<close>. The state \<open>app\<close> is the
  instance (bus, hub and connections, Redis) with the counters the handlers keep. The
  dependencies \<open>deps\<close> are the struct \<^verbatim>\<open>Deps\<close>, with the clock of the frame, the library functions
  the handlers call and the claims of the connections. A handler returns the text of a success
  frame, empty for none, or an error.
\<close>

section \<open>State and dependencies\<close>

record 's app =
  core :: "(cref, hub_world, 's) inst"
  rl_seq :: nat
  wakes :: nat
  FramesReceived :: "string list"
  AuthzDecisions :: "(string \<times> string) list"
  RateLimitDecisions :: "(string \<times> string) list"

text \<open>
  \<open>d_pick\<close> and \<open>d_ctxDone\<close> are the choices of \<^verbatim>\<open>SendNow\<close>, \<open>d_write\<close> says which frames the
  socket accepts. \<open>d_time_text\<close> is the time of a presence event as text.
\<close>

record 's deps =
  d_RDB :: "'s redis"
  d_bus_cfg :: bus_cfg
  d_marshal :: "json \<Rightarrow> string"
  d_timeParse :: time_parse
  d_floatInt :: "string \<Rightarrow> int option"
  d_time_text :: string
  d_now :: int
  d_pick :: bool
  d_ctxDone :: bool
  d_write :: "outFrame \<Rightarrow> bool"
  d_claims :: "cref \<Rightarrow> (string \<times> json) list"
  MessageRateLimit :: rate_cfg
  JobRateLimit :: rate_cfg
  OnSchedulerWake :: bool
  d_Authorizer :: "Authorizer option"
  d_Registry :: "'s app Registry"
  d_Middleware :: "'s app Middleware option list"
  AckCursorTTL :: int
  OnConnect :: "(Conn_info \<Rightarrow> 's app \<Rightarrow> 's app) option"
  OnDisconnect :: "(Conn_info \<Rightarrow> 's app \<Rightarrow> 's app) option"
  PresenceTopic :: string

definition bus_of :: "'s deps \<Rightarrow> (cref, hub_world, 's) bus_env" where
  "bus_of D = \<lparr>be_pub = Some (d_RDB D), be_subs = hub_subscribers (d_marshal D),
     be_broadcast = Some (hub_target (d_marshal D)), be_cfg = d_bus_cfg D\<rparr>"

definition the_conn :: "'s app \<Rightarrow> cref \<Rightarrow> Conn" where
  "the_conn x c = heap (world (core x)) c"

definition user_of :: "'s app \<Rightarrow> cref \<Rightarrow> string" where
  "user_of x c = userKey (the_conn x c)"

definition set_rds :: "'s \<Rightarrow> 's app \<Rightarrow> 's app" where
  "set_rds s x = x\<lparr>core := (core x)\<lparr>rds := s\<rparr>\<rparr>"

text \<open>A command of \<^verbatim>\<open>redisx\<close> on the shared state.\<close>

definition redis_do :: "('s, 'a) cmd \<Rightarrow> 's app \<Rightarrow> 'a result \<times> 's app" where
  "redis_do cmd x = (case cmd (rds (core x)) of (r, s) \<Rightarrow> (r, set_rds s x))"

definition bus_do :: "(cref Bus \<Rightarrow> cref Bus) \<Rightarrow> 's app \<Rightarrow> 's app" where
  "bus_do f x = x\<lparr>core := (core x)\<lparr>bus := f (bus (core x))\<rparr>\<rparr>"

definition core_do ::
  "((cref, hub_world, 's) inst \<Rightarrow> 'a result \<times> (cref, hub_world, 's) inst) \<Rightarrow> 's app \<Rightarrow> 'a result \<times> 's app" where
  "core_do f x = (case f (core x) of (r, y) \<Rightarrow> (r, x\<lparr>core := y\<rparr>))"

text \<open>
  A reply through \<^verbatim>\<open>SendNow\<close>. With a full queue the call waits until the writer has taken a frame;
  if the writer is gone it does not return, and the frame is not queued.
\<close>

definition send_now :: "'s deps \<Rightarrow> json \<Rightarrow> Conn \<Rightarrow> Conn" where
  "send_now D j cn =
     (case SendNow (d_pick D) (d_ctxDone D) (d_marshal D j) cn of
        Some cn' \<Rightarrow> cn'
      | None \<Rightarrow>
          (case writer_step (d_write D) cn of
             None \<Rightarrow> cn
           | Some cn1 \<Rightarrow> (case SendNow (d_pick D) (d_ctxDone D) (d_marshal D j) cn1 of Some cn2 \<Rightarrow> cn2 | None \<Rightarrow> cn1)))"

definition reply :: "'s deps \<Rightarrow> cref \<Rightarrow> json \<Rightarrow> 's app \<Rightarrow> 's app" where
  "reply D c j x =
     (let w = world (core x) in x\<lparr>core := (core x)\<lparr>world := w\<lparr>heap := (heap w)(c := send_now D j (heap w c))\<rparr>\<rparr>\<rparr>)"

section \<open>Authorization and labels\<close>

definition knownFrameTypes :: "string list" where
  "knownFrameTypes = [TypeSubscribe, TypeUnsubscribe, TypePublish, TypeLockTopic, TypeUnlockTopic, TypeRenewLock,
     TypeScheduleJob, TypeRemoveJob, TypeBroadcast, TypePresence, TypeListSubs, TypeAck]"

definition frameTypeLabel :: "string \<Rightarrow> 'x Registry \<Rightarrow> string" where
  "frameTypeLabel t reg =
     (if t \<in> set knownFrameTypes then t else if Lookup reg t \<noteq> None then t else ''unknown'')"

definition note_authz :: "string \<Rightarrow> string \<Rightarrow> 's app \<Rightarrow> 's app" where
  "note_authz act verdict x = x\<lparr>AuthzDecisions := AuthzDecisions x @ [(act, verdict)]\<rparr>"

definition authorize :: "'s deps \<Rightarrow> cref \<Rightarrow> string \<Rightarrow> string \<Rightarrow> 's app \<Rightarrow> goerr option \<times> 's app" where
  "authorize D c act topic x =
     (case d_Authorizer D of
        None \<Rightarrow> (None, note_authz act ''allowed'' x)
      | Some az \<Rightarrow>
          (case az \<lparr>req_UserKey = user_of x c, req_Action = act, req_Topic = topic, req_Claims = d_claims D c\<rparr> of
             None \<Rightarrow> (None, note_authz act ''allowed'' x)
           | Some e \<Rightarrow>
               if Denied e then
                 (Some (Err (''Not authorized to '' @ act @ '' topic '' @ topic @ ''.'')), note_authz act ''denied'' x)
               else (Some (Err ''Internal error''), note_authz act ''error'' x)))"

definition decisionLabel :: "bool \<Rightarrow> string" where
  "decisionLabel allowed = (if allowed then ''allowed'' else ''denied'')"

text \<open>One call of the limiter: it takes the next value of the process-wide counter.\<close>

definition allow :: "'s deps \<Rightarrow> string \<Rightarrow> cref \<Rightarrow> rate_cfg \<Rightarrow> 's app \<Rightarrow> bool result \<times> 's app" where
  "allow D bucket c cfg x =
     (let x1 = x\<lparr>rl_seq := rl_seq x + 1\<rparr> in
      redis_do (Allow (d_RDB D) bucket (user_of x c) cfg (d_now D) (rl_seq x1)) x1)"

definition note_rate :: "string \<Rightarrow> bool \<Rightarrow> 's app \<Rightarrow> 's app" where
  "note_rate bucket allowed x = x\<lparr>RateLimitDecisions := RateLimitDecisions x @ [(bucket, decisionLabel allowed)]\<rparr>"

section \<open>The built-in verbs\<close>

definition subscribed_ok :: "string \<Rightarrow> string" where
  "subscribed_ok topic = ''Successfully subscribed to topic '' @ topic"

text \<open>The end of \<^verbatim>\<open>handleSubscribe\<close>: replay from a position and the frame that reports a gap.\<close>

definition subscribe_since :: "'s deps \<Rightarrow> cref \<Rightarrow> string \<Rightarrow> string \<Rightarrow> 's app \<Rightarrow> string result \<times> 's app" where
  "subscribe_since D c topic since x =
     (case core_do (SubscribeWithReplay (d_timeParse D) (bus_of D) c topic since) x of
        (Inl e, x1) \<Rightarrow> (Inl e, x1)
      | (Inr (truncated, oldest), x1) \<Rightarrow>
          (Inr (subscribed_ok topic), if truncated then reply D c (EncodeReplayTruncated topic oldest) x1 else x1))"

definition subscribe_plain :: "cref \<Rightarrow> string \<Rightarrow> 's app \<Rightarrow> string result \<times> 's app" where
  "subscribe_plain c topic x = (Inr (subscribed_ok topic), bus_do (AddLocalSubscription topic c) x)"

definition handleSubscribe :: "'s deps \<Rightarrow> cref \<Rightarrow> Envelope \<Rightarrow> 's app \<Rightarrow> string result \<times> 's app" where
  "handleSubscribe D c env x =
     (let uk = user_of x c; topic = Topic env in
      case authorize D c ActionSubscribe topic x of
        (Some e, x1) \<Rightarrow> (Inl e, x1)
      | (None, x1) \<Rightarrow>
          (case redis_do (IsTopicLockedByOther (d_RDB D) topic LockSubscribe uk) x1 of
             (Inl e, x2) \<Rightarrow> (Inl (Wrap ''check subscribe lock: '' e []), x2)
           | (Inr locked, x2) \<Rightarrow>
               if locked then (Inl (Err (''Topic '' @ topic @ '' is locked for subscribing by another instance.'')), x2)
               else (case redis_do (AddTopicSubscription (d_RDB D) uk topic) x2 of
                  (Inl e, x3) \<Rightarrow> (Inl e, x3)
                | (Inr _, x3) \<Rightarrow>
                    if Since env = None then subscribe_plain c topic x3
                    else (case SinceToString (d_floatInt D) (Since env) of
                       Inl e \<Rightarrow> (Inl e, x3)
                     | Inr since \<Rightarrow>
                         if since = SinceAck then
                           (case redis_do (AckCursor (d_RDB D) uk topic) x3 of
                              (Inl e, x4) \<Rightarrow> (Inl e, x4)
                            | (Inr cursor, x4) \<Rightarrow>
                                if cursor = [] then subscribe_plain c topic x4
                                else subscribe_since D c topic cursor x4)
                         else subscribe_since D c topic since x3))))"

definition handleUnsubscribe :: "'s deps \<Rightarrow> cref \<Rightarrow> Envelope \<Rightarrow> 's app \<Rightarrow> string result \<times> 's app" where
  "handleUnsubscribe D c env x =
     (case redis_do (RemoveTopicSubscription (d_RDB D) (user_of x c) (Topic env)) x of
        (Inl e, x1) \<Rightarrow> (Inl e, x1)
      | (Inr _, x1) \<Rightarrow>
          (Inr (''Successfully unsubscribed from topic '' @ Topic env), bus_do (RemoveLocalSubscription (Topic env) c) x1))"

definition handlePublish :: "'s deps \<Rightarrow> cref \<Rightarrow> Envelope \<Rightarrow> 's app \<Rightarrow> string result \<times> 's app" where
  "handlePublish D c env x =
     (let topic = Topic env in
      case authorize D c ActionPublish topic x of
        (Some e, x1) \<Rightarrow> (Inl e, x1)
      | (None, x1) \<Rightarrow>
          (case redis_do (IsTopicLockedByOther (d_RDB D) topic LockPublish (user_of x c)) x1 of
             (Inl e, x2) \<Rightarrow> (Inl (Wrap ''check publish lock: '' e []), x2)
           | (Inr locked, x2) \<Rightarrow>
               if locked then (Inl (Err (''Topic '' @ topic @ '' is locked for publishing by another instance.'')), x2)
               else
                 (case core_do (PublishTopic (bus_of D) topic (Data env) (if Report env then conn_id (the_conn x c) else [])) x2 of
                    (Inl e, x3) \<Rightarrow> (Inl e, x3)
                  | (Inr _, x3) \<Rightarrow> (Inr (''Successfully published to topic '' @ topic), x3))))"

definition handleLockTopic :: "'s deps \<Rightarrow> cref \<Rightarrow> Envelope \<Rightarrow> 's app \<Rightarrow> string result \<times> 's app" where
  "handleLockTopic D c env x =
     (case authorize D c ActionLock (Topic env) x of
        (Some e, x1) \<Rightarrow> (Inl e, x1)
      | (None, x1) \<Rightarrow>
          (case redis_do (LockTopic (d_RDB D) (Topic env) (LockType env) (user_of x c) DefaultLockTTL) x1 of
             (Inl e, x2) \<Rightarrow>
               (Inl (if errors_Is e ErrLockHeldByOther
                     then Err (''Cannot lock topic '' @ Topic env @ '' for '' @ LockType env @ ''. It is already locked.'')
                     else e), x2)
           | (Inr _, x2) \<Rightarrow>
               (Inr (''Successfully locked topic '' @ Topic env @ '' for '' @ LockType env
                  @ ''. You must renew the lock within 5 minutes.''), x2)))"

definition handleUnlockTopic :: "'s deps \<Rightarrow> cref \<Rightarrow> Envelope \<Rightarrow> 's app \<Rightarrow> string result \<times> 's app" where
  "handleUnlockTopic D c env x =
     (case authorize D c ActionLock (Topic env) x of
        (Some e, x1) \<Rightarrow> (Inl e, x1)
      | (None, x1) \<Rightarrow>
          (case redis_do (UnlockTopic (d_RDB D) (Topic env) (LockType env) (user_of x c)) x1 of
             (Inl e, x2) \<Rightarrow> (Inl e, x2)
           | (Inr _, x2) \<Rightarrow> (Inr (''Successfully unlocked topic '' @ Topic env @ '' for '' @ LockType env @ ''.''), x2)))"

definition handleRenewLock :: "'s deps \<Rightarrow> cref \<Rightarrow> Envelope \<Rightarrow> 's app \<Rightarrow> string result \<times> 's app" where
  "handleRenewLock D c env x =
     (case authorize D c ActionLock (Topic env) x of
        (Some e, x1) \<Rightarrow> (Inl e, x1)
      | (None, x1) \<Rightarrow>
          (case redis_do (RenewLock (d_RDB D) (Topic env) (LockType env) (user_of x c) DefaultLockTTL) x1 of
             (Inl e, x2) \<Rightarrow>
               (Inl (if errors_Is e ErrLockNotHeld
                     then Err (''Cannot renew lock on topic '' @ Topic env
                       @ ''. It is either not locked or locked by another user.'')
                     else e), x2)
           | (Inr _, x2) \<Rightarrow> (Inr (''Successfully renewed lock on topic '' @ Topic env @ '' for '' @ LockType env), x2)))"

text \<open>A nil \<^verbatim>\<open>JobData\<close> does not get past \<^verbatim>\<open>AddJob\<close>.\<close>

definition handleScheduleJob :: "'s deps \<Rightarrow> cref \<Rightarrow> Envelope \<Rightarrow> 's app \<Rightarrow> string result \<times> 's app" where
  "handleScheduleJob D c env x =
     (case allow D ''job'' c (JobRateLimit D) x of
        (Inl e, x1) \<Rightarrow> (Inl (Wrap ''rate-limit check: '' e []), x1)
      | (Inr allowed, x1) \<Rightarrow>
          let x2 = note_rate ''job'' allowed x1 in
          if \<not> allowed then (Inl (Err ''Rate limit exceeded for scheduleJob''), x2)
          else
            (case redis_do (AddJob (d_timeParse D) (d_RDB D) (JobData_of env)) x2 of
               (Inl e, x3) \<Rightarrow> (Inl e, x3)
             | (Inr _, x3) \<Rightarrow>
                 (Inr (''Successfully scheduled job '' @ (case JobData_of env of None \<Rightarrow> [] | Some j \<Rightarrow> jd_JobID j)),
                  if OnSchedulerWake D then x3\<lparr>wakes := wakes x3 + 1\<rparr> else x3)))"

definition handleRemoveJob :: "'s deps \<Rightarrow> cref \<Rightarrow> Envelope \<Rightarrow> 's app \<Rightarrow> string result \<times> 's app" where
  "handleRemoveJob D c env x =
     (case redis_do (RemoveJob (d_RDB D) (JobID env)) x of
        (Inl e, x1) \<Rightarrow> (Inl e, x1)
      | (Inr _, x1) \<Rightarrow> (Inr (''Successfully removed job '' @ JobID env), x1))"

definition handleAck :: "'s deps \<Rightarrow> cref \<Rightarrow> Envelope \<Rightarrow> 's app \<Rightarrow> string result \<times> 's app" where
  "handleAck D c env x =
     (case authorize D c ActionSubscribe (Topic env) x of
        (Some e, x1) \<Rightarrow> (Inl e, x1)
      | (None, x1) \<Rightarrow>
          (case redis_do (SetAckCursor (d_RDB D) (user_of x c) (Topic env) (StreamID env) (AckCursorTTL D)) x1 of
             (Inl e, x2) \<Rightarrow> (Inl e, x2)
           | (Inr _, x2) \<Rightarrow> (Inr (''Acknowledged '' @ StreamID env @ '' on topic '' @ Topic env), x2)))"

definition handlePresence :: "'s deps \<Rightarrow> cref \<Rightarrow> Envelope \<Rightarrow> 's app \<Rightarrow> string result \<times> 's app" where
  "handlePresence D c env x =
     (case authorize D c ActionSubscribe (Topic env) x of
        (Some e, x1) \<Rightarrow> (Inl e, x1)
      | (None, x1) \<Rightarrow>
          (case redis_do (TopicSubscribers (d_RDB D) (Topic env)) x1 of
             (Inl e, x2) \<Rightarrow> (Inl e, x2)
           | (Inr subs, x2) \<Rightarrow> (Inr [], reply D c (EncodePresence (ReqID env) (Topic env) subs) x2)))"

definition handleListSubscriptions :: "'s deps \<Rightarrow> cref \<Rightarrow> Envelope \<Rightarrow> 's app \<Rightarrow> string result \<times> 's app" where
  "handleListSubscriptions D c env x =
     (case redis_do (SubscribedTopics (d_RDB D) (user_of x c)) x of
        (Inl e, x1) \<Rightarrow> (Inl e, x1)
      | (Inr topics, x1) \<Rightarrow> (Inr [], reply D c (EncodeSubscriptions (ReqID env) topics) x1))"

definition handle_Broadcast :: "'s deps \<Rightarrow> cref \<Rightarrow> Envelope \<Rightarrow> 's app \<Rightarrow> string result \<times> 's app" where
  "handle_Broadcast D c env x =
     (case redis_do (PublishBroadcast (bus_of D) (user_of x c) (Data env)) x of
        (Inl e, x1) \<Rightarrow> (Inl e, x1)
      | (Inr _, x1) \<Rightarrow> (Inr [], x1))"

section \<open>Dispatch\<close>

definition request_of :: "'s deps \<Rightarrow> cref \<Rightarrow> Envelope \<Rightarrow> 's app \<Rightarrow> handler_Request" where
  "request_of D c env x = \<lparr>hq_UserKey = user_of x c, hq_ConnID = conn_id (the_conn x c), hq_Claims = d_claims D c,
     hq_Envelope = Some env\<rparr>"

definition builtin :: "'s deps \<Rightarrow> cref \<Rightarrow> Envelope \<Rightarrow> 's app \<Rightarrow> string result \<times> 's app" where
  "builtin D c env x =
     (let ty = Type env in
      if ty = TypeSubscribe then handleSubscribe D c env x
      else if ty = TypeUnsubscribe then handleUnsubscribe D c env x
      else if ty = TypePublish then handlePublish D c env x
      else if ty = TypeLockTopic then handleLockTopic D c env x
      else if ty = TypeUnlockTopic then handleUnlockTopic D c env x
      else if ty = TypeRenewLock then handleRenewLock D c env x
      else if ty = TypeScheduleJob then handleScheduleJob D c env x
      else if ty = TypeRemoveJob then handleRemoveJob D c env x
      else if ty = TypeAck then handleAck D c env x
      else if ty = TypePresence then handlePresence D c env x
      else if ty = TypeListSubs then handleListSubscriptions D c env x
      else if ty = TypeBroadcast then handle_Broadcast D c env x
      else (Inr [], x))"

definition route :: "'s deps \<Rightarrow> cref \<Rightarrow> Envelope \<Rightarrow> 's app \<Rightarrow> string result \<times> 's app" where
  "route D c env x =
     (case Lookup (d_Registry D) (Type env) of
        Some h \<Rightarrow> h (request_of D c env x) x
      | None \<Rightarrow> builtin D c env x)"

text \<open>The handler at the end of the chain; a middleware may hand on a request with another envelope.\<close>

definition route_handler :: "'s deps \<Rightarrow> cref \<Rightarrow> 's app Handler" where
  "route_handler D c req x =
     (case hq_Envelope req of
        None \<Rightarrow> (Inl (Panic ''runtime error: invalid memory address or nil pointer dereference''), x)
      | Some env \<Rightarrow> route D c env x)"

text \<open>A panic of a handler ends the process: no frame is sent.\<close>

fun is_panic :: "goerr \<Rightarrow> bool" where
  "is_panic (Panic m) = True"
| "is_panic e = False"

definition finish :: "'s deps \<Rightarrow> cref \<Rightarrow> string \<Rightarrow> string result \<times> 's app \<Rightarrow> 's app" where
  "finish D c rid p =
     (case p of
        (Inl e, x) \<Rightarrow> if is_panic e then x else reply D c (EncodeError rid (Error e)) x
      | (Inr msg, x) \<Rightarrow> if msg = [] then x else reply D c (EncodeSuccess rid msg) x)"

definition validate_frame :: "'s deps \<Rightarrow> Envelope \<Rightarrow> unit result" where
  "validate_frame D env =
     (if Lookup (d_Registry D) (Type env) = None then Validate (d_timeParse D) (d_floatInt D) env
      else ValidateVersion env)"

definition Dispatch :: "'s deps \<Rightarrow> cref \<Rightarrow> blob \<Rightarrow> 's app \<Rightarrow> 's app" where
  "Dispatch D c rawFrame x =
     (case unmarshal_Envelope rawFrame of
        None \<Rightarrow> reply D c (EncodeError [] ''Invalid JSON'') (x\<lparr>FramesReceived := FramesReceived x @ [''invalid_json'']\<rparr>)
      | Some env \<Rightarrow>
          let rid = ReqID env;
              x1 = x\<lparr>FramesReceived := FramesReceived x @ [frameTypeLabel (Type env) (d_Registry D)]\<rparr>
          in case allow D ''msg'' c (MessageRateLimit D) x1 of
               (Inl e, x2) \<Rightarrow> reply D c (EncodeError rid ''Internal error'') x2
             | (Inr allowed, x2) \<Rightarrow>
                 let x3 = note_rate ''msg'' allowed x2 in
                 if \<not> allowed then reply D c (EncodeError rid ''Rate limit exceeded'') x3
                 else case validate_frame D env of
                     Inl e \<Rightarrow> reply D c (EncodeError rid (Error e)) x3
                   | Inr _ \<Rightarrow> finish D c rid (Chain (route_handler D c) (d_Middleware D) (request_of D c env x3) x3))"

section \<open>Presence and disconnection\<close>

definition PresenceConnected :: string where "PresenceConnected = ''connected''"
definition PresenceDisconnected :: string where "PresenceDisconnected = ''disconnected''"

definition marshal_presence :: "string \<Rightarrow> string \<Rightarrow> string \<Rightarrow> json" where
  "marshal_presence event uk at = JObj [(''event'', JStr event), (''userKey'', JStr uk), (''at'', JStr at)]"

definition PublishPresence :: "'s deps \<Rightarrow> string \<Rightarrow> string \<Rightarrow> 's app \<Rightarrow> 's app" where
  "PublishPresence D uk event x =
     (if PresenceTopic D = [] then x
      else snd (core_do (PublishTopic (bus_of D) (PresenceTopic D) (Some (marshal_presence event uk (d_time_text D))) []) x))"

text \<open>Errors of the single releases are logged and passed over.\<close>

fun unlock_all :: "'s redis \<Rightarrow> string \<Rightarrow> string list \<Rightarrow> 's \<Rightarrow> 's" where
  "unlock_all R uk [] s = s"
| "unlock_all R uk (t # ts) s =
     unlock_all R uk ts (snd (UnlockTopic R t LockSubscribe uk (snd (UnlockTopic R t LockPublish uk s))))"

fun unsubscribe_all :: "'s redis \<Rightarrow> string \<Rightarrow> string list \<Rightarrow> 's \<Rightarrow> 's" where
  "unsubscribe_all R uk [] s = s"
| "unsubscribe_all R uk (t # ts) s = unsubscribe_all R uk ts (snd (RemoveTopicSubscription R uk t s))"

definition cleanup_user :: "'s redis \<Rightarrow> string \<Rightarrow> 's \<Rightarrow> 's" where
  "cleanup_user R uk s =
     (let (locked, s1) = LockedTopics R uk s;
          s2 = unlock_all R uk (case locked of Inl e \<Rightarrow> [] | Inr ts \<Rightarrow> ts) s1;
          (subs, s3) = SubscribedTopics R uk s2
      in unsubscribe_all R uk (case subs of Inl e \<Rightarrow> [] | Inr ts \<Rightarrow> ts) s3)"

definition conn_info :: "'s deps \<Rightarrow> cref \<Rightarrow> 's app \<Rightarrow> Conn_info" where
  "conn_info D c x = \<lparr>ci_ConnID = conn_id (the_conn x c), ci_UserKey = user_of x c, ci_Claims = d_claims D c\<rparr>"

definition Cleanup :: "'s deps \<Rightarrow> cref \<Rightarrow> bool \<Rightarrow> 's app \<Rightarrow> 's app" where
  "Cleanup D c isLast x =
     (let uk = user_of x c;
          x1 = bus_do (RemoveSubscriberAll c) x;
          x2 = (case OnDisconnect D of None \<Rightarrow> x1 | Some f \<Rightarrow> f (conn_info D c x1) x1);
          x3 = (if isLast then PublishPresence D uk PresenceDisconnected x2 else x2);
          x4 = (if isLast then set_rds (cleanup_user (d_RDB D) uk (rds (core x3))) x3 else x3)
      in snd (redis_do (RemoveConnection (d_RDB D) uk) x4))"

end
