(* ===== verification/BusDelivery.thy ===== *)
theory BusDelivery
  imports Bus
begin

text \<open>
  What a publish and a replay deliver. The first part follows a message from \<^verbatim>\<open>PublishTopic\<close> over
  Redis to the connections of any instance, with the decision of a judge and the delivery report;
  the second part shows what \<^verbatim>\<open>SubscribeWithReplay\<close> sends when nothing else runs, where a judge's
  decision is lost, and what trimming removes.
\<close>

section \<open>Payloads on the wire\<close>

text \<open>
  Payloads survive the wire. An announcement decodes to what was encoded, a nil recipient list
  and an empty one kept apart (data that is absent arrives as \<^verbatim>\<open>null\<close>); so do a delivery report
  and a broadcast.
\<close>

theorem wire_roundtrip:
  assumes "0 \<le> wr_Delivered r" "wr_Delivered r \<le> max_int64" "0 \<le> wr_Dropped r" "wr_Dropped r \<le> max_int64"
    "0 \<le> wr_Filtered r" "wr_Filtered r \<le> max_int64"
  shows "unmarshal_wireTopic (marshal_wireTopic p) = Some (p\<lparr>wp_Data := Some (marshal_raw (wp_Data p))\<rparr>)
    \<and> unmarshal_wireReport (marshal_wireReport r) = Some r
    \<and> unmarshal_wireBroadcast (marshal_wireBroadcast d) = Some (Some (marshal_raw d))"
  using assms
  by (simp add: wireTopic_roundtrip unmarshal_wireReport_def marshal_wireReport_def object_fields_def ToLower_def
      lower_char_def json_int_def FormatInt_def ParseInt_FormatUint unmarshal_wireBroadcast_def
      marshal_wireBroadcast_def dec_raw_def)

theorem wire_roundtrip_witness:
  "let r = \<lparr>wr_Topic = ''t'', wr_StreamID = ''1-0'', wr_Delivered = 2, wr_Dropped = 1, wr_Filtered = 0,
       wr_Instance = ''i1''\<rparr>;
       p = \<lparr>wp_StreamID = ''1-0'', wp_Data = Some JNull, wp_ReportTo = ''c1'', wp_Recipients = Some []\<rparr>
   in unmarshal_wireReport (marshal_wireReport r) = Some r \<and> unmarshal_wireTopic (marshal_wireTopic p) = Some p"
  using wire_roundtrip [of "\<lparr>wr_Topic = ''t'', wr_StreamID = ''1-0'', wr_Delivered = 2, wr_Dropped = 1,
      wr_Filtered = 0, wr_Instance = ''i1''\<rparr>"
      "\<lparr>wp_StreamID = ''1-0'', wp_Data = Some JNull, wp_ReportTo = ''c1'', wp_Recipients = Some []\<rparr>"]
  by (simp add: max_int64_def marshal_raw_def Let_def)

section \<open>Publishing\<close>

lemma PublishTopic_effect:
  assumes doc: "documented net R v" and pub: "be_pub env = Some R"
    and ready: "stream_ready (v (rds x)) (streamKeyPrefix @ t)"
    and rc: "fst (judge (judging (be_cfg env)) t d) = Inr rc"
    and run: "PublishTopic env t d rt x = (Inr sid, x')"
  shows "published (v (rds x')) = published (v (rds x)) @
      [(topicChannelPrefix @ t, marshal_wireTopic \<lparr>wp_StreamID = sid, wp_Data = d, wp_ReportTo = rt, wp_Recipients = rc\<rparr>)]
    \<and> streamIDPattern sid
    \<and> (\<forall>e \<in> set (stream_at (v (rds x)) (streamKeyPrefix @ t)). compareStreamIDs (fst e) sid < 0)
    \<and> (\<exists>m. stream_at (v (rds x')) (streamKeyPrefix @ t) =
          drop m (stream_at (v (rds x)) (streamKeyPrefix @ t)) @ [(sid, Json (marshal_raw d))]
        \<and> (int (length (stream_at (v (rds x)) (streamKeyPrefix @ t))) < StreamMaxLength (be_cfg env) \<longrightarrow> m = 0))
    \<and> world x' = world x"
proof -
  let ?k = "streamKeyPrefix @ t" and ?n = "StreamMaxLength (be_cfg env)" and ?b = "Json (marshal_raw d)"
  let ?p = "marshal_wireTopic \<lparr>wp_StreamID = sid, wp_Data = d, wp_ReportTo = rt, wp_Recipients = rc\<rparr>"
  from run rc pub obtain s1 s2 u where add: "rXAdd R ?k ?n ?b (rds x) = (Inr sid, s1)"
    and ann: "rPublish R (topicChannelPrefix @ t) ?p s1 = (Inr u, s2)" and x': "rds x' = s2" "world x' = world x"
    by (auto simp: PublishTopic_def Let_def split: prod.splits option.splits sum.splits)
  from rXAdd_ok [OF doc add ready] obtain m where
    m: "streamIDPattern sid" "\<forall>e \<in> set (stream_at (v (rds x)) ?k). compareStreamIDs (fst e) sid < 0"
      "v s1 = put ?k (Some (VStream (drop m (stream_at (v (rds x)) ?k) @ [(sid, ?b)]))) (v (rds x))"
      "int (length (stream_at (v (rds x)) ?k)) < ?n \<longrightarrow> m = 0" by blast
  from obeys_okD [OF doc_rPublish [OF doc] ann] have "v s2 = (v s1)\<lparr>published := published (v s1) @ [(topicChannelPrefix @ t, ?p)]\<rparr>"
    by (simp add: doc_Publish_def)
  with m x' show ?thesis by (intro conjI exI [of _ m]) (simp_all add: stream_at_def)
qed

lemma dispatch_topic: "bus_dispatch env (topicChannelPrefix @ t) pl x = handleTopic env t pl x"
  by (simp add: bus_dispatch_def HasPrefix_append)

lemma PublishTopic_succeeds:
  assumes doc: "documented False R v" and pub: "be_pub env = Some R" and rc: "fst (judge (judging (be_cfg env)) t d) = Inr rc"
    and ready: "stream_ready (v (rds x)) (streamKeyPrefix @ t)"
  shows "\<exists>sid x'. PublishTopic env t d rt x = (Inr sid, x')"
proof -
  let ?k = "streamKeyPrefix @ t" and ?n = "StreamMaxLength (be_cfg env)" and ?b = "Json (marshal_raw d)"
  obtain label where j: "judge (judging (be_cfg env)) t d = (Inr rc, label)" using rc by (cases "judge (judging (be_cfg env)) t d") auto
  obtain r s1 where a: "rXAdd R ?k ?n ?b (rds x) = (r, s1)" by fastforce
  from obeys_sureD [OF doc_rXAdd [OF doc, of ?k ?n ?b], of "rds x"] a ready obtain sid where sid: "r = Inr sid"
    by (auto simp: doc_XAdd_def typed_def stream_ready_def)
  have "fst (rPublish R ch m s) = Inr ()" for ch m s
    using obeys_sureD [OF doc_rPublish [OF doc, of ch m], of s] by (simp add: doc_Publish_def)
  with a sid pub show ?thesis
    by (auto simp: PublishTopic_def j Let_def split: option.splits prod.splits sum.splits) (metis fst_conv sum.distinct(1))+
qed

lemma announcement_fanout:
  assumes doc: "documented net R v" and pub: "be_pub env = Some R"
    and ready: "stream_ready (v (rds x)) (streamKeyPrefix @ t)"
    and rc: "fst (judge (judging (be_cfg env)) t d) = Inr rc"
    and run: "PublishTopic env t d rt x = (Inr sid, x')"
    and msg: "last (published (v (rds x'))) = (ch, pl)"
    and inv: "bus_inv (bus y)" and subs: "be_subs env' = hub_subscribers marshal"
  shows "heap (world (bus_dispatch env' ch pl y)) c =
    (if c \<in> set (topic_subs (bus y) t) \<and> \<not> is_buffering (bus y) c t
        \<and> (case rc of None \<Rightarrow> True | Some ids \<Rightarrow> conn_id (heap (world y) c) \<in> set ids)
     then Send (marshal (EncodePublish t (Some (marshal_raw d)) sid False)) (heap (world y) c)
     else heap (world y) c)"
proof -
  let ?p = "\<lparr>wp_StreamID = sid, wp_Data = d, wp_ReportTo = rt, wp_Recipients = rc\<rparr>"
  from PublishTopic_effect [OF doc pub ready rc run] msg
  have "ch = topicChannelPrefix @ t" "pl = marshal_wireTopic ?p" by auto
  with handleTopic_fanout [OF inv subs wireTopic_roundtrip [of ?p], of t c]
  show ?thesis by (simp add: dispatch_topic)
qed

text \<open>
  A publish across instances (C2). When \<^verbatim>\<open>PublishTopic\<close> succeeds, the last message it put on the
  pub/sub channel makes any instance send the frame to exactly those of its subscribers of the
  topic that are not in the middle of a replay and, if a judge decided, whose ID the judge
  chose; no other connection of that instance changes.
\<close>

theorem publish_delivers:
  assumes doc: "documented net R v" and pub: "be_pub env = Some R"
    and ready: "stream_ready (v (rds x)) (streamKeyPrefix @ t)"
    and rc: "fst (judge (judging (be_cfg env)) t d) = Inr rc"
    and run: "PublishTopic env t d rt x = (Inr sid, x')"
    and msg: "last (published (v (rds x'))) = (ch, pl)"
    and inv: "bus_inv (bus y)" and subs: "be_subs env' = hub_subscribers marshal"
  shows "heap (world (bus_dispatch env' ch pl y)) c =
    (if c \<in> set (topic_subs (bus y) t) \<and> \<not> is_buffering (bus y) c t
        \<and> (case rc of None \<Rightarrow> True | Some ids \<Rightarrow> conn_id (heap (world y) c) \<in> set ids)
     then Send (marshal (EncodePublish t (Some (marshal_raw d)) sid False)) (heap (world y) c)
     else heap (world y) c)"
  using assms by (rule announcement_fanout)

lemmas publish_eval = PublishTopic_def judge_def ref_redis_def ref_typed_def ref_put_def ref_view_def stream_key_def
  stream_at_def next_ms_def prefix_defs

theorem publish_delivers_witness:
  "let x' = snd (PublishTopic demo_env ''t'' (Some JNull) [] demo_inst);
       (ch, pl) = last (published (ref_view (rds x')))
   in sendCh (heap (world (bus_dispatch demo_env ch pl demo_sub_inst)) 4) = [text_frame ''x'']"
proof -
  let ?r = "PublishTopic demo_env ''t'' (Some JNull) [] demo_inst"
  let ?m = "last (published (ref_view (rds (snd ?r))))"
  have run: "?r = (Inr (stream_id 1 0), snd ?r)"
    by (simp add: publish_eval demo_env_def demo_inst_def demo_cfg_bus_def Let_def)
  have pub: "be_pub demo_env = Some ref_redis" and subs: "be_subs demo_env = hub_subscribers tiny"
    and rc: "fst (judge (judging (be_cfg demo_env)) ''t'' (Some JNull)) = Inr None"
    by (simp_all add: demo_env_def demo_cfg_bus_def judge_def)
  have ready: "stream_ready (ref_view (rds demo_inst)) (streamKeyPrefix @ ''t'')"
    by (simp add: stream_ready_def demo_inst_def ref_view_def stream_key_def stream_at_def)
  have "\<not> is_buffering (bus demo_sub_inst) 4 ''t''" "4 \<in> set (topic_subs (bus demo_sub_inst) ''t'')"
    by (simp_all add: bus_eval is_buffering_def)
  moreover have "sendCh (Send ''x'' (heap (world demo_sub_inst) 4)) = [text_frame ''x'']"
    by (simp add: demo_sub_inst_def demo_inst_def demo_world_def conn_eval)
  ultimately show ?thesis
    using publish_delivers [OF ref_redis_documented pub ready rc run, of "fst ?m" "snd ?m" demo_sub_inst demo_env tiny 4]
      demo_sub_inv subs by (simp add: tiny_def case_prod_beta Let_def)
qed

section \<open>Deliveries a judge decides\<close>

text \<open>Whether a subscriber is to get a message, read off the embedder's answers.\<close>

definition judge_wants :: "judge_cfg \<Rightarrow> string \<Rightarrow> raw \<Rightarrow> string \<Rightarrow> bool" where
  "judge_wants cfg t d i \<longleftrightarrow>
     (case (Judge cfg, Candidates cfg) of
        (Some jdg, Some source) \<Rightarrow>
          (let n = (if JudgeTimeout cfg \<le> 0 then DefaultJudgeTimeout else JudgeTimeout cfg) in
           case source n t of
             Inl e \<Rightarrow> JudgeFailurePolicy cfg = DeliverAll
           | Inr cs \<Rightarrow> cs = [] \<or>
               (case jdg n \<lparr>msg_Topic = t, msg_Data = d\<rparr> cs of
                  Inl e \<Rightarrow> JudgeFailurePolicy cfg = DeliverAll
                | Inr ds \<Rightarrow> (\<exists>dc \<in> set ds. dec_ID dc = i \<and> Deliver dc)))
      | _ \<Rightarrow> True)"

text \<open>The judge decides only on candidates of the topic, and on each at most once.\<close>

definition judge_answers :: "judge_cfg \<Rightarrow> string \<Rightarrow> raw \<Rightarrow> bool" where
  "judge_answers cfg t d \<longleftrightarrow>
     (\<forall>jdg source n cs ds. Judge cfg = Some jdg \<and> Candidates cfg = Some source \<and> source n t = Inr cs
        \<and> jdg n \<lparr>msg_Topic = t, msg_Data = d\<rparr> cs = Inr ds \<longrightarrow>
        dec_ID ` set ds \<subseteq> cand_ID ` set cs \<and> distinct (map dec_ID ds))"

lemma judge_chooses:
  assumes "judge_answers cfg t d"
  shows "\<exists>rc. fst (judge cfg t d) = Inr rc \<and>
    (\<forall>i. (case rc of None \<Rightarrow> True | Some ids \<Rightarrow> i \<in> set ids) = judge_wants cfg t d i)"
proof (cases "\<exists>jdg source. Judge cfg = Some jdg \<and> Candidates cfg = Some source")
  case False
  then have "fst (judge cfg t d) = Inr None" "judge_wants cfg t d i" for i
    by (auto simp: judge_def judge_wants_def split: option.splits)
  then show ?thesis by auto
next
  case True
  then obtain jdg source where cfg: "Judge cfg = Some jdg" "Candidates cfg = Some source" by blast
  define n where "n = (if JudgeTimeout cfg \<le> 0 then DefaultJudgeTimeout else JudgeTimeout cfg)"
  have answer: "resolve cs ds = Inr (map dec_ID (filter Deliver ds))"
    if "source n t = Inr cs" "jdg n \<lparr>msg_Topic = t, msg_Data = d\<rparr> cs = Inr ds" for cs ds
    using that assms cfg unfolding resolve_spec judge_answers_def by blast
  note eval = judge_def judge_wants_def judgeOnce_def Let_def cfg n_def [symmetric]
  show ?thesis
  proof (cases "source n t")
    case (Inl e)
    then show ?thesis by (cases "JudgeFailurePolicy cfg") (simp_all add: eval)
  next
    case (Inr cs)
    show ?thesis
    proof (cases "cs = []")
      case True
      with Inr show ?thesis by (simp add: eval)
    next
      case False
      show ?thesis
      proof (cases "jdg n \<lparr>msg_Topic = t, msg_Data = d\<rparr> cs")
        case (Inl e)
        with Inr False show ?thesis by (cases "JudgeFailurePolicy cfg") (simp_all add: eval)
      next
        case (Inr ds)
        with \<open>source n t = Inr cs\<close> False answer [OF \<open>source n t = Inr cs\<close> Inr] show ?thesis by (auto simp: eval)
      qed
    qed
  qed
qed

text \<open>
  Judged deliveries (C29). Let the judge decide only on candidates it was asked about, and on each at
  most once. Then a judge never makes a publish fail, and any instance that gets the announcement
  sends the frame to exactly those live subscribers the judge said yes to. A topic without
  candidates is delivered to all its subscribers, and when the candidates cannot be listed or the
  judge fails or times out, the message goes to all of them under \<^verbatim>\<open>DeliverAll\<close> and to nobody under
  \<^verbatim>\<open>DeliverNone\<close>. A subscriber in the middle of a replay is not sent the frame as live.
\<close>

theorem judged_delivery:
  assumes doc: "documented False R v" and pub: "be_pub env = Some R"
    and ready: "stream_ready (v (rds x)) (streamKeyPrefix @ t)"
    and judge: "judge_answers (judging (be_cfg env)) t d"
    and inv: "bus_inv (bus y)" and subs: "be_subs env' = hub_subscribers marshal"
  shows "\<exists>sid x' ch pl. PublishTopic env t d rt x = (Inr sid, x') \<and> last (published (v (rds x'))) = (ch, pl) \<and>
    (\<forall>c. heap (world (bus_dispatch env' ch pl y)) c =
      (if c \<in> set (topic_subs (bus y) t) \<and> \<not> is_buffering (bus y) c t
          \<and> judge_wants (judging (be_cfg env)) t d (conn_id (heap (world y) c))
       then Send (marshal (EncodePublish t (Some (marshal_raw d)) sid False)) (heap (world y) c)
       else heap (world y) c))"
proof -
  from judge_chooses [OF judge] obtain rc where rc: "fst (judge (judging (be_cfg env)) t d) = Inr rc"
    and wants: "\<And>i. (case rc of None \<Rightarrow> True | Some ids \<Rightarrow> i \<in> set ids) = judge_wants (judging (be_cfg env)) t d i" by blast
  from PublishTopic_succeeds [OF doc pub rc ready] obtain sid x' where run: "PublishTopic env t d rt x = (Inr sid, x')" by blast
  obtain ch pl where msg: "last (published (v (rds x'))) = (ch, pl)" by fastforce
  from announcement_fanout [OF doc pub ready rc run msg inv subs] show ?thesis unfolding wants using run msg by blast
qed

text \<open>One candidate is chosen, one is not, and a judge that fails under each policy.\<close>

definition choosy :: "bool \<Rightarrow> FailurePolicy \<Rightarrow> judge_cfg" where
  "choosy up p = \<lparr>Judge = Some (\<lambda>n m cs. if up then Inr (map (\<lambda>c. \<lparr>dec_ID = cand_ID c, Deliver = (cand_ID c = ''3'')\<rparr>) cs) else Inl DeadlineExceeded),
     Candidates = Some (\<lambda>n t. Inr [\<lparr>cand_ID = ''3'', Criteria = []\<rparr>, \<lparr>cand_ID = ''4'', Criteria = []\<rparr>]),
     JudgeTimeout = 0, JudgeFailurePolicy = p\<rparr>"

theorem judged_delivery_witness:
  "\<exists>sid x' ch pl. PublishTopic (demo_env\<lparr>be_cfg := demo_cfg_bus\<lparr>judging := choosy True DeliverNone\<rparr>\<rparr>) ''t'' None [] demo_inst = (Inr sid, x')
     \<and> sendCh (heap (world (bus_dispatch demo_env ch pl demo_sub_inst)) 3) = [text_frame ''x'']
     \<and> sendCh (heap (world (bus_dispatch demo_env ch pl demo_sub_inst)) 4) = []"
proof -
  let ?env = "demo_env\<lparr>be_cfg := demo_cfg_bus\<lparr>judging := choosy True DeliverNone\<rparr>\<rparr>"
  have pub: "be_pub ?env = Some ref_redis" and subs: "be_subs demo_env = hub_subscribers tiny"
    and j: "judging (be_cfg ?env) = choosy True DeliverNone" by (simp_all add: demo_env_def)
  have ready: "stream_ready (ref_view (rds demo_inst)) (streamKeyPrefix @ ''t'')"
    by (simp add: stream_ready_def demo_inst_def ref_view_def stream_key_def stream_at_def)
  have ans: "judge_answers (judging (be_cfg ?env)) ''t'' None" unfolding j by (auto simp: judge_answers_def choosy_def)
  have wants: "judge_wants (judging (be_cfg ?env)) ''t'' None i \<longleftrightarrow> i = ''3''" for i
    unfolding j by (auto simp: judge_wants_def choosy_def Let_def)
  have ids: "conn_id (heap demo_world 3) = ''3''" "conn_id (heap demo_world 4) \<noteq> ''3''"
    by (simp_all add: demo_world_def NewConn_def demo_cfg_def FormatUint.simps digit_char_eval)
  have ts: "topic_subs (bus demo_sub_inst) ''t'' = [4, 3]" and nb: "\<not> is_buffering (bus demo_sub_inst) c ''t''" for c
    by (simp_all add: bus_eval is_buffering_def)
  have w: "world demo_sub_inst = demo_world" by (simp add: demo_sub_inst_def demo_inst_def)
  have q: "sendCh (Send ''x'' (heap demo_world 3)) = [text_frame ''x'']" "sendCh (heap demo_world 4) = []"
    by (simp_all add: demo_world_def conn_eval)
  from judged_delivery [OF ref_redis_documented pub ready ans demo_sub_inv subs, of "[]"] obtain sid x' ch pl
    where run: "PublishTopic ?env ''t'' None [] demo_inst = (Inr sid, x')"
      and fan: "\<And>c. heap (world (bus_dispatch demo_env ch pl demo_sub_inst)) c =
        (if c \<in> set [4, 3] \<and> conn_id (heap demo_world c) = ''3''
         then Send (tiny (EncodePublish ''t'' (Some (marshal_raw None)) sid False)) (heap demo_world c) else heap demo_world c)"
    unfolding wants ts w using nb by metis
  have "sendCh (heap (world (bus_dispatch demo_env ch pl demo_sub_inst)) 3) = [text_frame ''x'']"
    "sendCh (heap (world (bus_dispatch demo_env ch pl demo_sub_inst)) 4) = []"
    unfolding fan using ids q by (simp_all add: tiny_def)
  with run show ?thesis by blast
qed

section \<open>Delivery reports\<close>

lemma sendReport_published:
  assumes "documented False R v" and "be_pub env = Some R"
  shows "published (v (sendReport env t p dl dr fl s)) = published (v s) @
    [(reportChannelPrefix @ wp_ReportTo p, marshal_wireReport \<lparr>wr_Topic = t, wr_StreamID = wp_StreamID p,
       wr_Delivered = int dl, wr_Dropped = int dr, wr_Filtered = int fl, wr_Instance = InstanceID (be_cfg env)\<rparr>)]"
  using obeys_sureD [OF doc_rPublish [OF assms(1)], of "reportChannelPrefix @ wp_ReportTo p"
      "marshal_wireReport \<lparr>wr_Topic = t, wr_StreamID = wp_StreamID p, wr_Delivered = int dl, wr_Dropped = int dr,
        wr_Filtered = int fl, wr_Instance = InstanceID (be_cfg env)\<rparr>" s] assms(2)
  by (simp add: sendReport_def doc_Publish_def)

text \<open>
  Honest delivery reports. When a publish asked for a report, an instance that sends the frame to
  at least one subscriber publishes one report to the asking connection: \<^verbatim>\<open>delivered\<close> is the
  number of chosen connections that accept the frame, \<^verbatim>\<open>dropped\<close> the number that refuse it and
  \<^verbatim>\<open>filtered\<close> the number of live subscribers the recipient list left out. An instance that sends
  it to nobody publishes no report at all, also when it filtered everybody out.
\<close>

theorem delivery_report:
  assumes doc: "documented False R v" and pub: "be_pub env = Some R"
    and inv: "bus_inv (bus x)" and subs: "be_subs env = hub_subscribers marshal"
    and pl: "unmarshal_wireTopic pl = Some p" and rt: "wp_ReportTo p \<noteq> []"
  shows "let cs = chosen (be_subs env) x t p; msg = marshal (EncodePublish t (wp_Data p) (wp_StreamID p) False);
      ok = (\<lambda>c. fst (SendReporting msg (heap (world x) c))) in
    published (v (rds (handleTopic env t pl x))) = published (v (rds x)) @
      (if cs = [] then []
       else [(reportChannelPrefix @ wp_ReportTo p, marshal_wireReport
         \<lparr>wr_Topic = t, wr_StreamID = wp_StreamID p, wr_Delivered = int (length (filter ok cs)),
          wr_Dropped = int (length (filter (\<lambda>c. \<not> ok c) cs)),
          wr_Filtered = int (length (filter (\<lambda>c. \<not> is_buffering (bus x) c t
             \<and> \<not> allowedSubscriber (be_subs env) (world x) (wp_Recipients p) c) (topic_subs (bus x) t))),
          wr_Instance = InstanceID (be_cfg env)\<rparr>)])"
proof -
  let ?S = "hub_subscribers marshal"
  let ?cs = "chosen ?S x t p" and ?fr = "EncodePublish t (wp_Data p) (wp_StreamID p) False"
  have dis: "distinct ?cs" using bus_inv_subs [OF inv] by (simp add: chosen_def)
  have "\<forall>c \<in> set ?cs. sub_SendReporting ?S c \<noteq> None" by (simp add: hub_subscribers_def)
  note counts = hub_subs.deliver_loop_counts [OF dis rt this, of ?fr 0 0 "world x"]
  obtain de dr w1 where run: "deliver_loop ?S (wp_ReportTo p) ?fr ?cs 0 0 (world x) = (de, dr, w1)"
    by (metis prod_cases3)
  have cs: "filter (\<lambda>c. \<not> is_buffering (bus x) c t \<and> allowedSubscriber ?S (world x) (wp_Recipients p) c)
      (topic_subs (bus x) t) = ?cs" by (simp add: chosen_def)
  show ?thesis
    using pl rt counts
    by (simp add: handleTopic_def decide_fanout_closed subs cs Let_def run sendReport_published [OF doc pub])
qed

theorem delivery_report_witness:
  "let p = demo_payload\<lparr>wp_ReportTo := ''c9''\<rparr> in
   published (ref_view (rds (handleTopic demo_env ''t'' (marshal_wireTopic p) demo_sub_inst)))
     = [(''ws:report:c9'', marshal_wireReport \<lparr>wr_Topic = ''t'', wr_StreamID = ''1-0'', wr_Delivered = 1,
          wr_Dropped = 0, wr_Filtered = 1, wr_Instance = ''i1''\<rparr>)]"
proof -
  let ?p = "demo_payload\<lparr>wp_ReportTo := ''c9''\<rparr>"
  have pub: "be_pub demo_env = Some ref_redis" and subs: "be_subs demo_env = hub_subscribers tiny"
    and inst: "InstanceID (be_cfg demo_env) = ''i1''"
    by (simp_all add: demo_env_def demo_cfg_bus_def)
  have ids: "conn_id (heap demo_world 3) = ''3''" "conn_id (heap demo_world 4) \<noteq> ''3''"
    by (simp_all add: demo_world_def NewConn_def demo_cfg_def FormatUint.simps digit_char_eval)
  have ts: "topic_subs (bus demo_sub_inst) ''t'' = [4, 3]" and nb: "\<not> is_buffering (bus demo_sub_inst) c ''t''" for c
    by (simp_all add: bus_eval is_buffering_def)
  have w: "world demo_sub_inst = demo_world" and none: "published (ref_view (rds demo_sub_inst)) = []"
    by (simp_all add: demo_sub_inst_def demo_inst_def ref_view_def)
  have acc: "fst (SendReporting ''x'' (heap demo_world 3))" by (simp add: demo_world_def conn_eval)
  have all: "allowedSubscriber (hub_subscribers tiny) demo_world (Some [''3'']) c \<longleftrightarrow> conn_id (heap demo_world c) = ''3''" for c
    by (simp add: allowedSubscriber_def hub_subscribers_def)
  have cs: "chosen (hub_subscribers tiny) demo_sub_inst ''t''
      \<lparr>wp_StreamID = ''1-0'', wp_Data = d, wp_ReportTo = ''c9'', wp_Recipients = Some [''3'']\<rparr> = [3]" for d
    using ids by (simp add: chosen_def ts nb w all)
  show ?thesis
    using delivery_report [OF ref_redis_documented pub demo_sub_inv subs wireTopic_roundtrip [of ?p], of "''t''"] ids
    by (simp add: cs subs ts nb w none inst all acc tiny_def demo_payload_def prefix_defs Let_def)
qed

section \<open>Replay\<close>

text \<open>A cursor as \<^verbatim>\<open>parseSinceCursor\<close> gives it for a time that is not before 1970.\<close>

lemma digits_ParseInt_nonneg: "allDigitsPattern s \<Longrightarrow> 0 \<le> fst (ParseInt s)"
  by (cases s) (auto simp: allDigitsPattern_def ParseInt_def Let_def max_int64_def split: prod.splits)

lemma streamIDPattern_split:
  assumes "streamIDPattern i"
  obtains a b where "i = a @ CHR ''-'' # b" and "allDigitsPattern a" and "allDigitsPattern b"
    and "CHR ''-'' \<notin> set a" and "IndexByte i (CHR ''-'') = int (length a)" and "a \<noteq> []"
    and "splitStreamID i = (fst (ParseInt a), fst (ParseInt b))"
proof -
  have mem: "CHR ''-'' \<in> set i" using assms by (rule contrapos_pp) (simp add: streamIDPattern_def Cut_miss)
  then obtain a b where ab: "i = a @ CHR ''-'' # b" "CHR ''-'' \<notin> set a" by (meson split_list_first)
  with assms have "allDigitsPattern a" "allDigitsPattern b" by (simp_all add: streamIDPattern_def Cut_hit)
  moreover from this have "a \<noteq> []" by (simp add: allDigitsPattern_def)
  moreover have "splitStreamID i = (fst (ParseInt a), fst (ParseInt b))"
    using ab by (simp add: Cut_splitStreamID Cut_hit)
  ultimately show ?thesis using that ab by (simp add: IndexByte_append_hit)
qed

lemma not_dash_digits: "allDigitsPattern a \<Longrightarrow> IndexByte a (CHR ''-'') < 0"
  by (auto simp: IndexByte_neg_iff allDigitsPattern_def list_all_iff)

lemma splitStreamID_digits: "allDigitsPattern a \<Longrightarrow> splitStreamID a = (fst (ParseInt a), 0)"
  using not_dash_digits [of a] by (simp add: splitStreamID_def)

text \<open>The entries of a stream after a position, as messages.\<close>

definition entries_after :: "(string \<times> blob) list \<Rightarrow> string \<Rightarrow> bufferedMsg list" where
  "entries_after es since = map (\<lambda>e. \<lparr>bm_streamID = fst e, bm_data = entry_data (snd e)\<rparr>)
     (filter (\<lambda>e. pos_less (splitStreamID since) (splitStreamID (fst e))) es)"

lemma range_then_filter:
  assumes "since = a @ CHR ''-'' # b" and "allDigitsPattern a" and "allDigitsPattern b" and "CHR ''-'' \<notin> set a"
  shows "filter (\<lambda>e. \<not> compareStreamIDs (fst e) since \<le> 0) (filter (\<lambda>e. compareStreamIDs a (fst e) \<le> 0) es)
    = filter (\<lambda>e. pos_less (splitStreamID since) (splitStreamID (fst e))) es"
proof -
  have sp: "splitStreamID since = (fst (ParseInt a), fst (ParseInt b))"
    using assms by (simp add: Cut_splitStreamID Cut_hit)
  have "(compareStreamIDs a (fst e) \<le> 0 \<and> \<not> compareStreamIDs (fst e) since \<le> 0)
      \<longleftrightarrow> pos_less (splitStreamID since) (splitStreamID (fst e))" for e
    using digits_ParseInt_nonneg [OF assms(3)]
    by (auto simp: compareStreamIDs_le_iff sp splitStreamID_digits [OF assms(2)] pos_less_def)
  then show ?thesis unfolding filter_filter by (intro filter_cong refl) blast
qed

lemma replayMessages_spec:
  assumes doc: "documented False R v" and key: "stream_key (v s) (streamKeyPrefix @ t)" and since: "streamIDPattern since"
  shows "let es = stream_at (v s) (streamKeyPrefix @ t);
      tr = (0 < fst (splitStreamID since) \<and> es \<noteq> [] \<and> compareStreamIDs since (fst (hd es)) < 0) in
    fst (replayMessages R t since s) = Inr (entries_after es since, tr, if tr then fst (hd es) else [])
    \<and> v (snd (replayMessages R t since s)) = v s"
proof -
  let ?k = "streamKeyPrefix @ t"
  define es where "es = stream_at (v s) ?k"
  from since obtain a b where ab: "since = a @ CHR ''-'' # b" "allDigitsPattern a" "a \<noteq> []"
    "IndexByte since (CHR ''-'') = int (length a)" "allDigitsPattern b" "CHR ''-'' \<notin> set a" "splitStreamID since = (fst (ParseInt a), fst (ParseInt b))"
    by (rule streamIDPattern_split)
  then have ms: "(if 0 < IndexByte since (CHR ''-'') then take (nat (IndexByte since (CHR ''-''))) since else since) = a"
    by simp
  obtain r1 s1 where x: "rXRange R ?k a s = (r1, s1)" by fastforce
  have r1: "r1 = Inr (filter (\<lambda>e. compareStreamIDs a (fst e) \<le> 0) es)" "v s1 = v s"
    using obeys_sureD [OF doc_rXRange [OF doc, of ?k a], of s] x key ab(2)
    by (simp_all add: doc_XRange_def typed_def valid_range_start_def es_def)
  obtain r2 s2 where f: "rXFirst R ?k s1 = (r2, s2)" by fastforce
  have r2: "r2 = Inr (take 1 es)" "v s2 = v s"
    using obeys_sureD [OF doc_rXFirst [OF doc, of ?k], of s1] f key r1(2)
    by (simp_all add: doc_XFirst_def typed_def es_def)
  define out where "out = filter (\<lambda>e. compareStreamIDs a (fst e) \<le> 0) es"
  have flt: "filter (\<lambda>e. \<not> compareStreamIDs (fst e) since \<le> 0) out
    = filter (\<lambda>e. pos_less (splitStreamID since) (splitStreamID (fst e))) es"
    unfolding out_def by (rule range_then_filter [OF ab(1,2,5,6)])
  have tk: "take (Suc 0) es = (if es = [] then [] else [hd es])" by (cases es) simp_all
  show ?thesis
    unfolding es_def [symmetric]
    by (simp add: replayMessages_def ms x r1(1) [folded out_def] r1(2) f r2 flt entries_after_def ab(7) Let_def tk)
qed

lemma swr_replay_world: "snd (swr_replay S c t ms (b, w)) = fold (send_msg S c t True) ms w"
  by (induction ms arbitrary: b w) auto

lemma swr_replay_map:
  "map_of (replay (fst (swr_replay S c t ms (b, w)))) = (map_of (replay b))((c, t) :=
     map_option (\<lambda>rs. rs\<lparr>seen := rev (map bm_streamID ms) @ seen rs\<rparr>) (map_of (replay b) (c, t)))"
  by (induction ms arbitrary: b w)
    (auto simp: swr_mark_def update_replay_map fun_eq_iff option.map_comp comp_def option.map_id [unfolded id_def])

lemma swr_replay_subs: "topic_subs (fst (swr_replay S c t ms (b, w))) u = topic_subs b u"
  by (induction ms arbitrary: b w) (auto simp: swr_mark_def)

context subscribers
begin

lemma send_msgs_state:
  "st (fold (send_msg S c t rp) ms w) d =
     (if d = c then fold (\<lambda>m. receive (EncodePublish t (bm_data m) (bm_streamID m) rp)) ms (st w c) else st w d)"
proof -
  have "fold (send_msg S c t rp) ms w
      = fold (sub_Send S c) (map (\<lambda>m. EncodePublish t (bm_data m) (bm_streamID m) rp) ms) w"
    by (induction ms arbitrary: w) (auto simp: send_msg_def)
  moreover have "fold receive (map (\<lambda>m. EncodePublish t (bm_data m) (bm_streamID m) rp) ms) q
      = fold (\<lambda>m. receive (EncodePublish t (bm_data m) (bm_streamID m) rp)) ms q" for q
    by (induction ms arbitrary: q) auto
  ultimately show ?thesis by (simp add: send_frames_state)
qed

end

lemma topic_subs_register: "c \<in> set (topic_subs (swr_register c t b) t)"
  using topic_subs_addLocal [of t c b t] by (simp add: swr_register_def Let_def topic_subs_def split: if_splits)

lemma map_replay_register:
  "map_of (replay (swr_register c t b)) = (map_of (replay b))((c, t) \<mapsto> \<lparr>buffering = True, seen = [], buf = []\<rparr>)"
  by (simp add: swr_register_def Let_def update_conv')

lemma topic_subs_counters [simp]:
  "topic_subs (b\<lparr>ReplayMessages := a, ReplayTruncated := d\<rparr>) t = topic_subs b t"
  "topic_subs (b\<lparr>replay := r\<rparr>) t = topic_subs b t"
  by (simp_all add: topic_subs_def)

lemma SubscribeWithReplay_effect:
  assumes doc: "documented False R v" and pub: "be_pub env = Some R" and subs: "be_subs env = hub_subscribers marshal"
    and key: "stream_key (v (rds x)) (streamKeyPrefix @ t)"
    and cur: "parseSinceCursor timeParse since = Inr cursor" and pat: "streamIDPattern cursor"
    and run: "SubscribeWithReplay timeParse env c t since x = (r, x')"
  shows "let es = stream_at (v (rds x)) (streamKeyPrefix @ t);
      tr = (0 < fst (splitStreamID cursor) \<and> es \<noteq> [] \<and> compareStreamIDs cursor (fst (hd es)) < 0) in
    r = Inr (tr, if tr then fst (hd es) else [])
    \<and> heap (world x') c = fold (\<lambda>m. Send (marshal (EncodePublish t (bm_data m) (bm_streamID m) True)))
        (entries_after es cursor) (heap (world x) c)
    \<and> (\<forall>d. d \<noteq> c \<longrightarrow> heap (world x') d = heap (world x) d)
    \<and> c \<in> set (topic_subs (bus x') t) \<and> map_of (replay (bus x')) (c, t) = None"
proof -
  define es where "es = stream_at (v (rds x)) (streamKeyPrefix @ t)"
  define tr where "tr = (0 < fst (splitStreamID cursor) \<and> es \<noteq> [] \<and> compareStreamIDs cursor (fst (hd es)) < 0)"
  define ms where "ms = entries_after es cursor"
  obtain s1 where rm: "replayMessages R t cursor (rds x) = (Inr (ms, tr, if tr then fst (hd es) else []), s1)"
    using replayMessages_spec [OF doc key pat] unfolding Let_def es_def [symmetric] tr_def [symmetric] ms_def [symmetric]
    by (metis prod.collapse)
  let ?S = "hub_subscribers marshal" and ?b1 = "swr_register c t (bus x)"
  let ?b2 = "?b1\<lparr>ReplayMessages := ReplayMessages ?b1 + length ms, ReplayTruncated := ReplayTruncated ?b1 + (if tr then 1 else 0)\<rparr>"
  obtain b3 w3 where sr: "swr_replay ?S c t ms (?b2, world x) = (b3, w3)" by fastforce
  have w3: "w3 = fold (send_msg ?S c t True) ms (world x)" using swr_replay_world [of ?S c t ms ?b2 "world x"] sr by simp
  have b3: "map_of (replay b3) (c, t) = Some \<lparr>buffering = True, seen = rev (map bm_streamID ms), buf = []\<rparr>"
    using swr_replay_map [of ?S c t ms ?b2 "world x"] sr by (simp add: map_replay_register)
  have sub3: "c \<in> set (topic_subs b3 t)"
    using swr_replay_subs [of ?S c t ms ?b2 "world x" t] sr topic_subs_register [of c t "bus x"] by simp
  have fin: "swr_finish c t b3 = ([], b3\<lparr>replay := AList.delete (c, t) (replay b3)\<rparr>)"
    by (simp add: swr_finish_def b3)
  from run have res: "r = Inr (tr, if tr then fst (hd es) else [])" and x': "world x' = w3"
    "bus x' = b3\<lparr>replay := AList.delete (c, t) (replay b3)\<rparr>"
    using cur pub subs rm sr fin by (auto simp: SubscribeWithReplay_def Let_def)
  show ?thesis
    unfolding Let_def es_def [symmetric] tr_def [symmetric] ms_def [symmetric]
    using res x' sub3 by (simp add: w3 hub_subs.send_msgs_state delete_conv')
qed

text \<open>
  Replay (C19). A subscribe with a cursor, with nothing else running, sends the subscriber exactly the
  retained messages after the cursor, in stream order and marked as replay, and touches no other
  connection. It reports truncation with the oldest retained ID exactly when the cursor is a
  time after 1970 that lies before that entry. The subscriber is then registered for live
  messages and no replay state is left.
\<close>

theorem subscribe_replays:
  assumes doc: "documented False R v" and pub: "be_pub env = Some R" and subs: "be_subs env = hub_subscribers marshal"
    and key: "stream_key (v (rds x)) (streamKeyPrefix @ t)"
    and cur: "parseSinceCursor timeParse since = Inr cursor" and pat: "streamIDPattern cursor"
    and run: "SubscribeWithReplay timeParse env c t since x = (r, x')"
  shows "let es = stream_at (v (rds x)) (streamKeyPrefix @ t);
      tr = (0 < fst (splitStreamID cursor) \<and> es \<noteq> [] \<and> compareStreamIDs cursor (fst (hd es)) < 0) in
    r = Inr (tr, if tr then fst (hd es) else [])
    \<and> heap (world x') c = fold (\<lambda>m. Send (marshal (EncodePublish t (bm_data m) (bm_streamID m) True)))
        (entries_after es cursor) (heap (world x) c)
    \<and> (\<forall>d. d \<noteq> c \<longrightarrow> heap (world x') d = heap (world x) d)
    \<and> c \<in> set (topic_subs (bus x') t) \<and> map_of (replay (bus x')) (c, t) = None"
  by (rule SubscribeWithReplay_effect [OF assms])

text \<open>An instance on a server with three messages in the history of a topic.\<close>

definition demo_history :: "(cref, hub_world, ref_state) inst" where
  "demo_history = demo_inst\<lparr>rds := \<lparr>entries = [(''topic:stream:t'', VStream
     [(''5-0'', Json (JStr ''a'')), (''5-1'', Json (JStr ''b'')), (''7-0'', Json (JStr ''c''))])], pubs = []\<rparr>\<rparr>"

lemma demo_splits: "splitStreamID ''5-0'' = (5, 0)" "splitStreamID ''5-1'' = (5, 1)" "splitStreamID ''7-0'' = (7, 0)"
  using splitStreamID_stream_id [of 5 0] splitStreamID_stream_id [of 5 1] splitStreamID_stream_id [of 7 0]
  by (simp_all add: stream_id_def FormatUint.simps digit_char_eval max_int64_def)

theorem subscribe_replays_witness:
  "let (r, x') = SubscribeWithReplay (\<lambda>_. None) demo_env 3 ''t'' ''5-0'' demo_history in
     r = Inr (False, []) \<and> sendCh (heap (world x') 3) = [text_frame ''x'', text_frame ''x'']"
proof -
  let ?run = "SubscribeWithReplay (\<lambda>_. None) demo_env 3 ''t'' ''5-0'' demo_history"
  have pub: "be_pub demo_env = Some ref_redis" and subs: "be_subs demo_env = hub_subscribers tiny"
    by (simp_all add: demo_env_def)
  have key: "stream_key (ref_view (rds demo_history)) (streamKeyPrefix @ ''t'')"
    by (simp add: demo_history_def stream_key_def prefix_defs)
  have pat: "streamIDPattern ''5-0''"
    using streamIDPattern_stream_id [of 5 0] by (simp add: stream_id_def FormatUint.simps digit_char_eval)
  then have cur: "parseSinceCursor (\<lambda>_. None) ''5-0'' = Inr ''5-0''" by (simp add: parseSinceCursor_def)
  have es: "stream_at (ref_view (rds demo_history)) (streamKeyPrefix @ ''t'')
      = [(''5-0'', Json (JStr ''a'')), (''5-1'', Json (JStr ''b'')), (''7-0'', Json (JStr ''c''))]"
    by (simp add: demo_history_def stream_at_def prefix_defs)
  have two: "sendCh (Send ''x'' (Send ''x'' (heap demo_world 3))) = [text_frame ''x'', text_frame ''x'']"
    by (simp add: demo_world_def conn_eval)
  have w: "world demo_history = demo_world" by (simp add: demo_history_def demo_inst_def)
  from subscribe_replays [OF ref_redis_documented pub subs key cur pat, of 3 "fst ?run" "snd ?run"] two
  show ?thesis
    unfolding es by (simp add: entries_after_def demo_splits pos_less_def compareStreamIDs_neg_iff tiny_def w
        case_prod_beta Let_def)
qed

section \<open>Where a judge's decision is lost\<close>

text \<open>
  The stream does not carry the decision. What a publish writes to the stream does not depend on
  the judge: two publishes that differ only in their judging configuration leave the same
  stream, so a message that the judge sent to nobody is replayed to any subscriber.
\<close>

theorem stream_forgets_decision:
  assumes doc: "documented net R v" and pub: "be_pub env = Some R"
    and env': "env' = env\<lparr>be_cfg := (be_cfg env)\<lparr>judging := j\<rparr>\<rparr>"
    and run: "PublishTopic env t d rt x = (Inr sid, x')" and run': "PublishTopic env' t d rt x = (Inr sid', x'')"
  shows "sid' = sid \<and> keyspace (v (rds x'')) = keyspace (v (rds x'))"
proof -
  let ?add = "rXAdd R (streamKeyPrefix @ t) (StreamMaxLength (be_cfg env)) (Json (marshal_raw d)) (rds x)"
  from run pub obtain s1 m u where a: "?add = (Inr sid, s1)" and p: "rPublish R (topicChannelPrefix @ t) m s1 = (Inr u, rds x')"
    by (auto simp: PublishTopic_def Let_def split: prod.splits option.splits sum.splits)
  from run' pub env' obtain s1' m' u' where a': "?add = (Inr sid', s1')"
    and p': "rPublish R (topicChannelPrefix @ t) m' s1' = (Inr u', rds x'')"
    by (auto simp: PublishTopic_def Let_def split: prod.splits option.splits sum.splits)
  from a a' have "sid' = sid \<and> s1' = s1" by simp
  with obeys_okD [OF doc_rPublish [OF doc] p] obeys_okD [OF doc_rPublish [OF doc] p'] show ?thesis
    by (simp add: doc_Publish_def)
qed

definition mute_judging :: judge_cfg where
  "mute_judging = \<lparr>Judge = Some (\<lambda>n m cs. Inr []), Candidates = Some (\<lambda>n t. Inr [\<lparr>cand_ID = ''a'', Criteria = []\<rparr>]),
     JudgeTimeout = 0, JudgeFailurePolicy = DeliverAll\<rparr>"

definition mute_env :: "(cref, hub_world, ref_state) bus_env" where
  "mute_env = demo_env\<lparr>be_cfg := (be_cfg demo_env)\<lparr>judging := mute_judging\<rparr>\<rparr>"

theorem stream_forgets_decision_witness:
  "fst (judge mute_judging ''t'' None) = Inr (Some [])
   \<and> keyspace (ref_view (rds (snd (PublishTopic mute_env ''t'' None [] demo_inst))))
     = keyspace (ref_view (rds (snd (PublishTopic demo_env ''t'' None [] demo_inst))))"
proof -
  let ?r = "PublishTopic demo_env ''t'' None [] demo_inst" and ?r' = "PublishTopic mute_env ''t'' None [] demo_inst"
  have mute: "fst (judge mute_judging ''t'' None) = Inr (Some [])"
    by (simp add: judge_def mute_judging_def judgeOnce_def resolve_def)
  have "?r = (Inr (stream_id 1 0), snd ?r)"
    by (simp add: publish_eval demo_env_def demo_inst_def demo_cfg_bus_def Let_def)
  moreover have "?r' = (Inr (stream_id 1 0), snd ?r')"
    by (simp add: publish_eval mute_env_def mute_judging_def judgeOnce_def resolve_def demo_env_def demo_inst_def
        demo_cfg_bus_def Let_def)
  moreover have "be_pub demo_env = Some ref_redis" by (simp add: demo_env_def)
  ultimately show ?thesis
    using stream_forgets_decision [OF ref_redis_documented, of demo_env mute_env mute_judging "''t''" None "[]" demo_inst
        "stream_id 1 0" "snd ?r" "stream_id 1 0" "snd ?r'"] mute by (simp add: mute_env_def)
qed

text \<open>
  A buffered message ignores the decision. A subscriber that is in the middle of a replay when an
  announcement arrives gets the message at the end of its replay even if the judge's recipient
  list leaves it out, unless the replay itself already sent it.
\<close>

theorem buffered_ignores_decision:
  assumes inv: "bus_inv (bus x)" and subs: "be_subs env = hub_subscribers marshal"
    and pl: "unmarshal_wireTopic pl = Some p" and rc: "wp_Recipients p = Some []"
    and st: "map_of (replay (bus x)) (c, t) = Some rs" and bf: "buffering rs" and new: "wp_StreamID p \<notin> set (seen rs)"
  shows "\<lparr>bm_streamID = wp_StreamID p, bm_data = wp_Data p\<rparr> \<in> set (fst (swr_finish c t (bus (handleTopic env t pl x))))"
proof -
  from inv st have "c \<in> set (topic_subs (bus x) t)" by (auto simp: bus_inv_def)
  moreover have "is_buffering (bus x) c t" using st bf by (simp add: is_buffering_def)
  ultimately show ?thesis
    using handleTopic_fanout [OF inv subs pl, of t c t] st new by (simp add: swr_finish_def)
qed

definition demo_replaying :: "(cref, hub_world, ref_state) inst" where
  "demo_replaying = demo_inst\<lparr>bus := swr_register 3 ''t'' New\<rparr>"

theorem buffered_ignores_decision_witness:
  "\<lparr>bm_streamID = ''1-0'', bm_data = Some JNull\<rparr> \<in> set (fst (swr_finish 3 ''t''
     (bus (handleTopic demo_env ''t'' (marshal_wireTopic (demo_payload\<lparr>wp_Recipients := Some []\<rparr>)) demo_replaying))))"
proof -
  let ?p = "demo_payload\<lparr>wp_Recipients := Some []\<rparr>"
  have inv: "bus_inv (bus demo_replaying)" by (simp add: demo_replaying_def swr_register_inv New_inv)
  have subs: "be_subs demo_env = hub_subscribers tiny" by (simp add: demo_env_def)
  have st: "map_of (replay (bus demo_replaying)) (3, ''t'') = Some \<lparr>buffering = True, seen = [], buf = []\<rparr>"
    by (simp add: demo_replaying_def map_replay_register)
  from buffered_ignores_decision [OF inv subs wireTopic_roundtrip [of ?p] _ st] show ?thesis
    by (simp add: demo_payload_def marshal_raw_def)
qed

section \<open>A replay that fails\<close>

lemma negative_cursor_invalid: "ms < 0 \<Longrightarrow> \<not> valid_range_start (FormatInt ms @ ''-0'')"
  by (auto simp: valid_range_start_def allDigitsPattern_def streamIDPattern_def FormatInt_def)

text \<open>
  A time before 1970. A \<^verbatim>\<open>since\<close> that parses as a time before 1970 becomes a cursor Redis
  refuses, so the subscribe ends with an error; but the subscriber stays registered for the
  topic and receives its live messages.
\<close>

theorem since_before_1970:
  assumes doc: "documented False R v" and pub: "be_pub env = Some R"
    and since: "since \<noteq> []" "\<not> streamIDPattern since" "\<not> allDigitsPattern since"
    and ms: "timeParse since = Some ms" "ms < 0"
    and run: "SubscribeWithReplay timeParse env c t since x = (r, x')"
  shows "(\<exists>e. r = Inl (Wrap ''xrange: '' e [])) \<and> c \<in> set (topic_subs (bus x') t)
    \<and> map_of (replay (bus x')) (c, t) = None"
proof -
  define cur where "cur = FormatInt ms @ ''-0''"
  have cur: "parseSinceCursor timeParse since = Inr cur"
    using since ms by (simp add: parseSinceCursor_def cur_def)
  have i: "IndexByte cur (CHR ''-'') = 0" using ms(2) by (simp add: cur_def FormatInt_def)
  obtain r1 s1 where x: "rXRange R (streamKeyPrefix @ t) cur (rds x) = (r1, s1)" by fastforce
  obtain e where "r1 = Inl e"
    using obeys_sureD [OF doc_rXRange [OF doc, of "streamKeyPrefix @ t" cur], of "rds x"] x
      negative_cursor_invalid [OF ms(2)] by (auto simp: doc_XRange_def cur_def)
  then have rm: "replayMessages R t cur (rds x) = (Inl (Wrap ''xrange: '' e []), s1)"
    using x i by (simp add: replayMessages_def)
  show ?thesis
    using run cur pub rm topic_subs_register [of c t "bus x"]
    by (auto simp: SubscribeWithReplay_def Let_def delete_conv')
qed

theorem since_before_1970_witness:
  "let (r, x') = SubscribeWithReplay (\<lambda>_. Some (-5)) demo_env 3 ''t'' ''1969-12-31T23:59:59.995Z'' demo_inst in
     3 \<in> set (topic_subs (bus x') ''t'') \<and> (\<exists>e. r = Inl e)"
proof -
  let ?since = "''1969-12-31T23:59:59.995Z''"
  let ?run = "SubscribeWithReplay (\<lambda>_. Some (-5)) demo_env 3 ''t'' ?since demo_inst"
  have "\<not> is_digit (CHR ''T'')" by (simp add: is_digit_def)
  then have "\<not> streamIDPattern ?since" "\<not> allDigitsPattern ?since"
    by (simp_all add: streamIDPattern_def allDigitsPattern_def)
  moreover have "be_pub demo_env = Some ref_redis" by (simp add: demo_env_def)
  ultimately show ?thesis
    using since_before_1970 [OF ref_redis_documented, of demo_env ?since "\<lambda>_. Some (-5)" "-5" 3 "''t''" demo_inst
        "fst ?run" "snd ?run"] by (auto simp: case_prod_beta Let_def)
qed

section \<open>Trimming\<close>

lemma trim_one:
  assumes "documented False R v"
  shows "stream_at (v (snd (rXTrimMinID R key i s))) k = (if k = key
     then filter (\<lambda>e. \<not> compareStreamIDs (fst e) i < 0) (stream_at (v s) k) else stream_at (v s) k)"
  using obeys_sureD [OF doc_rXTrimMinID [OF assms, of key i], of s]
  by (auto simp: doc_XTrimMinID_def typed_def stream_at_def stream_key_def split: if_splits option.splits rval.splits)

lemma trim_each_streams:
  assumes doc: "documented False R v"
  shows "stream_at (v (trim_each R i keys s)) k = (if k \<in> set keys
     then filter (\<lambda>e. \<not> compareStreamIDs (fst e) i < 0) (stream_at (v s) k) else stream_at (v s) k)"
  by (induction keys arbitrary: s) (auto simp: trim_one [OF doc])

lemma stream_at_absent: "keyspace d k = None \<Longrightarrow> stream_at d k = []"
  by (simp add: stream_at_def)

text \<open>A pass removes from every topic's stream exactly the entries older than the time to live.\<close>

lemma trim_pass:
  assumes doc: "documented False R v"
  shows "stream_at (v (trimAllStreams R ttl now s)) k =
    (if HasPrefix k streamKeyPrefix
     then filter (\<lambda>e. \<not> pos_less (splitStreamID (fst e)) (splitStreamID (FormatInt (now - ttl) @ ''-0''))) (stream_at (v s) k)
     else stream_at (v s) k)"
proof -
  obtain keys err s1 where sc: "rScan R streamKeyPrefix s = ((keys, err), s1)" by (metis surj_pair)
  from obeys_sureD [OF doc_rScan [OF doc, of streamKeyPrefix], of s] sc
  have keys: "set keys = {k. HasPrefix k streamKeyPrefix \<and> keyspace (v s) k \<noteq> None}" "v s1 = v s"
    by (auto simp: doc_Scan_def scan_result_def split: option.splits)
  show ?thesis
    using keys trim_each_streams [OF doc, of "FormatInt (now - ttl) @ ''-0''" keys s1 k] stream_at_absent [of "v s" k]
    by (auto simp: trimAllStreams_def sc Let_def compareStreamIDs_neg_iff)
qed

end
