(* ===== verification/DispatchProps.thy ===== *)
theory DispatchProps
  imports Dispatch BusDelivery
begin

text \<open>
  What the dispatcher promises about frames: which of them reach a handler, that a refused frame
  changes nothing, that the locks and the memberships of the store are respected by the verbs,
  and what is left of a user after the last disconnect.
\<close>

section \<open>Replies touch one connection\<close>

definition same_but_conn :: "cref \<Rightarrow> 's app \<Rightarrow> 's app \<Rightarrow> bool" where
  "same_but_conn c x x' \<longleftrightarrow> bus (core x') = bus (core x) \<and> users (world (core x')) = users (world (core x))
     \<and> (\<forall>d. d \<noteq> c \<longrightarrow> heap (world (core x')) d = heap (world (core x)) d)"

lemma reply_rds [simp]: "rds (core (reply D c j x)) = rds (core x)"
  by (simp add: reply_def Let_def)

lemma reply_bus [simp]: "bus (core (reply D c j x)) = bus (core x)"
  by (simp add: reply_def Let_def)

lemma reply_same: "same_but_conn c x (reply D c j x)"
  by (simp add: same_but_conn_def reply_def Let_def)

lemma same_trans: "same_but_conn c x y \<Longrightarrow> same_but_conn c y z \<Longrightarrow> same_but_conn c x z"
  by (simp add: same_but_conn_def)

lemma redis_do_fields [simp]:
  "bus (core (snd (redis_do cmd x))) = bus (core x)" "world (core (snd (redis_do cmd x))) = world (core x)"
  "rds (core (snd (redis_do cmd x))) = snd (cmd (rds (core x)))" "fst (redis_do cmd x) = fst (cmd (rds (core x)))"
  by (simp_all add: redis_do_def set_rds_def split: prod.splits)

lemma redis_do_eq: "redis_do cmd x = (fst (cmd (rds (core x))), set_rds (snd (cmd (rds (core x)))) x)"
  by (simp add: redis_do_def split: prod.splits)

lemma set_rds_fields [simp]:
  "bus (core (set_rds s x)) = bus (core x)" "world (core (set_rds s x)) = world (core x)" "rds (core (set_rds s x)) = s"
  by (simp_all add: set_rds_def)

lemma note_fields [simp]: "core (note_authz a b x) = core x" "core (note_rate bk al x) = core x"
  by (simp_all add: note_authz_def note_rate_def)

section \<open>Which frames reach a handler\<close>

text \<open>The verdict of the limiter on a frame.\<close>

definition limiter :: "'s deps \<Rightarrow> cref \<Rightarrow> 's app \<Rightarrow> bool result \<times> 's" where
  "limiter D c x = Allow (d_RDB D) ''msg'' (user_of x c) (MessageRateLimit D) (d_now D) (rl_seq x + 1) (rds (core x))"

lemma allow_limiter:
  "allow D ''msg'' c (MessageRateLimit D) (x\<lparr>FramesReceived := l\<rparr>) =
     (fst (limiter D c x), set_rds (snd (limiter D c x)) (x\<lparr>FramesReceived := l, rl_seq := rl_seq x + 1\<rparr>))"
  by (simp add: allow_def limiter_def redis_do_eq Let_def user_of_def the_conn_def)

definition accepted_frame :: "'s deps \<Rightarrow> cref \<Rightarrow> blob \<Rightarrow> 's app \<Rightarrow> bool" where
  "accepted_frame D c rawFrame x \<longleftrightarrow>
     (\<exists>env. unmarshal_Envelope rawFrame = Some env \<and> fst (limiter D c x) = Inr True \<and> validate_frame D env = Inr ())"

text \<open>
  Only accepted frames have an effect. A frame that is not JSON of the right shape, that the rate
  limiter refuses or fails on, or that does not validate, reaches no middleware and no handler:
  it changes nothing but what the limiter records in Redis, the counters, and the queue of the
  connection it came from.
\<close>

theorem dispatch_gate:
  assumes "\<not> accepted_frame D c rawFrame x"
  shows "same_but_conn c x (Dispatch D c rawFrame x)
    \<and> rds (core (Dispatch D c rawFrame x)) \<in> {rds (core x), snd (limiter D c x)}"
proof (cases "unmarshal_Envelope rawFrame")
  case None
  then show ?thesis using reply_same [of c "x\<lparr>FramesReceived := FramesReceived x @ [''invalid_json'']\<rparr>" D]
    by (simp add: Dispatch_def same_but_conn_def)
next
  case (Some env)
  let ?l = "FramesReceived x @ [frameTypeLabel (Type env) (d_Registry D)]"
  let ?x2 = "set_rds (snd (limiter D c x)) (x\<lparr>FramesReceived := ?l, rl_seq := rl_seq x + 1\<rparr>)"
  have base: "same_but_conn c x ?x2" "same_but_conn c x (note_rate bk al ?x2)" for bk al by (simp_all add: same_but_conn_def)
  note go = same_trans [OF base(1) reply_same] same_trans [OF base(2) reply_same]
  from assms Some have "fst (limiter D c x) \<noteq> Inr True \<or> validate_frame D env \<noteq> Inr ()" by (simp add: accepted_frame_def)
  then show ?thesis using Some go
    by (auto simp: Dispatch_def allow_limiter Let_def split: sum.splits)
qed

definition after_limiter :: "'s deps \<Rightarrow> cref \<Rightarrow> Envelope \<Rightarrow> 's app \<Rightarrow> 's app" where
  "after_limiter D c env x = note_rate ''msg'' True (set_rds (snd (limiter D c x))
     (x\<lparr>FramesReceived := FramesReceived x @ [frameTypeLabel (Type env) (d_Registry D)], rl_seq := rl_seq x + 1\<rparr>))"

lemma after_limiter_fields [simp]:
  "bus (core (after_limiter D c env x)) = bus (core x)" "world (core (after_limiter D c env x)) = world (core x)"
  "rds (core (after_limiter D c env x)) = snd (limiter D c x)"
  by (simp_all add: after_limiter_def)

lemma Dispatch_accepted:
  assumes "unmarshal_Envelope rawFrame = Some env" "fst (limiter D c x) = Inr True" "validate_frame D env = Inr ()"
  shows "Dispatch D c rawFrame x = finish D c (ReqID env)
    (Chain (route_handler D c) (d_Middleware D) (request_of D c env (after_limiter D c env x)) (after_limiter D c env x))"
  using assms by (simp add: Dispatch_def allow_limiter Let_def after_limiter_def)

lemma Dispatch_builtin:
  assumes "unmarshal_Envelope rawFrame = Some env" "fst (limiter D c x) = Inr True" "validate_frame D env = Inr ()"
    and "d_Middleware D = []" "Lookup (d_Registry D) (Type env) = None"
  shows "Dispatch D c rawFrame x = finish D c (ReqID env) (builtin D c env (after_limiter D c env x))"
  using Dispatch_accepted [OF assms(1-3)] assms(4,5)
  by (simp add: Chain_def route_handler_def request_of_def route_def)

section \<open>Authorization\<close>

text \<open>The action a verb is gated by, if it is.\<close>

definition gated :: "string \<Rightarrow> string option" where
  "gated ty =
     (if ty \<in> {TypeSubscribe, TypeAck, TypePresence} then Some ActionSubscribe
      else if ty = TypePublish then Some ActionPublish
      else if ty \<in> {TypeLockTopic, TypeUnlockTopic, TypeRenewLock} then Some ActionLock
      else None)"

lemma builtin_refused:
  assumes "gated (Type env) = Some act" and "authorize D c act (Topic env) x = (Some e, x1)"
  shows "builtin D c env x = (Inl e, x1)"
proof -
  have "Type env \<in> {TypeSubscribe, TypeAck, TypePresence, TypePublish, TypeLockTopic, TypeUnlockTopic, TypeRenewLock}"
    using assms(1) by (auto simp: gated_def split: if_splits)
  with assms show ?thesis
    by (auto simp: gated_def Type_defs builtin_def handleSubscribe_def handlePublish_def handleLockTopic_def
        handleUnlockTopic_def handleRenewLock_def handleAck_def handlePresence_def Let_def split: if_splits)
qed

text \<open>
  A refused frame has no effect (C8). When the policy refuses a frame of a gated verb (subscribing,
  publishing, acknowledging, presence and the locks), or cannot decide, the frame touches neither
  the bus nor, beyond the limiter, Redis, and the client gets an error frame: a plain refusal for
  a denial, an internal error when there was no verdict.
\<close>

theorem refused_frame:
  assumes ok: "unmarshal_Envelope rawFrame = Some env" "fst (limiter D c x) = Inr True" "validate_frame D env = Inr ()"
    and plain: "d_Middleware D = []" "Lookup (d_Registry D) (Type env) = None"
    and gate: "gated (Type env) = Some act" and az: "d_Authorizer D = Some az"
    and no: "az \<lparr>req_UserKey = user_of x c, req_Action = act, req_Topic = Topic env, req_Claims = d_claims D c\<rparr> = Some e"
  shows "\<exists>x'. Dispatch D c rawFrame x = reply D c (EncodeError (ReqID env)
        (if Denied e then ''Not authorized to '' @ act @ '' topic '' @ Topic env @ ''.'' else ''Internal error'')) x'
      \<and> bus (core x') = bus (core x) \<and> world (core x') = world (core x) \<and> rds (core x') = snd (limiter D c x)"
proof -
  let ?x3 = "after_limiter D c env x"
  define msg where "msg = (if Denied e then Err (''Not authorized to '' @ act @ '' topic '' @ Topic env @ ''.'') else Err ''Internal error'')"
  define x4 where "x4 = note_authz act (if Denied e then ''denied'' else ''error'') ?x3"
  have "authorize D c act (Topic env) ?x3 = (Some msg, x4)"
    using az no by (simp add: authorize_def msg_def x4_def user_of_def the_conn_def)
  from builtin_refused [OF gate this] Dispatch_builtin [OF ok plain]
  have "Dispatch D c rawFrame x = reply D c (EncodeError (ReqID env) (Error msg)) x4"
    by (simp add: finish_def msg_def)
  then show ?thesis by (intro exI [of _ x4]) (simp add: x4_def msg_def)
qed

definition demo_deps :: "ref_state deps" where
  "demo_deps = \<lparr>d_RDB = ref_redis, d_bus_cfg = be_cfg demo_env, d_marshal = (\<lambda>j. ''x''), d_timeParse = (\<lambda>t. None),
     d_floatInt = (\<lambda>t. None), d_time_text = ''t'', d_now = 1000, d_pick = True, d_ctxDone = False, d_write = (\<lambda>f. True),
     d_claims = (\<lambda>c. []), MessageRateLimit = \<lparr>Window = 1000, MaxRequests = 5\<rparr>, JobRateLimit = \<lparr>Window = 60000, MaxRequests = 5\<rparr>,
     OnSchedulerWake = True, d_Authorizer = Some DenyAll, d_Registry = Some [], d_Middleware = [], AckCursorTTL = 0,
     OnConnect = None, OnDisconnect = None, PresenceTopic = []\<rparr>"

definition demo_app :: "ref_state app" where
  "demo_app = \<lparr>core = demo_inst, rl_seq = 0, wakes = 0, FramesReceived = [], AuthzDecisions = [], RateLimitDecisions = []\<rparr>"

definition demo_frame :: blob where
  "demo_frame = Json (JObj [(''type'', JStr ''publish''), (''topic'', JStr ''t''), (''data'', JBool True), (''reqID'', JStr ''r1'')])"

definition demo_publish :: Envelope where
  "demo_publish = \<lparr>Type = ''publish'', Topic = ''t'', Data = Some (JBool True), JobData_of = None, JobID = [], LockType = [],
     Since = None, ReqID = ''r1'', Report = False, StreamID = [], Version_of = None\<rparr>"

lemma demo_frame_env: "unmarshal_Envelope demo_frame = Some demo_publish"
  by (simp add: unmarshal_Envelope_def demo_frame_def demo_publish_def object_fields_def ToLower_def lower_char_def Let_def dec_raw_def)

lemma demo_limiter: "fst (limiter demo_deps c demo_app) = Inr True"
  by (simp add: limiter_def demo_deps_def demo_app_def demo_inst_def Allow_def rate_script_def rate_key_def rate_member_def
      ref_redis_def ref_typed_def ref_view_def ref_put_def ref_put_zset_def zset_key_def zset_at_def)

lemma demo_valid: "validate_frame demo_deps demo_publish = Inr ()"
  by (simp add: validate_frame_def Validate_def ValidateVersion_def demo_deps_def demo_publish_def Lookup_def Type_defs)

theorem dispatch_gate_witness:
  "same_but_conn 3 demo_app (Dispatch demo_deps 3 (Text ''hello'') demo_app)"
proof -
  have "\<not> accepted_frame demo_deps 3 (Text ''hello'') demo_app"
    by (simp add: accepted_frame_def unmarshal_Envelope_def object_fields_def)
  from dispatch_gate [OF this] show ?thesis by simp
qed

theorem refused_frame_witness:
  "\<exists>x'. Dispatch demo_deps 3 demo_frame demo_app
       = reply demo_deps 3 (EncodeError ''r1'' ''Not authorized to publish topic t.'') x'
     \<and> bus (core x') = bus (core demo_app)"
proof -
  have plain: "d_Middleware demo_deps = []" "Lookup (d_Registry demo_deps) (Type demo_publish) = None"
    "d_Authorizer demo_deps = Some DenyAll" by (simp_all add: demo_deps_def Lookup_def)
  have gate: "gated (Type demo_publish) = Some ActionPublish"
    by (simp add: gated_def demo_publish_def Type_defs)
  have den: "Denied (denial r)" for r by (simp add: Denied_def denial_def)
  from refused_frame [OF demo_frame_env demo_limiter demo_valid plain(1,2) gate plain(3), of 3]
  show ?thesis by (auto simp: DenyAll_def den demo_publish_def ActionPublish_def)
qed

section \<open>Locks are respected\<close>

lemma locked_check:
  assumes doc: "documented net R v" and own: "lock_owner (v s) t k = Some h" and "h \<noteq> uk"
    and run: "IsTopicLockedByOther R t k uk s = (r, s')"
  shows "v s' = v s \<and> r \<noteq> Inr False"
proof -
  obtain r1 s1 where g: "rGet R (lockKey t k) s = (r1, s1)" by fastforce
  obtain tm where key: "keyspace (v s) (lockKey t k) = Some (VStr h tm)"
    using own str_at_SomeD by (fastforce simp: lock_owner_def)
  have "r1 = Inr h \<or> (\<exists>e. r1 = Inl e \<and> \<not> errors_Is e RedisNil)"
    using obeysD [OF doc_rGet [OF doc] g] key by (auto simp: doc_Get_def typed_def str_key_def str_at_def)
  with g run rGet_state [OF doc g] \<open>h \<noteq> uk\<close> show ?thesis by (auto simp: IsTopicLockedByOther_def)
qed

lemma authorize_core: "authorize D c act t x = (r, x1) \<Longrightarrow> core x1 = core x"
  by (auto simp: authorize_def split: option.splits if_splits)

text \<open>
  Locks keep others out (C24). While another user holds the publish lock of a topic, a publish is answered
  with an error and leaves the bus, the connections and Redis as they were: nothing enters the
  history and nothing is announced. The subscribe lock does the same for subscribes. The two
  are independent: the publish lock does not stop a subscribe, nor the subscribe lock a publish. Failures
  on the way to Redis do not open a lock.
\<close>

theorem locked_topic_refuses:
  assumes doc: "documented net (d_RDB D) v" and "h \<noteq> user_of x c"
  shows "(lock_owner (v (rds (core x))) (Topic env) LockPublish = Some h \<longrightarrow>
      (\<exists>e x'. handlePublish D c env x = (Inl e, x') \<and> bus (core x') = bus (core x) \<and> world (core x') = world (core x)
         \<and> v (rds (core x')) = v (rds (core x))))
    \<and> (lock_owner (v (rds (core x))) (Topic env) LockSubscribe = Some h \<longrightarrow>
      (\<exists>e x'. handleSubscribe D c env x = (Inl e, x') \<and> bus (core x') = bus (core x) \<and> world (core x') = world (core x)
         \<and> v (rds (core x')) = v (rds (core x))))"
proof -
  let ?t = "Topic env" and ?uk = "user_of x c"
  have check: "v (rds (core x2)) = v (rds (core x)) \<and> bus (core x2) = bus (core x) \<and> world (core x2) = world (core x) \<and> r \<noteq> Inr False"
    if own: "lock_owner (v (rds (core x))) ?t k = Some h" and a: "authorize D c act ?t x = (None, x1)"
      and l: "redis_do (IsTopicLockedByOther (d_RDB D) ?t k ?uk) x1 = (r, x2)" for k act x1 r x2
  proof -
    obtain s' where "IsTopicLockedByOther (d_RDB D) ?t k ?uk (rds (core x)) = (r, s')" "x2 = set_rds s' x1"
      using l authorize_core [OF a] by (auto simp: redis_do_def split: prod.splits)
    with locked_check [OF doc own assms(2)] authorize_core [OF a] show ?thesis by auto
  qed
  have refuse: "\<exists>e x'. f x = (Inl e, x') \<and> bus (core x') = bus (core x) \<and> world (core x') = world (core x)
         \<and> v (rds (core x')) = v (rds (core x))"
    if own: "lock_owner (v (rds (core x))) ?t k = Some h"
      and denied: "\<And>e x1. authorize D c act ?t x = (Some e, x1) \<Longrightarrow> f x = (Inl e, x1)"
      and failed: "\<And>x1 e x2. authorize D c act ?t x = (None, x1) \<Longrightarrow>
          redis_do (IsTopicLockedByOther (d_RDB D) ?t k ?uk) x1 = (Inl e, x2) \<Longrightarrow> \<exists>e'. f x = (Inl e', x2)"
      and locked: "\<And>x1 x2. authorize D c act ?t x = (None, x1) \<Longrightarrow>
          redis_do (IsTopicLockedByOther (d_RDB D) ?t k ?uk) x1 = (Inr True, x2) \<Longrightarrow> \<exists>e'. f x = (Inl e', x2)"
    for k act and f :: "'a app \<Rightarrow> string result \<times> 'a app"
  proof -
    obtain a x1 where a: "authorize D c act ?t x = (a, x1)" by fastforce
    obtain r x2 where l: "redis_do (IsTopicLockedByOther (d_RDB D) ?t k ?uk) x1 = (r, x2)" by fastforce
    show ?thesis
    proof (cases a)
      case (Some e)
      with a denied authorize_core [OF a] show ?thesis by auto
    next
      case None
      note c = check [OF own a [unfolded None] l]
      then have "\<exists>e'. f x = (Inl e', x2)"
        using failed [OF a [unfolded None]] locked [OF a [unfolded None]] l by (cases r) (auto simp: neq_commute)
      with c show ?thesis by auto
    qed
  qed
  show ?thesis
    by (intro conjI impI)
      (rule refuse [where k = LockPublish and act = ActionPublish], assumption, auto simp: handlePublish_def Let_def,
       rule refuse [where k = LockSubscribe and act = ActionSubscribe], assumption, auto simp: handleSubscribe_def Let_def)
qed

definition open_deps :: "ref_state deps" where
  "open_deps = demo_deps\<lparr>d_Authorizer := None\<rparr>"

definition locked_app :: "ref_state app" where
  "locked_app = set_rds \<lparr>entries = [(lockKey ''t'' LockPublish, VStr ''bob'' (Some 1000))], pubs = []\<rparr> demo_app"

theorem locked_topic_refuses_witness:
  "\<exists>e x'. handlePublish open_deps 3 demo_publish locked_app = (Inl e, x') \<and> bus (core x') = bus (core locked_app)
     \<and> ref_view (rds (core x')) = ref_view (rds (core locked_app))"
proof -
  have doc: "documented False (d_RDB open_deps) ref_view" by (simp add: open_deps_def demo_deps_def ref_redis_documented)
  have uk: "''bob'' \<noteq> user_of locked_app 3"
    by (simp add: user_of_def the_conn_def locked_app_def set_rds_def demo_app_def demo_inst_def demo_world_def NewConn_def demo_cfg_def)
  have own: "lock_owner (ref_view (rds (core locked_app))) (Topic demo_publish) LockPublish = Some ''bob''"
    by (simp add: locked_app_def lock_owner_def str_at_def demo_publish_def)
  from locked_topic_refuses [OF doc uk, of demo_publish] own show ?thesis by auto
qed

section \<open>A subscribe is recorded on both sides\<close>

lemma rSAdd_ok:
  assumes "documented net R v" and "rSAdd R k m s = (Inr u, s')"
  shows "m \<in> set_at (v s') k \<and> (\<forall>q. set_at (v s) q \<subseteq> set_at (v s') q)"
proof -
  have d: "doc_SAdd k m (v s) (Inr u) (v s')" by (rule obeys_okD [OF doc_rSAdd [OF assms(1)] assms(2)])
  then have "set_key (v s) k" by (auto simp: doc_SAdd_def typed_def split: if_splits)
  note in' = doc_SAdd_in [OF d this]
  have "set_at (v s) q \<subseteq> set_at (v s') q" for q
    using in' by (cases "q = k") (auto simp: set_at_def)
  with in' show ?thesis by auto
qed

lemma lock_check_free:
  assumes doc: "documented False R v" and key: "str_key (v s) (lockKey t k)" and own: "lock_owner (v s) t k \<in> {None, Some uk}"
  shows "fst (IsTopicLockedByOther R t k uk s) = Inr False \<and> v (snd (IsTopicLockedByOther R t k uk s)) = v s"
proof -
  obtain r s1 where g: "rGet R (lockKey t k) s = (r, s1)" by fastforce
  from obeys_sureD [OF doc_rGet [OF doc, of "lockKey t k"], of s] g key
  have "v s1 = v s" "r = (case lock_owner (v s) t k of None \<Rightarrow> Inl RedisNil | Some h \<Rightarrow> Inr h)"
    by (simp_all add: doc_Get_def typed_def lock_owner_def)
  with g own show ?thesis by (auto simp: IsTopicLockedByOther_def split: option.splits)
qed

lemma AddTopicSubscription_ok:
  assumes "documented net R v" and "AddTopicSubscription R uk t s = (Inr u, s')"
  shows "uk \<in> set_at (v s') (topic_key t) \<and> t \<in> set_at (v s') (subscribed_key uk)"
proof -
  from assms(2) obtain u1 s1 u2 where "rSAdd R (topic_key t) uk s = (Inr u1, s1)" "rSAdd R (subscribed_key uk) t s1 = (Inr u2, s')"
    by (auto simp: AddTopicSubscription_def split: prod.splits sum.splits)
  from rSAdd_ok [OF assms(1) this(1)] rSAdd_ok [OF assms(1) this(2)] show ?thesis by blast
qed

lemma replayMessages_state:
  assumes doc: "documented net R v" and run: "replayMessages R t since s = (r, s')"
  shows "v s' = v s"
proof -
  let ?k = "streamKeyPrefix @ t" and ?i = "IndexByte since (CHR ''-'')"
  let ?p = "if ?i > 0 then take (nat ?i) since else since"
  obtain r1 s1 where xr: "rXRange R ?k ?p s = (r1, s1)" by fastforce
  have 1: "v s1 = v s" using obeysD [OF doc_rXRange [OF doc] xr] by (auto simp: doc_XRange_def typed_def split: if_splits)
  obtain r2 s2 where xf: "rXFirst R ?k s1 = (r2, s2)" by fastforce
  have 2: "v s2 = v s1" using obeysD [OF doc_rXFirst [OF doc] xf] by (auto simp: doc_XFirst_def typed_def split: if_splits)
  from run xr xf have "s' = s1 \<or> s' = s2"
    unfolding replayMessages_def Let_def by (auto split: sum.splits if_splits list.splits)
  with 1 2 show ?thesis by auto
qed

lemma SubscribeWithReplay_ok:
  assumes doc: "documented net R v" and pub: "be_pub env = Some R"
    and run: "SubscribeWithReplay tp env c t since x = (Inr q, x')"
  shows "v (rds x') = v (rds x) \<and> c \<in> set (topic_subs (bus x') t)"
proof -
  from run obtain cursor where cur: "parseSinceCursor tp since = Inr cursor"
    by (auto simp: SubscribeWithReplay_def split: sum.splits)
  obtain rm s1 where rm: "replayMessages R t cursor (rds x) = (rm, s1)" by fastforce
  with run cur pub obtain ms tr old where m: "rm = Inr (ms, tr, old)"
    by (auto simp: SubscribeWithReplay_def Let_def split: sum.splits)
  let ?b1 = "swr_register c t (bus x)"
  let ?b2 = "?b1\<lparr>ReplayMessages := ReplayMessages ?b1 + length ms, ReplayTruncated := ReplayTruncated ?b1 + (if tr then 1 else 0)\<rparr>"
  obtain b3 w3 where sr: "swr_replay (be_subs env) c t ms (?b2, world x) = (b3, w3)" by fastforce
  have "c \<in> set (topic_subs b3 t)"
    using swr_replay_subs [of "be_subs env" c t ms ?b2 "world x" t] sr topic_subs_register [of c t "bus x"] by simp
  moreover from run have "rds x' = s1" "bus x' = b3\<lparr>replay := AList.delete (c, t) (replay b3)\<rparr>"
    using cur pub rm m sr by (auto simp: SubscribeWithReplay_def Let_def swr_finish_def)
  ultimately show ?thesis using replayMessages_state [OF doc rm] by simp
qed

lemma subscribe_since_ok:
  assumes doc: "documented net (d_RDB D) v" and run: "subscribe_since D c t since x = (Inr msg, x')"
  shows "v (rds (core x')) = v (rds (core x)) \<and> c \<in> set (topic_subs (bus (core x')) t)"
proof -
  from run obtain q y where swr: "SubscribeWithReplay (d_timeParse D) (bus_of D) c t since (core x) = (Inr q, y)"
    and x': "rds (core x') = rds y" "bus (core x') = bus y"
    by (auto simp: subscribe_since_def core_do_def split: prod.splits sum.splits if_splits)
  have "be_pub (bus_of D) = Some (d_RDB D)" by (simp add: bus_of_def)
  from SubscribeWithReplay_ok [OF doc this swr] x' show ?thesis by simp
qed

lemma subscribe_plain_ok:
  "subscribe_plain c t x = (Inr msg, x') \<Longrightarrow>
     rds (core x') = rds (core x) \<and> c \<in> set (topic_subs (bus (core x')) t)"
  by (auto simp: subscribe_plain_def bus_do_def AddLocalSubscription_def topic_subs_addLocal)

lemma AckCursor_state:
  assumes "documented net R v" and "AckCursor R uk t s = (r, s')"
  shows "v s' = v s"
proof -
  obtain r1 s1 where "rGet R (ackCursorKey uk t) s = (r1, s1)" by fastforce
  with assms rGet_state [OF assms(1) this] show ?thesis by (auto simp: AckCursor_def split: sum.splits)
qed

text \<open>
  A subscribe is recorded locally and in the store. When a subscribe is answered with success, with or
  without a replay and from whatever position, the connection is a local subscriber of the
  topic, the user is a member of the topic in Redis, and the topic is in the user's index.
\<close>

theorem subscribe_registers:
  assumes doc: "documented net (d_RDB D) v" and run: "handleSubscribe D c env x = (Inr msg, x')"
  shows "c \<in> set (topic_subs (bus (core x')) (Topic env))
    \<and> user_of x c \<in> set_at (v (rds (core x'))) (topic_key (Topic env))
    \<and> Topic env \<in> set_at (v (rds (core x'))) (subscribed_key (user_of x c))"
proof -
  let ?t = "Topic env" and ?uk = "user_of x c"
  obtain a x1 where a: "authorize D c ActionSubscribe ?t x = (a, x1)" by fastforce
  obtain r2 x2 where l: "redis_do (IsTopicLockedByOther (d_RDB D) ?t LockSubscribe ?uk) x1 = (r2, x2)" by fastforce
  obtain r3 x3 where ad: "redis_do (AddTopicSubscription (d_RDB D) ?uk ?t) x2 = (r3, x3)" by fastforce
  have a': "a = None" and l': "r2 = Inr False" and ad': "r3 = Inr ()"
    using run a l ad by (auto simp: handleSubscribe_def Let_def split: option.splits sum.splits if_splits)
  have mem: "?uk \<in> set_at (v (rds (core x3))) (topic_key ?t) \<and> ?t \<in> set_at (v (rds (core x3))) (subscribed_key ?uk)"
    using ad ad' AddTopicSubscription_ok [OF doc, of ?uk ?t "rds (core x2)"] by (auto simp: redis_do_def split: prod.splits)
  obtain r4 x4 where ak: "redis_do (AckCursor (d_RDB D) ?uk ?t) x3 = (r4, x4)" by fastforce
  have v4: "v (rds (core x4)) = v (rds (core x3))"
    using ak AckCursor_state [OF doc] by (auto simp: redis_do_def split: prod.splits)
  have "(\<exists>y since. v (rds (core y)) = v (rds (core x3)) \<and> subscribe_since D c ?t since y = (Inr msg, x'))
    \<or> (\<exists>y. v (rds (core y)) = v (rds (core x3)) \<and> subscribe_plain c ?t y = (Inr msg, x'))"
  proof (cases "Since env")
    case None
    then show ?thesis using run a a' l l' ad ad' by (auto simp: handleSubscribe_def Let_def)
  next
    case (Some j)
    with run a a' l l' ad ad' obtain since where "SinceToString (d_floatInt D) (Since env) = Inr since"
      by (auto simp: handleSubscribe_def Let_def split: sum.splits)
    then show ?thesis using Some run a a' l l' ad ad' ak v4
      by (cases "since = SinceAck") (auto simp: handleSubscribe_def Let_def split: sum.splits if_splits)
  qed
  then have "v (rds (core x')) = v (rds (core x3)) \<and> c \<in> set (topic_subs (bus (core x')) ?t)"
  proof (elim disjE exE conjE)
    fix y since assume "v (rds (core y)) = v (rds (core x3))" "subscribe_since D c ?t since y = (Inr msg, x')"
    then show ?thesis using subscribe_since_ok [OF doc] by auto
  next
    fix y assume "v (rds (core y)) = v (rds (core x3))" "subscribe_plain c ?t y = (Inr msg, x')"
    then show ?thesis using subscribe_plain_ok by fastforce
  qed
  with mem show ?thesis by simp
qed

definition demo_subscribe :: Envelope where "demo_subscribe = demo_publish\<lparr>Type := ''subscribe'', Data := None\<rparr>"

theorem subscribe_registers_witness:
  "3 \<in> set (topic_subs (bus (core (snd (handleSubscribe open_deps 3 demo_subscribe demo_app)))) ''t'')"
proof -
  have "fst (handleSubscribe open_deps 3 demo_subscribe demo_app) = Inr (subscribed_ok ''t'')"
    by (simp add: handleSubscribe_def authorize_def open_deps_def demo_deps_def demo_subscribe_def demo_publish_def redis_do_def
        IsTopicLockedByOther_def AddTopicSubscription_def subscribe_plain_def ref_redis_def ref_typed_def str_key_def str_at_def
        set_key_def demo_app_def demo_inst_def note_authz_def set_rds_def lockKey_def LockSubscribe_def topic_key_def
        subscribed_key_def ref_put_def ref_view_def Let_def)
  then obtain x' where run: "handleSubscribe open_deps 3 demo_subscribe demo_app = (Inr (subscribed_ok ''t''), x')"
    by (cases "handleSubscribe open_deps 3 demo_subscribe demo_app") auto
  have "documented False (d_RDB open_deps) ref_view" by (simp add: open_deps_def demo_deps_def ref_redis_documented)
  from subscribe_registers [OF this run] run show ?thesis by (simp add: demo_subscribe_def demo_publish_def)
qed

section \<open>Labels\<close>

text \<open>
  Client input does not mint labels. Whatever types a client puts into its frames, in whatever number,
  the type label takes at most fourteen values plus one per registered verb, the label of frames
  that are not JSON included.
\<close>

theorem frame_labels_bounded:
  fixes frames :: "blob list" and reg :: "'x Registry"
  defines "label \<equiv> (\<lambda>b. case unmarshal_Envelope b of None \<Rightarrow> ''invalid_json'' | Some env \<Rightarrow> frameTypeLabel (Type env) reg)"
  shows "card (set (map label frames)) \<le> 14 + (case Verbs reg of None \<Rightarrow> 0 | Some vs \<Rightarrow> length vs)"
proof -
  let ?V = "case Verbs reg of None \<Rightarrow> [] | Some vs \<Rightarrow> vs"
  have "label b \<in> set (''invalid_json'' # ''unknown'' # knownFrameTypes @ ?V)" for b
    by (auto simp: label_def frameTypeLabel_def Lookup_def Verbs_def dest!: map_of_SomeD split: option.splits) force
  then have "set (map label frames) \<subseteq> set (''invalid_json'' # ''unknown'' # knownFrameTypes @ ?V)" by auto
  then have "card (set (map label frames)) \<le> card (set (''invalid_json'' # ''unknown'' # knownFrameTypes @ ?V))"
    by (intro card_mono finite_set)
  also have "\<dots> \<le> length (''invalid_json'' # ''unknown'' # knownFrameTypes @ ?V)" by (rule card_length)
  also have "\<dots> = 14 + (case Verbs reg of None \<Rightarrow> 0 | Some vs \<Rightarrow> length vs)"
    by (simp add: knownFrameTypes_def split: option.splits)
  finally show ?thesis .
qed

section \<open>Disconnection\<close>

lemma UnlockTopic_sure:
  assumes doc: "documented False R v"
  shows "lock_owner (v (snd (UnlockTopic R t k h s))) t k \<noteq> Some h"
proof (cases "lock_owner (v s) t k = Some h")
  case False
  then show ?thesis
    using UnlockTopic_owner_mono [OF doc, of t k h s "fst (UnlockTopic R t k h s)" "snd (UnlockTopic R t k h s)"] by simp
next
  case True
  let ?key = "lockKey t k"
  obtain g s1 where g: "rGet R ?key s = (g, s1)" by fastforce
  from True obtain tm where key: "keyspace (v s) ?key = Some (VStr h tm)" by (auto simp: lock_owner_def dest: str_at_SomeD)
  then have g': "g = Inr h" using obeys_sureD [OF doc_rGet [OF doc, of ?key], of s] g by (simp add: doc_Get_def typed_def key_defs)
  have "v (snd (rEval R (unlockScript R ?key h) s)) = put ?key None (v s)"
    using eval_sureD(2) [OF doc_rEval [OF doc], of "unlockScript R ?key h" s] rGet_state [OF doc g] g g'
      obeys_sureD [OF doc_rDel [OF doc, of ?key], of s1] by (simp add: unlockScript_def doc_Del_def)
  then have gone: "str_at (v (snd (rEval R (unlockScript R ?key h) s))) ?key = None" by (simp add: str_at_put)
  obtain r1 s2 where ev: "rEval R (unlockScript R ?key h) s = (r1, s2)" by fastforce
  obtain r2 s3 where rem: "rSRem R (lockedTopicsKey h) t s2 = (r2, s3)" by fastforce
  have "str_at (v s3) = str_at (v s2)" by (rule rSRem_strings [OF doc rem])
  with gone ev rem show ?thesis by (auto simp: UnlockTopic_def lock_owner_def split: sum.splits)
qed

lemma unlock_all_mono:
  assumes doc: "documented False R v"
  shows "lock_owner (v s) t k \<noteq> Some h \<Longrightarrow> lock_owner (v (unlock_all R uk ts s)) t k \<noteq> Some h"
proof (induction ts arbitrary: s)
  case (Cons x xs)
  obtain r1 s1 where u1: "UnlockTopic R x LockPublish uk s = (r1, s1)" by fastforce
  obtain r2 s2 where u2: "UnlockTopic R x LockSubscribe uk s1 = (r2, s2)" by fastforce
  from Cons UnlockTopic_owner_mono [OF doc u1 Cons.prems] UnlockTopic_owner_mono [OF doc u2] u1 u2 show ?case by simp
qed simp

lemma unlock_all_done:
  assumes doc: "documented False R v" and "lock_kind k"
  shows "t \<in> set ts \<Longrightarrow> lock_owner (v (unlock_all R uk ts s)) t k \<noteq> Some uk"
proof (induction ts arbitrary: s)
  case (Cons x xs)
  let ?s1 = "snd (UnlockTopic R x LockPublish uk s)" and ?s2 = "snd (UnlockTopic R x LockSubscribe uk (snd (UnlockTopic R x LockPublish uk s)))"
  have "lock_owner (v ?s2) x k \<noteq> Some uk"
    using \<open>lock_kind k\<close> UnlockTopic_sure [OF doc, of x LockSubscribe uk ?s1] UnlockTopic_sure [OF doc, of x LockPublish uk s]
      UnlockTopic_owner_mono [OF doc, of x LockSubscribe uk ?s1 "fst (UnlockTopic R x LockSubscribe uk ?s1)" ?s2 x LockPublish uk]
    by (auto simp: lock_kind_def)
  with Cons unlock_all_mono [OF doc] show ?case by (cases "t \<in> set xs") auto
qed simp

lemma unsubscribe_all_strings:
  assumes doc: "documented net R v"
  shows "str_at (v (unsubscribe_all R uk ts s)) = str_at (v s)"
proof (induction ts arbitrary: s)
  case (Cons t ts)
  obtain r1 s1 where a: "rSRem R (topic_key t) uk s = (r1, s1)" by fastforce
  obtain r2 s2 where b: "rSRem R (subscribed_key uk) t s1 = (r2, s2)" by fastforce
  have "str_at (v (snd (RemoveTopicSubscription R uk t s))) = str_at (v s)"
    using a b rSRem_strings [OF doc a] rSRem_strings [OF doc b] by (cases r1; cases r2) (auto simp: RemoveTopicSubscription_def)
  with Cons show ?case by simp
qed simp

lemma RemoveConnection_strings:
  assumes doc: "documented net R v" and "k \<noteq> count_key uk"
  shows "str_at (v (snd (RemoveConnection R uk s))) k = str_at (v s) k"
proof -
  obtain r1 s1 where a: "rDecr R (count_key uk) s = (r1, s1)" by fastforce
  have 1: "str_at (v s1) k = str_at (v s) k"
    using obeysD [OF doc_rDecr [OF doc] a] assms(2)
    by (auto simp: doc_IncrBy_def typed_def str_at_def split: if_splits option.splits)
  obtain r2 s2 where b: "rDel R (count_key uk) s1 = (r2, s2)" by fastforce
  have 2: "str_at (v s2) k = str_at (v s1) k"
    using obeysD [OF doc_rDel [OF doc] b] assms(2) by (auto simp: doc_Del_def str_at_put)
  obtain r3 s3 where c: "rSRem R active_key uk s2 = (r3, s3)" by fastforce
  have 3: "str_at (v s3) k = str_at (v s2) k" by (simp add: rSRem_strings [OF doc c])
  from a b c 1 2 3 show ?thesis
    by (cases r1; cases r2; cases r3) (auto simp: RemoveConnection_def RemoveConnection_between_def)
qed

lemma lockKey_not_count: "lock_kind k \<Longrightarrow> lockKey t k \<noteq> count_key uk"
  by (auto simp: lock_kind_def lockKey_def LockPublish_def LockSubscribe_def count_key_def)

lemma rSRem_frame:
  assumes doc: "documented False R v" and "q \<noteq> k"
  shows "keyspace (v (snd (rSRem R k x s))) q = keyspace (v s) q"
proof (cases "set_key (v s) k")
  case True
  from doc_SRem_out [OF obeys_sureD [OF doc_rSRem [OF doc, of k x], of s] this] assms(2) show ?thesis by blast
next
  case False
  with obeys_sureD [OF doc_rSRem [OF doc, of k x], of s] show ?thesis by (simp add: doc_SRem_def typed_def)
qed

lemma UnlockTopic_other_keys:
  assumes doc: "documented False R v" and "q \<noteq> lockKey t k" and "q \<noteq> lockedTopicsKey h"
  shows "keyspace (v (snd (UnlockTopic R t k h s))) q = keyspace (v s) q"
proof -
  let ?b = "unlockScript R (lockKey t k) h"
  obtain g s1 where g: "rGet R (lockKey t k) s = (g, s1)" by fastforce
  have "keyspace (v (snd (?b s))) q = keyspace (v s) q"
    using obeys_sureD [OF doc_rDel [OF doc, of "lockKey t k"], of s1] assms(2) rGet_state [OF doc g]
    by (auto simp: unlockScript_def g doc_Del_def split: sum.splits)
  then have ev: "keyspace (v (snd (rEval R ?b s))) q = keyspace (v s) q" by (simp add: eval_sureD(2) [OF doc_rEval [OF doc]])
  obtain r2 s2 where e: "rEval R ?b s = (r2, s2)" by fastforce
  obtain r3 s3 where d: "rSRem R (lockedTopicsKey h) t s2 = (r3, s3)" by fastforce
  show ?thesis using ev rSRem_frame [OF doc assms(3), of t s2] e d
    by (auto simp: UnlockTopic_def split: sum.splits)
qed

lemma RemoveTopicSubscription_frame:
  assumes doc: "documented False R v" and "q \<noteq> topic_key t" and "q \<noteq> subscribed_key uk"
  shows "keyspace (v (snd (RemoveTopicSubscription R uk t s))) q = keyspace (v s) q"
proof -
  obtain r1 s1 where a: "rSRem R (topic_key t) uk s = (r1, s1)" by fastforce
  obtain r2 s2 where b: "rSRem R (subscribed_key uk) t s1 = (r2, s2)" by fastforce
  from a b rSRem_frame [OF doc assms(2), of uk s] rSRem_frame [OF doc assms(3), of t s1] show ?thesis
    by (cases r1; cases r2) (auto simp: RemoveTopicSubscription_def)
qed

text \<open>No key of the locks and memberships of a user is its count or the set of active users.\<close>

lemma length_neq: "length xs \<noteq> length ys \<Longrightarrow> xs \<noteq> ys"
  by blast

lemma user_keys_apart:
  assumes "q = count_key uk \<or> q = active_key"
  shows "q \<noteq> lockKey t LockPublish" "q \<noteq> lockKey t LockSubscribe" "q \<noteq> lockedTopicsKey uk" "q \<noteq> topic_key t" "q \<noteq> subscribed_key uk"
proof -
  have c: "count_key uk \<noteq> lockedTopicsKey uk" "count_key uk \<noteq> subscribed_key uk"
    by (rule length_neq, simp add: count_key_def lockedTopicsKey_def subscribed_key_def)+
  have "CHR '':'' \<in> set (lockedTopicsKey uk)" "CHR '':'' \<in> set (subscribed_key uk)" "CHR '':'' \<notin> set active_key"
    by (simp_all add: lockedTopicsKey_def subscribed_key_def active_key_def)
  then have a: "active_key \<noteq> lockedTopicsKey uk" "active_key \<noteq> subscribed_key uk" by metis+
  from assms a c show "q \<noteq> lockKey t LockPublish" "q \<noteq> lockKey t LockSubscribe" "q \<noteq> lockedTopicsKey uk" "q \<noteq> topic_key t" "q \<noteq> subscribed_key uk"
    by (auto simp: lockKey_def LockPublish_def LockSubscribe_def topic_key_def count_key_def active_key_def)
qed

lemma cleanup_user_frame:
  assumes doc: "documented False R v" and q: "q = count_key uk \<or> q = active_key"
  shows "keyspace (v (cleanup_user R uk s)) q = keyspace (v s) q"
proof -
  note apart = user_keys_apart [OF q]
  have un: "keyspace (v (unlock_all R uk ts s)) q = keyspace (v s) q" for ts s
    by (induction ts arbitrary: s) (simp_all add: UnlockTopic_other_keys [OF doc apart(2,3)] UnlockTopic_other_keys [OF doc apart(1,3)])
  have us: "keyspace (v (unsubscribe_all R uk ts s)) q = keyspace (v s) q" for ts s
    by (induction ts arbitrary: s) (simp_all add: RemoveTopicSubscription_frame [OF doc apart(4,5)])
  have members: "v (snd (rSMembers R k s)) = v s" for k s
    using obeys_sureD [OF doc_rSMembers [OF doc, of k], of s] by (auto simp: doc_SMembers_def typed_def split: if_splits)
  show ?thesis
    using un us members
    by (simp add: cleanup_user_def LockedTopics_def SubscribedTopics_def Let_def split_beta)
qed

lemma cleanup_user_locks:
  assumes doc: "documented False R v" and idx: "set_key (v s) (lockedTopicsKey uk)" and k: "lock_kind k"
    and named: "lock_owner (v s) t k = Some uk \<Longrightarrow> t \<in> set_at (v s) (lockedTopicsKey uk)"
  shows "lock_owner (v (cleanup_user R uk s)) t k \<noteq> Some uk"
proof -
  obtain ls s1 where l: "LockedTopics R uk s = (ls, s1)" by fastforce
  have "(\<exists>ts. ls = Inr ts \<and> set ts = set_at (v s) (lockedTopicsKey uk)) \<and> v s1 = v s"
    using obeys_sureD [OF doc_rSMembers [OF doc], of "lockedTopicsKey uk" s] l idx
    by (auto simp: LockedTopics_def doc_SMembers_def typed_def)
  then obtain ts where ts: "ls = Inr ts" "lock_owner (v s1) t k = Some uk \<Longrightarrow> t \<in> set ts" using named by auto
  obtain rs s3 where sub: "SubscribedTopics R uk (unlock_all R uk ts s1) = (rs, s3)" by fastforce
  have "v s3 = v (unlock_all R uk ts s1)"
    using obeys_sureD [OF doc_rSMembers [OF doc], of "subscribed_key uk" "unlock_all R uk ts s1"] sub
    by (auto simp: SubscribedTopics_def doc_SMembers_def typed_def split: if_splits)
  moreover have "lock_owner (v (unlock_all R uk ts s1)) t k \<noteq> Some uk"
    using unlock_all_done [OF doc k, of t ts uk s1] unlock_all_mono [OF doc, of s1 t k uk uk ts] ts(2) by blast
  ultimately show ?thesis
    using unsubscribe_all_strings [OF doc, of uk "case rs of Inl e \<Rightarrow> [] | Inr ts \<Rightarrow> ts" s3]
    by (simp add: cleanup_user_def l ts(1) sub lock_owner_def)
qed

text \<open>
  The end of the last connection of a user (C25). Let a connection be the only one of its user on any
  instance, and let the user's index name every topic it holds a lock of, which fails once the
  user unlocked one of two kinds it held. Then after the cleanup the connection is no
  subscriber of any topic, the user owns no lock of either kind, its count is gone and it is
  not among the active users. Redis is assumed to answer, and there is no hook and no presence topic.
\<close>

theorem last_disconnect_releases:
  assumes doc: "documented False (d_RDB D) v" and plain: "OnDisconnect D = None" "PresenceTopic D = []"
    and inv: "bus_inv (bus (core x))" and last: "conn_rel (v (rds (core x))) (user_of x c) 1"
    and idx: "set_key (v (rds (core x))) (lockedTopicsKey (user_of x c))"
    and named: "\<And>t k. lock_kind k \<Longrightarrow> lock_owner (v (rds (core x))) t k = Some (user_of x c) \<Longrightarrow>
      t \<in> set_at (v (rds (core x))) (lockedTopicsKey (user_of x c))"
  shows "(\<forall>t. c \<notin> set (topic_subs (bus (core (Cleanup D c True x))) t))
    \<and> (\<forall>t k. lock_kind k \<longrightarrow> lock_owner (v (rds (core (Cleanup D c True x)))) t k \<noteq> Some (user_of x c))
    \<and> conn_rel (v (rds (core (Cleanup D c True x)))) (user_of x c) 0"
proof -
  let ?uk = "user_of x c" and ?R = "d_RDB D"
  define s1 where "s1 = cleanup_user ?R ?uk (rds (core x))"
  have clean: "Cleanup D c True x = snd (redis_do (RemoveConnection ?R ?uk) (set_rds s1 (bus_do (RemoveSubscriberAll c) x)))"
    using plain by (simp add: Cleanup_def PublishPresence_def bus_do_def s1_def Let_def)
  have "topic_subs (bus (core (Cleanup D c True x))) t = filter (\<lambda>y. y \<noteq> c) (topic_subs (bus (core x)) t)" for t
    using RemoveAll_tables [OF inv, of c t] by (simp add: clean bus_do_def)
  moreover have "lock_owner (v (rds (core (Cleanup D c True x)))) t k \<noteq> Some ?uk" if "lock_kind k" for t k
    using cleanup_user_locks [OF doc idx that named [OF that]] RemoveConnection_strings [OF doc lockKey_not_count [OF that, of t ?uk], of s1]
    by (simp add: clean s1_def lock_owner_def)
  moreover have "conn_rel (v s1) ?uk 1"
    using last cleanup_user_frame [OF doc, of "count_key ?uk" ?uk] cleanup_user_frame [OF doc, of active_key ?uk]
    by (simp add: s1_def conn_rel_def str_at_def set_key_def set_at_def)
  then have "conn_rel (v (rds (core (Cleanup D c True x)))) ?uk 0"
    using RemoveConnection_count [OF doc, of s1 ?uk 0] by (simp add: clean redis_do_eq max_int64_def)
  ultimately show ?thesis by auto
qed

definition held_app :: "ref_state app" where
  "held_app = set_rds \<lparr>entries = [(lockKey ''t'' LockPublish, VStr ''ann'' (Some 1000)), (lockedTopicsKey ''ann'', VSet [''t'']),
     (count_key ''ann'', VStr (FormatInt 1) None), (active_key, VSet [''ann''])], pubs = []\<rparr> demo_app"

theorem last_disconnect_releases_witness:
  "lock_owner (ref_view (rds (core held_app))) ''t'' LockPublish = Some ''ann''
   \<and> lock_owner (ref_view (rds (core (Cleanup open_deps 3 True held_app)))) ''t'' LockPublish \<noteq> Some ''ann''
   \<and> ''ann'' \<notin> set_at (ref_view (rds (core (Cleanup open_deps 3 True held_app)))) active_key"
proof -
  note keys = lockKey_def lockedTopicsKey_def LockPublish_def LockSubscribe_def count_key_def active_key_def
  have doc: "documented False (d_RDB open_deps) ref_view" by (simp add: open_deps_def demo_deps_def ref_redis_documented)
  have uk: "user_of held_app 3 = ''ann''"
    by (simp add: user_of_def the_conn_def held_app_def set_rds_def demo_app_def demo_inst_def demo_world_def NewConn_def demo_cfg_def)
  have inv: "bus_inv (bus (core held_app))" by (simp add: held_app_def set_rds_def demo_app_def demo_inst_def New_inv)
  have r: "rds (core held_app) = \<lparr>entries = [(lockKey ''t'' LockPublish, VStr ''ann'' (Some 1000)), (lockedTopicsKey ''ann'', VSet [''t'']),
     (count_key ''ann'', VStr (FormatInt 1) None), (active_key, VSet [''ann''])], pubs = []\<rparr>"
    by (simp add: held_app_def)
  have idx: "set_key (ref_view (rds (core held_app))) (lockedTopicsKey (user_of held_app 3))"
    "set_at (ref_view (rds (core held_app))) (lockedTopicsKey (user_of held_app 3)) = {''t''}"
    unfolding r uk by (simp_all add: set_key_def set_at_def keys)
  have last: "conn_rel (ref_view (rds (core held_app))) (user_of held_app 3) 1"
    unfolding r uk by (simp add: conn_rel_def set_key_def set_at_def str_at_def keys)
  have named: "t \<in> set_at (ref_view (rds (core held_app))) (lockedTopicsKey (user_of held_app 3))"
    if "lock_kind k" "lock_owner (ref_view (rds (core held_app))) t k = Some (user_of held_app 3)" for t k
    using that unfolding idx(2) unfolding uk r
    by (auto simp: lock_kind_def lock_owner_def str_at_def keys split: if_splits)
  have plain: "OnDisconnect open_deps = None" "PresenceTopic open_deps = []" by (simp_all add: open_deps_def demo_deps_def)
  have "lock_owner (ref_view (rds (core held_app))) ''t'' LockPublish = Some ''ann''"
    unfolding r by (simp add: lock_owner_def str_at_def)
  with last_disconnect_releases [OF doc plain inv last idx(1) named] show ?thesis by (simp add: uk conn_rel_def lock_kind_def)
qed

end
