(* ===== verification/AppServer.thy ===== *)
theory AppServer
  imports Wsserver Scheduler DispatchProps
begin

text \<open>
  The application: \<^verbatim>\<open>internal/app/app.go\<close>. It wires the components from the configuration, serves the
  life of a connection from its upgrade to its cleanup, and shuts the instance down. The operating
  system is the parameter \<open>oslib\<close> (loading a key pair, listening); gorilla's \<^verbatim>\<open>Upgrade\<close> is the
  parameter \<open>upgrade\<close>, which sees the origin checker; \<open>ping\<close> is Redis as the readiness probe sees it.
\<close>

section \<open>Origins and readiness\<close>

text \<open>Nothing stands for nil, which keeps gorilla's own check.\<close>

definition originChecker :: "string list \<Rightarrow> (httpReq \<Rightarrow> bool) option" where
  "originChecker allowed =
     (if allowed = [] then None
      else Some (\<lambda>r. let origin = rq_Header r ''Origin'' in
             origin = [] \<or> ''*'' \<in> set allowed \<or> ToLower origin \<in> set (map ToLower allowed)))"

definition ready_timeout :: "int \<Rightarrow> int" where
  "ready_timeout timeout = (if timeout \<le> 0 then DefaultReadinessTimeout else timeout)"

definition readyHandler :: "(int \<Rightarrow> goerr option) \<Rightarrow> int \<Rightarrow> int \<times> string" where
  "readyHandler ping timeout =
     (case ping (ready_timeout timeout) of
        Some e \<Rightarrow> (503, ''redis unavailable'')
      | None \<Rightarrow> (200, ''ok''))"

definition metricsServer :: "string \<Rightarrow> string option" where
  "metricsServer addr = (if addr = [] then None else Some addr)"

section \<open>Construction\<close>

datatype resource = RedisClient string | TCPListener int

record oslib =
  tls_load :: "string \<Rightarrow> string \<Rightarrow> goerr option"
  net_listen :: "int \<Rightarrow> int result"

record Ext =
  ext_Verifier :: "Verifier option"
  ext_Authorizer :: "Authorizer option"

text \<open>\<open>a_port\<close> is the resolved port; \<open>a_open\<close> the resources that the running application holds.\<close>

record 's App =
  a_cfg :: Config
  a_deps :: "'s deps"
  a_sched :: sched_cfg
  a_verifier :: Verifier
  a_origin :: "(httpReq \<Rightarrow> bool) option"
  a_metricsS :: "string option"
  a_port :: int

definition choose_verifier :: "jwtlib \<Rightarrow> Config \<Rightarrow> Ext \<Rightarrow> Verifier" where
  "choose_verifier J cfg ext =
     (case ext_Verifier ext of
        Some vf \<Rightarrow> vf
      | None \<Rightarrow>
          if AuthJWTSecret cfg = [] then NewInsecure
          else NewJWT J \<lparr>jwt_Secret = AuthJWTSecret cfg, jwt_Audience = AuthJWTAudience cfg, jwt_Issuer = AuthJWTIssuer cfg\<rparr>)"

definition choose_authorizer :: "Rules option \<Rightarrow> Ext \<Rightarrow> Authorizer" where
  "choose_authorizer rules ext =
     (case ext_Authorizer ext of
        Some az \<Rightarrow> az
      | None \<Rightarrow> (case rules of None \<Rightarrow> AllowAll | Some rs \<Rightarrow> Authorize rs))"

text \<open>
  \<open>base\<close> holds the library functions, the registry, middleware and hooks of the embedder and the
  judge; the rest of the dependencies comes from the configuration. Durations are milliseconds
  there.
\<close>

definition build_deps :: "Config \<Rightarrow> Authorizer \<Rightarrow> 's deps \<Rightarrow> 's deps" where
  "build_deps cfg az base = base\<lparr>
     d_bus_cfg := (d_bus_cfg base)\<lparr>StreamMaxLength := conf_StreamMaxLength cfg, StreamTTL := conf_StreamTTL cfg div Millisecond,
       bus_cfg.InstanceID := conf_InstanceID cfg\<rparr>,
     MessageRateLimit := DefaultMessageConfig (RateLimitMessagesPerSec cfg),
     JobRateLimit := DefaultJobConfig (RateLimitJobsPerMin cfg), OnSchedulerWake := True,
     d_Authorizer := Some az, PresenceTopic := conf_PresenceTopic cfg,
     AckCursorTTL := conf_AckCursorTTL cfg div Millisecond\<rparr>"

definition clients :: "resource list" where
  "clients = [RedisClient ''rdb'', RedisClient ''pub'', RedisClient ''sub'']"

definition close_clients :: "resource list \<Rightarrow> resource list" where
  "close_clients rs =
     removeAll (RedisClient ''sub'') (removeAll (RedisClient ''pub'') (removeAll (RedisClient ''rdb'') rs))"

text \<open>The result, and the resources that are open when the call returns.\<close>

definition app_New ::
  "jwtlib \<Rightarrow> oslib \<Rightarrow> (string \<Rightarrow> blob) \<Rightarrow> 's deps \<Rightarrow> Config \<Rightarrow> Ext \<Rightarrow> 's App result \<times> resource list" where
  "app_New J L json_of base cfg ext =
     (let opened = clients; verifier = choose_verifier J cfg ext in
      case parse_rules json_of (AuthzRules cfg) of
        Inl e \<Rightarrow> (Inl e, close_clients opened)
      | Inr rules \<Rightarrow>
          (case (if TLSEnabled cfg then tls_load L (TLSCertPath cfg) (TLSKeyPath cfg) else None) of
             Some e \<Rightarrow> (Inl (Wrap ''load TLS keypair: '' e []), close_clients opened)
           | None \<Rightarrow>
               (case net_listen L (WebSocketPort cfg) of
                  Inl e \<Rightarrow> (Inl (Wrap ''listen: '' e []), close_clients opened)
                | Inr port \<Rightarrow>
                    (Inr \<lparr>a_cfg = cfg, a_deps = build_deps cfg (choose_authorizer rules ext) base,
                       a_sched = new_cfg \<lparr>sched_cfg.InstanceID = conf_InstanceID cfg,
                         sc_Guard = Some \<lparr>AllowedHosts = SchedulerAllowedHosts cfg\<rparr>, HTTPTimeout = 0\<rparr>,
                       a_verifier = verifier, a_origin = originChecker (AllowedOrigins cfg),
                       a_metricsS = metricsServer (MetricsAddr cfg), a_port = port\<rparr>,
                     opened @ [TCPListener port]))))"

definition Port :: "'s App \<Rightarrow> int" where "Port a = a_port a"

text \<open>\<^verbatim>\<open>wsserver.New\<close>: from the options to the application.\<close>

definition server_New ::
  "jwtlib \<Rightarrow> oslib \<Rightarrow> (string \<Rightarrow> blob) \<Rightarrow> ('e \<Rightarrow> 's deps) \<Rightarrow> string \<Rightarrow> 'e Options \<Rightarrow> 's App result \<times> resource list" where
  "server_New J L json_of base uuid opts =
     (case toConfig uuid opts of
        Inl e \<Rightarrow> (Inl e, [])
      | Inr cfg \<Rightarrow>
          app_New J L json_of (base (opt_Ext opts)) cfg \<lparr>ext_Verifier = opt_Verifier opts, ext_Authorizer = opt_Authorizer opts\<rparr>)"

section \<open>The life of a connection\<close>

definition UpgradeAccepted :: string where "UpgradeAccepted = ''accepted''"
definition UpgradeRejectedAuth :: string where "UpgradeRejectedAuth = ''rejected_auth''"
definition UpgradeRejectedOther :: string where "UpgradeRejectedOther = ''rejected_other''"

record 's server =
  sv_app :: "'s app"
  ConnectionsTotal :: "string list"
  ConnectionsClosed :: "string list"

type_synonym upgrader = "(httpReq \<Rightarrow> bool) option \<Rightarrow> httpReq \<Rightarrow> bool"

text \<open>The verdict on an upgrade: the label of the rejection, or the verified identity.\<close>

definition admit :: "'s App \<Rightarrow> upgrader \<Rightarrow> httpReq \<Rightarrow> string + Result" where
  "admit a upgrade r =
     (case a_verifier a r of
        Inl e \<Rightarrow> Inl UpgradeRejectedAuth
      | Inr None \<Rightarrow> Inl UpgradeRejectedAuth
      | Inr (Some res) \<Rightarrow> if upgrade (a_origin a) r then Inr res else Inl UpgradeRejectedOther)"

definition serve_conn :: "Config \<Rightarrow> string \<Rightarrow> Result \<Rightarrow> Conn" where
  "serve_conn cfg connID res = NewConn connID \<lparr>cfg_UserKey = au_UserKey res, cfg_MaxBufferedBytes = conf_MaxBufferedBytes cfg,
     cfg_SendChanCapacity = 128, cfg_ID = connID, cfg_MaxConsecutiveDrops = conf_MaxConsecutiveDrops cfg\<rparr>"

definition conn_do :: "cref \<Rightarrow> (Conn \<Rightarrow> Conn) \<Rightarrow> 's app \<Rightarrow> 's app" where
  "conn_do c f x =
     (let w = world (core x) in x\<lparr>core := (core x)\<lparr>world := w\<lparr>heap := (heap w)(c := f (heap w c))\<rparr>\<rparr>\<rparr>)"

definition hub_do :: "(hub_world \<Rightarrow> bool \<times> hub_world) \<Rightarrow> 's app \<Rightarrow> bool \<times> 's app" where
  "hub_do f x = (case f (world (core x)) of (b, w) \<Rightarrow> (b, x\<lparr>core := (core x)\<lparr>world := w\<rparr>\<rparr>))"

definition conn_deps :: "'s App \<Rightarrow> cref \<Rightarrow> Result \<Rightarrow> 's deps" where
  "conn_deps a c res = (a_deps a)\<lparr>d_claims := (d_claims (a_deps a))(c := au_Claims res)\<rparr>"

text \<open>From the upgrade to the start of the read loop: \<open>c\<close> is the address of the new connection.\<close>

definition serve_open :: "Config \<Rightarrow> 's deps \<Rightarrow> string \<Rightarrow> cref \<Rightarrow> Result \<Rightarrow> 's app \<Rightarrow> 's app" where
  "serve_open cfg D connID c res x =
     (let x1 = conn_do c (\<lambda>_. serve_conn cfg connID res) x;
          x2 = (case OnConnect D of None \<Rightarrow> x1 | Some f \<Rightarrow> f (conn_info D c x1) x1);
          (first, x3) = hub_do (Add c) x2;
          x4 = (if first then PublishPresence D (au_UserKey res) PresenceConnected x3 else x3)
      in snd (redis_do (AddConnection (d_RDB D) (au_UserKey res)) x4))"

text \<open>The read loop over the frames that arrive, each with the clock at its arrival.\<close>

definition serve_frames :: "'s deps \<Rightarrow> (string \<Rightarrow> blob) \<Rightarrow> cref \<Rightarrow> (int \<times> string) list \<Rightarrow> 's app \<Rightarrow> 's app" where
  "serve_frames D json_of c frames x = fold (\<lambda>(t, msg). Dispatch (D\<lparr>d_now := t\<rparr>) c (json_of msg)) frames x"

text \<open>The tail of \<^verbatim>\<open>Run\<close> and the callback \<^verbatim>\<open>onDone\<close>.\<close>

definition serve_close :: "'s deps \<Rightarrow> cref \<Rightarrow> bool \<Rightarrow> 's app \<Rightarrow> 's app" where
  "serve_close D c readErr x =
     (let x1 = conn_do c (Run_teardown readErr) x;
          (isLast, x2) = hub_do (Remove c) x1
      in Cleanup D c isLast x2)"

definition serveWS ::
  "'s App \<Rightarrow> upgrader \<Rightarrow> (string \<Rightarrow> blob) \<Rightarrow> string \<Rightarrow> cref \<Rightarrow> httpReq \<Rightarrow> (int \<times> string) list \<Rightarrow> bool
    \<Rightarrow> 's server \<Rightarrow> 's server" where
  "serveWS a upgrade json_of connID c r frames readErr s =
     (case admit a upgrade r of
        Inl label \<Rightarrow> s\<lparr>ConnectionsTotal := ConnectionsTotal s @ [label]\<rparr>
      | Inr res \<Rightarrow>
          let D = conn_deps a c res;
              x1 = serve_frames D json_of c frames (serve_open (a_cfg a) D connID c res (sv_app s))
          in s\<lparr>ConnectionsTotal := ConnectionsTotal s @ [UpgradeAccepted],
               ConnectionsClosed := ConnectionsClosed s @ [closeReason (Run_teardown readErr (the_conn x1 c))],
               sv_app := serve_close D c readErr x1\<rparr>)"

section \<open>Shutdown\<close>

text \<open>
  The connections are closed with code 1001 in the order of the snapshot; \<open>settle\<close> is what the
  writers do until the wait ends, given its timeout. \<^verbatim>\<open>shutdown\<close> returns the number of connections
  still draining, and the clients and listeners that are left open.
\<close>

definition close_all :: "cref list \<Rightarrow> hub_world \<Rightarrow> hub_world" where
  "close_all cs w = fold (\<lambda>c w. w\<lparr>heap := (heap w)(c := Close 1001 ''server shutting down'' (heap w c))\<rparr>) cs w"

definition shutdown_timeout :: "int \<Rightarrow> int" where
  "shutdown_timeout timeout = (if timeout \<le> 0 then DefaultShutdownTimeout else timeout)"

definition shutdown ::
  "int \<Rightarrow> (int \<Rightarrow> hub_world \<Rightarrow> hub_world) \<Rightarrow> resource list \<Rightarrow> hub_world \<Rightarrow> nat \<times> resource list \<times> hub_world" where
  "shutdown timeout settle opened w =
     (let rs1 = filter (\<lambda>r. case r of TCPListener p \<Rightarrow> False | _ \<Rightarrow> True) opened;
          conns = Snapshot w;
          w1 = settle (shutdown_timeout timeout) (close_all conns w)
      in (WaitDrained conns w1, close_clients rs1, w1))"

section \<open>From the environment to Run\<close>

text \<open>\<^verbatim>\<open>mainErr\<close> of \<^verbatim>\<open>main.go\<close>: the error it returns early, or the server whose \<^verbatim>\<open>Run\<close> it returns.\<close>

definition mainErr ::
  "(osenv \<Rightarrow> osenv) \<Rightarrow> jwtlib \<Rightarrow> oslib \<Rightarrow> (string \<Rightarrow> blob) \<Rightarrow> 's deps \<Rightarrow> string \<Rightarrow> osenv \<Rightarrow> 's App result" where
  "mainErr dotenv J L json_of base uuid env =
     (case OptionsFromEnv dotenv json_of base uuid env of
        Inl e \<Rightarrow> Inl (Wrap ''load config: '' e [])
      | Inr opts \<Rightarrow> fst (server_New J L json_of (\<lambda>b. b) uuid opts))"

section \<open>Who is admitted\<close>

text \<open>
  No upgrade without a verified identity and an allowed origin (C30). A request is served only if the
  verifier accepts it and, when origins are configured, it has no \<^verbatim>\<open>Origin\<close> header or one of the list up
  to case, or the list has a \<open>*\<close>. Every other request leaves connections, hub, bus and Redis as
  they were and is counted as rejected.
\<close>

theorem upgrade_gate:
  assumes up: "\<forall>chk q. upgrade (Some chk) q \<longrightarrow> chk q"
    and a: "fst (app_New J L json_of base cfg ext) = Inr a"
  shows "(\<exists>res. a_verifier a r = Inr (Some res)
        \<and> \<not> (AllowedOrigins cfg \<noteq> [] \<and> ''*'' \<notin> set (AllowedOrigins cfg) \<and> rq_Header r ''Origin'' \<noteq> []
             \<and> ToLower (rq_Header r ''Origin'') \<notin> ToLower ` set (AllowedOrigins cfg))
        \<and> admit a upgrade r = Inr res)
    \<or> (\<exists>label. label \<in> {UpgradeRejectedAuth, UpgradeRejectedOther}
        \<and> serveWS a upgrade json_of connID c r frames readErr s = s\<lparr>ConnectionsTotal := ConnectionsTotal s @ [label]\<rparr>)"
proof (cases "admit a upgrade r")
  case (Inl label)
  then have "label \<in> {UpgradeRejectedAuth, UpgradeRejectedOther}"
    by (auto simp: admit_def split: sum.splits option.splits if_splits)
  with Inl show ?thesis by (auto simp: serveWS_def)
next
  case (Inr res)
  then have v: "a_verifier a r = Inr (Some res)" and u: "upgrade (a_origin a) r"
    by (auto simp: admit_def split: sum.splits option.splits if_splits)
  from a have "a_origin a = originChecker (AllowedOrigins cfg)"
    by (auto simp: app_New_def Let_def split: sum.splits option.splits)
  with u up have "\<not> (AllowedOrigins cfg \<noteq> [] \<and> ''*'' \<notin> set (AllowedOrigins cfg) \<and> rq_Header r ''Origin'' \<noteq> []
             \<and> ToLower (rq_Header r ''Origin'') \<notin> ToLower ` set (AllowedOrigins cfg))"
    by (auto simp: originChecker_def Let_def split: if_splits)
  with v Inr show ?thesis by blast
qed

section \<open>Construction\<close>

text \<open>
  A failed construction leaks nothing. When \<^verbatim>\<open>New\<close> fails, for whatever reason, no Redis client and
  no listener stays open; when it succeeds it holds the three clients and the listener, and after
  a shutdown none of them is open.
\<close>

theorem construction_leaks_nothing:
  "case app_New J L json_of base cfg ext of
     (Inl e, opened) \<Rightarrow> opened = []
   | (Inr a, opened) \<Rightarrow> opened = clients @ [TCPListener (a_port a)] \<and> fst (snd (shutdown timeout settle opened w)) = []"
  by (auto simp: app_New_def Let_def clients_def close_clients_def shutdown_def split: sum.splits option.splits)

text \<open>A concrete instance of the parameters: a permissive operating system and an upgrader that only asks the checker.\<close>

definition demo_os :: oslib where
  "demo_os = \<lparr>tls_load = (\<lambda>_ _. None), net_listen = Inr\<rparr>"

definition demo_upgrade :: upgrader where
  "demo_upgrade chk r = (case chk of None \<Rightarrow> True | Some f \<Rightarrow> f r)"

definition demo_jwt :: jwtlib where
  "demo_jwt = \<lparr>jwt_parse = (\<lambda>popts key tok. if key = ''k'' \<and> tok = ''good'' then Inr [(''sub'', JStr ''ann'')] else Inl (Err ''bad token'')),
     jwt_expiry = (\<lambda>cs. Inr None)\<rparr>"

definition empty_Ext :: Ext where "empty_Ext = \<lparr>ext_Verifier = None, ext_Authorizer = None\<rparr>"

definition origin_cfg :: Config where
  "origin_cfg = (env_config one_var_env ''u'')\<lparr>AllowedOrigins := [''http://a'']\<rparr>"

definition demo_request :: "string \<Rightarrow> httpReq" where
  "demo_request origin = \<lparr>rq_Header = (\<lambda>k. if k = ''Origin'' then origin else []),
     rq_Query = (\<lambda>k. if k = ''userKey'' then ''ann'' else [])\<rparr>"

definition demo_server :: "ref_state server" where
  "demo_server = \<lparr>sv_app = demo_app, ConnectionsTotal = [], ConnectionsClosed = []\<rparr>"

lemma origin_cfg_fields:
  "TLSEnabled origin_cfg = False" "AllowedOrigins origin_cfg = [''http://a'']" "AuthzRules origin_cfg = []" "AuthJWTSecret origin_cfg = []"
  by (simp_all add: origin_cfg_def TLSEnabled_def env_config_def getenv_def one_var_env_other)

lemma demo_app_builds: "\<exists>a. fst (app_New demo_jwt demo_os Text open_deps origin_cfg empty_Ext) = Inr a"
  by (simp add: app_New_def origin_cfg_fields parse_rules_def ParseRules_def TrimSpace_def demo_os_def Let_def)

theorem upgrade_gate_witness:
  "\<exists>a. fst (app_New demo_jwt demo_os Text open_deps origin_cfg empty_Ext) = Inr a \<and>
     (\<exists>label. serveWS a demo_upgrade Text ''id'' 3 (demo_request ''http://b'') [] False demo_server
        = demo_server\<lparr>ConnectionsTotal := [label]\<rparr>)"
proof -
  obtain a where a: "fst (app_New demo_jwt demo_os Text open_deps origin_cfg empty_Ext) = Inr a"
    using demo_app_builds by blast
  have up: "\<forall>chk q. demo_upgrade (Some chk) q \<longrightarrow> chk q" by (simp add: demo_upgrade_def)
  have no: "ToLower ''http://b'' \<notin> ToLower ` {''http://a''}" by code_simp
  from upgrade_gate [OF up a, of "demo_request ''http://b''" "''id''" 3 "[]" False demo_server] no a
  show ?thesis by (auto simp: origin_cfg_fields demo_request_def demo_server_def)
qed

end
