(* ===== verification/SchedProps.thy ===== *)
theory SchedProps
  imports Scheduler
begin

text \<open>
  What the scheduler promises: a stored job reads back, identifiers stay unique, a job makes a
  bounded number of requests and only to public addresses, a due job fires once however many
  instances see it, and an interval job comes back. The last section shows the cases in which it
  does not do what it means to.
\<close>

section \<open>Jobs in the store\<close>

text \<open>
  A stored job reads back (C32). A member that is written for a job decodes to the same job, whatever
  its texts, headers, payload, retry policy and interval.
\<close>

theorem stored_job_roundtrip:
  assumes "case sj_JobData sj of None \<Rightarrow> True | Some j \<Rightarrow> go_JobData j"
  shows "unmarshal_StoredJob (marshal_StoredJob sj) = Some sj"
  using assms by (rule StoredJob_back)

definition demo_job :: JobData where
  "demo_job = \<lparr>jd_JobID = ''j1'', APIEndpoint = ''http://93.184.216.34/hook'', Method = ''POST'',
     Headers = [(''X-Key'', ''k'')], Payload = Some (JStr ''hi''),
     RetryPolicy = Some \<lparr>MaxRetries = 3, RetryDelay = 100\<rparr>, ExecuteAt = ''t'', ValidUntil = [], Interval = 0\<rparr>"

lemma go_demo: "go_JobData demo_job"
  by (simp add: go_JobData_def demo_job_def int64_def min_int64_def max_int64_def)

theorem stored_job_roundtrip_witness:
  "unmarshal_StoredJob (marshal_StoredJob \<lparr>sj_JobID = ''j1'', sj_JobData = Some demo_job\<rparr>)
     = Some \<lparr>sj_JobID = ''j1'', sj_JobData = Some demo_job\<rparr>"
  by (rule stored_job_roundtrip) (simp add: go_demo)

section \<open>The requests of one job\<close>

text \<open>The environment that also records the address of every request that is sent.\<close>

definition logged :: "('s, 'h) sched_env \<Rightarrow> ('s, 'h \<times> string list) sched_env" where
  "logged E = \<lparr>se_redis = se_redis E, se_cfg = se_cfg E, se_net = se_net E, se_time = se_time E,
     se_format = se_format E, se_build = se_build E, se_target = (\<lambda>req hl. se_target E req (fst hl)),
     se_send = (\<lambda>req hl. case se_send E req (fst hl) of (r, h) \<Rightarrow> (r, h, snd hl @ [se_target E req (fst hl)])),
     se_errtext = se_errtext E,
     se_sleep = (\<lambda>t hl. case se_sleep E t (fst hl) of (b, h) \<Rightarrow> (b, h, snd hl)), se_during = se_during E\<rparr>"

definition dialable :: "string \<Rightarrow> bool" where
  "dialable address \<longleftrightarrow>
     (\<exists>host port a. SplitHostPort address = Inr (host, port) \<and> ParseIP host = Some a \<and> public_target a)"

lemma DialControl_None_iff: "DialControl L address = None \<longleftrightarrow> dialable address"
  using ParseIP_length IsPublic_target
  by (auto simp: DialControl_def dialable_def split: sum.splits option.splits)

lemma client_Do_logged:
  "\<exists>l1. client_Do (logged E) req (h, l) = (fst (client_Do E req h), snd (client_Do E req h), l @ l1)
     \<and> length l1 \<le> 1 \<and> list_all dialable l1"
proof (cases "DialControl (se_net E) (se_target E req h)")
  case None
  moreover from None have "dialable (se_target E req h)" by (simp add: DialControl_None_iff)
  ultimately show ?thesis by (cases "se_send E req h") (simp add: client_Do_def logged_def)
next
  case (Some e)
  then show ?thesis by (simp add: client_Do_def logged_def)
qed

lemma doRequest_logged:
  "\<exists>l1. doRequest (logged E) jd (h, l) = (fst (doRequest E jd h), snd (doRequest E jd h), l @ l1)
     \<and> length l1 \<le> 1 \<and> list_all dialable l1"
proof -
  let ?req = "\<lparr>hr_Method = Method jd, hr_URL = APIEndpoint jd, hr_Header = build_headers jd, hr_Body = Payload jd\<rparr>"
  have b: "se_build (logged E) = se_build E" by (simp add: logged_def)
  obtain r h1 where run: "client_Do E ?req h = (r, h1)" by fastforce
  obtain l1 where "client_Do (logged E) ?req (h, l) = (r, h1, l @ l1)" "length l1 \<le> 1" "list_all dialable l1"
    using client_Do_logged [of E ?req h l] run by auto
  with run b show ?thesis
    by (cases "se_build E (Method jd) (APIEndpoint jd)"; cases "Payload jd"; cases r) (auto simp: doRequest_def)
qed

lemma attempt_loop_logged:
  "attempt \<le> m + 1 \<Longrightarrow>
   \<exists>l1. attempt_loop (logged E) jd d m attempt e (h, l) =
      (fst (attempt_loop E jd d m attempt e h), snd (attempt_loop E jd d m attempt e h), l @ l1)
     \<and> int (length l1) \<le> m - attempt + 1 \<and> list_all dialable l1"
proof (induction "nat (m - attempt + 1)" arbitrary: attempt e h l rule: less_induct)
  case less
  show ?case
  proof (cases "attempt \<le> m")
    case False
    with less.prems show ?thesis by (simp add: attempt_loop.simps)
  next
    case True
    obtain r h1 where run: "doRequest E jd h = (r, h1)" by fastforce
    obtain l1 where l1: "doRequest (logged E) jd (h, l) = (r, h1, l @ l1)" "length l1 \<le> 1" "list_all dialable l1"
      using doRequest_logged [of E jd h l] run by auto
    have sl: "se_sleep (logged E) d (h1, l @ l1) = (fst (se_sleep E d h1), snd (se_sleep E d h1), l @ l1)"
      by (simp add: logged_def split: prod.splits)
    show ?thesis
    proof (cases "(\<exists>m'. r = Some (Panic m')) \<or> r = None \<or> \<not> attempt < m \<or> \<not> fst (se_sleep E d h1)")
      case True
      with \<open>attempt \<le> m\<close> run l1 sl show ?thesis
        by (cases r; cases "the r"; cases "se_sleep E d h1") (auto simp: attempt_loop.simps [of _ _ _ _ attempt])
    next
      case False
      then obtain e' where e': "r = Some e'" "\<And>m'. e' \<noteq> Panic m'" "attempt < m" and ok: "fst (se_sleep E d h1)" by (cases r) auto
      obtain h2 where h2: "se_sleep E d h1 = (True, h2)" using ok by (cases "se_sleep E d h1") auto
      have step: "attempt_loop E jd d m attempt e h = attempt_loop E jd d m (attempt + 1) (Some e') h2"
        using e' run h2 by (cases e') (auto simp: attempt_loop.simps [of _ _ _ _ attempt])
      have step': "attempt_loop (logged E) jd d m attempt e (h, l) =
          attempt_loop (logged E) jd d m (attempt + 1) (Some e') (h2, l @ l1)"
        using e' l1(1) sl h2 by (cases e') (auto simp: attempt_loop.simps [of _ _ _ _ attempt])
      have "\<exists>l2. attempt_loop (logged E) jd d m (attempt + 1) (Some e') (h2, l @ l1) =
          (fst (attempt_loop E jd d m (attempt + 1) (Some e') h2), snd (attempt_loop E jd d m (attempt + 1) (Some e') h2), (l @ l1) @ l2)
          \<and> int (length l2) \<le> m - (attempt + 1) + 1 \<and> list_all dialable l2"
        using e'(3) by (intro less.hyps) auto
      then obtain l2 where "attempt_loop (logged E) jd d m (attempt + 1) (Some e') (h2, l @ l1) =
          (fst (attempt_loop E jd d m (attempt + 1) (Some e') h2), snd (attempt_loop E jd d m (attempt + 1) (Some e') h2), (l @ l1) @ l2)"
          "int (length l2) \<le> m - (attempt + 1) + 1" "list_all dialable l2" by blast
      with step step' l1 show ?thesis by (intro exI [of _ "l1 @ l2"]) auto
    qed
  qed
qed

lemma precheck_logged [simp]: "precheck (logged E) jd = precheck E jd"
  by (simp add: precheck_def logged_def split: option.split)

text \<open>
  A job ends after a bounded number of requests, each to a public address (C22). Whatever the transport, the
  resolver and the timers do, the retry loop returns after at most \<^verbatim>\<open>maxRetries\<close> requests (one
  without a policy), and every request that leaves goes to an address outside the blocked ranges.
\<close>

theorem job_requests_bounded:
  "1 \<le> max_attempts jd \<and>
   (\<exists>l. executeJob (logged E) jd (h, []) = (fst (executeJob E jd h), snd (executeJob E jd h), l)
      \<and> int (length l) \<le> max_attempts jd \<and> list_all dialable l)"
proof -
  have pos: "1 \<le> max_attempts jd" by (auto simp: max_attempts_def split: option.splits)
  from pos attempt_loop_logged [of 1 "max_attempts jd" E jd "retry_delay jd" None h "[]"] show ?thesis
    by (cases "precheck E jd") (auto simp: executeJob_def)
qed

lemma attempt_loop_all_fail:
  assumes fail: "\<And>h l. \<exists>e h' t. doRequest (logged E) jd (h, l) = (Some e, h', l @ [t]) \<and> (\<forall>m. e \<noteq> Panic m)"
    and sleep: "\<And>t h. fst (se_sleep E t h)"
  shows "1 \<le> attempt \<Longrightarrow> attempt \<le> m \<Longrightarrow>
    \<exists>e' h' l'. attempt_loop (logged E) jd d m attempt e (h, l) = (Some e', h', l @ l') \<and> int (length l') = m - attempt + 1"
proof (induction "nat (m - attempt)" arbitrary: attempt e h l)
  case 0
  obtain e1 h1 t where r: "doRequest (logged E) jd (h, l) = (Some e1, h1, l @ [t])" "\<forall>m. e1 \<noteq> Panic m"
    using fail by blast
  from 0 have "attempt = m" by simp
  with r show ?case by (cases e1) (auto simp: attempt_loop.simps [of _ _ _ m m])
next
  case (Suc n)
  obtain e1 h1 t where r: "doRequest (logged E) jd (h, l) = (Some e1, h1, l @ [t])" "\<forall>m. e1 \<noteq> Panic m"
    using fail by blast
  obtain h2 where sl: "se_sleep E d h1 = (True, h2)" using sleep [of d h1] by (cases "se_sleep E d h1") auto
  have "attempt < m" using Suc by simp
  have "attempt_loop (logged E) jd d m attempt e (h, l) = attempt_loop (logged E) jd d m (attempt + 1) (Some e1) (h2, l @ [t])"
    using r sl \<open>attempt < m\<close> by (cases e1) (auto simp: attempt_loop.simps [of _ _ _ _ attempt] logged_def)
  moreover have "\<exists>e' h' l'. attempt_loop (logged E) jd d m (attempt + 1) (Some e1) (h2, l @ [t]) = (Some e', h', (l @ [t]) @ l')
      \<and> int (length l') = m - (attempt + 1) + 1"
    using Suc.hyps(2) Suc.prems by (intro Suc.hyps(1)) auto
  ultimately show ?case by fastforce
qed

text \<open>
  Retries of a failing endpoint. When every request is answered with a status of 400 or above and the
  context lives, a job makes exactly \<^verbatim>\<open>maxRetries\<close> requests, one without a policy, and ends with
  an error.
\<close>

theorem failing_job_retries:
  assumes up: "\<forall>req h. \<exists>st h'. se_send E req h = (Inr st, h') \<and> 400 \<le> st"
    and pub: "\<forall>req h. dialable (se_target E req h)" and alive: "\<forall>t h. fst (se_sleep E t h)"
    and job: "se_build E (Method jd) (APIEndpoint jd) = None" "Payload jd \<noteq> None"
    and guard: "precheck E jd = None"
  shows "\<exists>e h' l. executeJob (logged E) jd (h, []) = (Some e, h', l) \<and> int (length l) = max_attempts jd"
proof -
  have fail: "\<exists>e h' t. doRequest (logged E) jd (h, l) = (Some e, h', l @ [t]) \<and> (\<forall>m. e \<noteq> Panic m)" for h l
  proof -
    let ?req = "\<lparr>hr_Method = Method jd, hr_URL = APIEndpoint jd, hr_Header = build_headers jd, hr_Body = Payload jd\<rparr>"
    obtain st h' where st: "se_send E ?req h = (Inr st, h')" "400 \<le> st" using up by blast
    have "DialControl (se_net E) (se_target E ?req h) = None" using pub DialControl_None_iff by blast
    with st job show ?thesis by (auto simp: doRequest_def client_Do_def logged_def)
  qed
  have "1 \<le> max_attempts jd" by (auto simp: max_attempts_def split: option.splits)
  moreover have "executeJob (logged E) jd (h, []) = attempt_loop (logged E) jd (retry_delay jd) (max_attempts jd) 1 None (h, [])"
    using guard by (simp add: executeJob_def)
  ultimately show ?thesis
    using attempt_loop_all_fail [of E jd, OF fail, of 1 "max_attempts jd" "retry_delay jd" None h "[]"] alive by auto
qed

text \<open>A server down with status 500 behind a public address.\<close>

definition job_env :: "(ref_state, unit) sched_env" where
  "job_env = \<lparr>se_redis = ref_redis, se_cfg = \<lparr>InstanceID = ''i'', sc_Guard = None, HTTPTimeout = 10000\<rparr>, se_net = no_net,
     se_time = (\<lambda>s. if s = ''t'' then Some 1000 else None), se_format = (\<lambda>t. ''t2''), se_build = (\<lambda>m u. None),
     se_target = (\<lambda>req h. ''93.184.216.34:80''), se_send = (\<lambda>req h. (Inr 500, ())), se_errtext = (\<lambda>req a. []),
     se_sleep = (\<lambda>t h. (True, h)), se_during = (\<lambda>s. s)\<rparr>"

lemma demo_dialable: "dialable ''93.184.216.34:80''"
proof -
  have "DialControl no_net ''93.184.216.34:80'' = None"
    by (simp add: DialControl_def SplitHostPort_def LastIndexByte_def Let_def ParseIP_def net_eval As16_def v4_prefix_def
        IsPublic_def To4_def blockedV4_table net_Contains_v4)
  then show ?thesis by (simp add: DialControl_None_iff)
qed

theorem failing_job_retries_witness:
  "\<exists>e h' l. executeJob (logged job_env) demo_job ((), []) = (Some e, h', l) \<and> length l = 3"
proof -
  have "\<exists>e h' l. executeJob (logged job_env) demo_job ((), []) = (Some e, h', l) \<and> int (length l) = max_attempts demo_job"
    by (rule failing_job_retries) (simp_all add: job_env_def demo_dialable demo_job_def precheck_def)
  then show ?thesis by (simp add: max_attempts_def demo_job_def)
qed

section \<open>A due job fires once\<close>

definition members :: "rdb \<Rightarrow> blob set" where
  "members d = fst ` set (zset_at d SchedulerSetKey)"

lemma claim_key_apart [simp]: "claimKeyPrefix @ i \<noteq> SchedulerSetKey" "SchedulerSetKey \<noteq> claimKeyPrefix @ i"
  by (simp_all add: claimKeyPrefix_def SchedulerSetKey_def)

lemma members_put_claim [simp]: "members (put (claimKeyPrefix @ i) x d) = members d"
  by (simp add: members_def)

lemma ClaimJob_members:
  assumes "documented net R v" and "ClaimJob R i inst ttl s = (r, s')"
  shows "members (v s') = members (v s)"
proof -
  let ?t = "if ttl \<le> 0 then 30000 else ttl"
  obtain r1 where run: "rSetNX R (claimKeyPrefix @ i) inst ?t s = (r1, s')"
    using assms(2) by (auto simp: ClaimJob_def split: prod.splits sum.splits)
  show ?thesis using obeysD [OF doc_rSetNX [OF assms(1)] run]
    by (auto simp: doc_SetNX_def split: if_splits)
qed

lemma RemoveJobMember_members:
  assumes "documented net R v" and "RemoveJobMember R m s = (r, s')"
  shows "members (v s') = members (v s) \<or> members (v s') = members (v s) - {m}"
    and "r = Inr b \<Longrightarrow> b = (m \<in> members (v s)) \<and> members (v s') = members (v s) - {m}"
proof -
  obtain r1 where run: "rZRem R SchedulerSetKey m s = (r1, s')" and r: "r = (case r1 of Inl e \<Rightarrow> Inl (Wrap ''zrem job member: '' e []) | Inr n \<Rightarrow> Inr (n > 0))"
    using assms(2) by (auto simp: RemoveJobMember_def split: prod.splits sum.splits)
  have flt: "fst ` {p \<in> set z. fst p \<noteq> m} = fst ` set z - {m}" for z :: "(blob \<times> int) list" by auto
  show "members (v s') = members (v s) \<or> members (v s') = members (v s) - {m}"
    using rZRem_cases(1) [OF assms(1) run] by (auto simp: members_def flt)
  show "b = (m \<in> members (v s)) \<and> members (v s') = members (v s) - {m}" if "r = Inr b"
    using that r rZRem_cases(2) [OF assms(1) run] by (auto simp: members_def flt image_iff split: sum.splits if_splits)
qed

text \<open>\<open>fires\<close> counts the executions when several instances take up the same due job in turn.\<close>

definition did_fire :: "goerr option \<times> ('s, 'h) sched \<Rightarrow> bool" where
  "did_fire p \<longleftrightarrow> fst p \<noteq> None \<or> 0 < ExecutedSuccess (snd p) + ExecutedFailure (snd p)"

definition take_up :: "DueJobsResult \<Rightarrow> ('s, 'h) sched_env \<times> int \<times> 'h \<Rightarrow> 's \<Rightarrow> bool \<times> 's" where
  "take_up d e s = (case e of (E, now, h) \<Rightarrow> let p = processDue E d now (NewScheduler s h) in (did_fire p, sd_rds (snd p)))"

abbreviation fires :: "(('s, 'h) sched_env \<times> int \<times> 'h) list \<Rightarrow> DueJobsResult \<Rightarrow> 's \<Rightarrow> nat" where
  "fires es d s \<equiv> successes (take_up d) es s"

lemma processDue_cases:
  assumes doc: "documented net (se_redis E) v" and jd: "sj_JobData (due_Job d) = Some jd"
    and during: "\<And>s. RawMember d \<notin> members (v s) \<Longrightarrow> RawMember d \<notin> members (v (se_during E s))"
    and once: "Interval jd \<le> 0" and run: "p = processDue E d now (NewScheduler s h)"
  shows "(did_fire p \<longrightarrow> RawMember d \<in> members (v s))
    \<and> (did_fire p \<or> RawMember d \<notin> members (v s) \<longrightarrow> RawMember d \<notin> members (v (sd_rds (snd p))))"
proof -
  let ?m = "RawMember d" and ?R = "se_redis E"
  obtain r0 s0 where rm0: "RemoveJobMember ?R ?m s = (r0, s0)" by fastforce
  obtain r1 s1 where cl: "ClaimJob ?R (jd_JobID jd) (InstanceID (se_cfg E)) 30000 s = (r1, s1)" by fastforce
  obtain r2 s2 where rm: "RemoveJobMember ?R ?m s1 = (r2, s2)" by fastforce
  obtain r3 h3 where ex: "executeJob E jd h = (r3, h3)" by fastforce
  have m0: "?m \<notin> members (v s) \<Longrightarrow> ?m \<notin> members (v s0)" using RemoveJobMember_members(1) [OF doc rm0] by auto
  have m1: "members (v s1) = members (v s)" by (rule ClaimJob_members [OF doc cl])
  have m2: "?m \<notin> members (v s1) \<Longrightarrow> ?m \<notin> members (v s2)" using RemoveJobMember_members(1) [OF doc rm] by auto
  have m3: "r2 = Inr b \<Longrightarrow> b = (?m \<in> members (v s1)) \<and> ?m \<notin> members (v s2)" for b
    using RemoveJobMember_members(2) [OF doc rm] by auto
  have "reschedule E jd now s' = s'" for s' using once by (simp add: reschedule_def)
  with jd rm0 cl rm ex m0 m1 m2 m3 during [of s2] show ?thesis
    unfolding run by (auto simp: processDue_def did_fire_def NewScheduler_def split: sum.splits option.splits bool.splits goerr.splits)
qed

text \<open>The store hands a due one-shot job out once: whoever executes it has taken its entry away.\<close>

interpretation due: one_shot
  "\<lambda>(v, d) (E, now, h). documented True (se_redis E) v
     \<and> (\<forall>s. RawMember d \<notin> members (v s) \<longrightarrow> RawMember d \<notin> members (v (se_during E s)))
     \<and> (\<exists>jd. sj_JobData (due_Job d) = Some jd \<and> Interval jd \<le> 0)"
  "\<lambda>(v, d) s. RawMember d \<in> members (v s)" "\<lambda>(v, d). take_up d"
proof (unfold_locales, goal_cases)
  case (1 w e s)
  obtain v d E now h where w: "w = (v, d)" and e: "e = (E, now, h)" by (metis prod_cases3 surj_pair)
  from 1 processDue_cases [of True E v d _ _ now s h, OF _ _ _ _ refl] show ?case
    by (auto simp: w e take_up_def Let_def)
next
  case (2 w e s)
  obtain v d E now h where w: "w = (v, d)" and e: "e = (E, now, h)" by (metis prod_cases3 surj_pair)
  from 2 processDue_cases [of True E v d _ _ now s h, OF _ _ _ _ refl] show ?case
    by (auto simp: w e take_up_def Let_def)
qed

lemma due_job_fires:
  assumes doc: "documented False (se_redis E) v" and jd: "sj_JobData (due_Job d) = Some jd"
    and key: "zset_key (v s) SchedulerSetKey" and mem: "RawMember d \<in> members (v s)"
    and free: "keyspace (v s) (claimKeyPrefix @ jd_JobID jd) = None" and live: "\<not> expired E jd now"
  shows "did_fire (processDue E d now (NewScheduler s h))"
proof -
  obtain r1 s1 where cl: "rSetNX (se_redis E) (claimKeyPrefix @ jd_JobID jd) (InstanceID (se_cfg E)) 30000 s = (r1, s1)" by fastforce
  have r1: "r1 = Inr True" "v s1 = put (claimKeyPrefix @ jd_JobID jd) (Some (VStr (InstanceID (se_cfg E)) (ttl_of 30000))) (v s)"
    using obeys_sureD [OF doc_rSetNX [OF doc], of "claimKeyPrefix @ jd_JobID jd" "InstanceID (se_cfg E)" 30000 s] cl free
    by (simp_all add: doc_SetNX_def)
  have "zset_key (v s1) SchedulerSetKey" using key by (simp add: r1)
  from rZRem_sure(1) [OF doc this, of "RawMember d"] mem
  have "RemoveJobMember (se_redis E) (RawMember d) s1 = (Inr True, snd (rZRem (se_redis E) SchedulerSetKey (RawMember d) s1))"
    by (cases "rZRem (se_redis E) SchedulerSetKey (RawMember d) s1") (auto simp: RemoveJobMember_def members_def r1 split: if_splits)
  with jd live cl r1(1) show ?thesis
    by (auto simp: processDue_def did_fire_def ClaimJob_def NewScheduler_def split: prod.splits option.splits goerr.splits)
qed

text \<open>
  A due job fires once (C9). However many instances take up a due one-shot job in turn, each
  with its own view of the clock, at most one executes it, whatever fails on the way to Redis.
  When Redis answers and nobody holds the claim, the first one does execute it.
\<close>

theorem due_job_once:
  assumes all: "\<forall>(E, now, h) \<in> set es. documented True (se_redis E) v
      \<and> (\<forall>s. RawMember d \<notin> members (v s) \<longrightarrow> RawMember d \<notin> members (v (se_during E s)))"
    and jd: "sj_JobData (due_Job d) = Some jd" "Interval jd \<le> 0"
  shows "fires es d s \<le> 1
    \<and> (es \<noteq> [] \<and> documented False (se_redis (fst (hd es))) v \<and> zset_key (v s) SchedulerSetKey \<and> RawMember d \<in> members (v s)
        \<and> keyspace (v s) (claimKeyPrefix @ jd_JobID jd) = None \<and> \<not> expired (fst (hd es)) jd (fst (snd (hd es)))
       \<longrightarrow> fires es d s = 1)"
proof -
  have once: "fires es d s \<le> 1" using all jd due.at_most_once [of es "(v, d)" s] by fastforce
  have "fires es d s \<ge> 1" if "es \<noteq> []" "documented False (se_redis (fst (hd es))) v" "zset_key (v s) SchedulerSetKey"
    "RawMember d \<in> members (v s)" "keyspace (v s) (claimKeyPrefix @ jd_JobID jd) = None" "\<not> expired (fst (hd es)) jd (fst (snd (hd es)))"
  proof -
    obtain E now h es' where "es = (E, now, h) # es'" using \<open>es \<noteq> []\<close> by (cases es) auto
    with that due_job_fires [of E v d jd s now h] jd show ?thesis by (simp add: take_up_def Let_def)
  qed
  with once show ?thesis by (metis le_antisym)
qed

definition demo_due :: DueJobsResult where
  "demo_due = (let sj = \<lparr>sj_JobID = ''j1'', sj_JobData = Some demo_job\<rparr> in \<lparr>RawMember = marshal_StoredJob sj, due_Job = sj\<rparr>)"

definition demo_store :: ref_state where
  "demo_store = \<lparr>entries = [(SchedulerSetKey, VZSet [(RawMember demo_due, 1000)])], pubs = []\<rparr>"

theorem due_job_once_witness:
  "fires [(job_env, 2000, ()), (job_env, 2001, ()), (job_env, 2002, ())] demo_due demo_store = 1"
proof -
  have doc: "documented False (se_redis job_env) ref_view" by (simp add: job_env_def ref_redis_documented)
  then have doc': "documented True (se_redis job_env) ref_view" by (rule documented_weaken)
  have "keyspace (ref_view demo_store) (claimKeyPrefix @ jd_JobID demo_job) = None"
    by (simp add: demo_store_def SchedulerSetKey_def claimKeyPrefix_def)
  moreover have "zset_key (ref_view demo_store) SchedulerSetKey" "RawMember demo_due \<in> members (ref_view demo_store)"
    by (simp_all add: demo_store_def members_def zset_at_def zset_key_def)
  moreover have "\<not> expired job_env demo_job 2000" by (simp add: expired_def demo_job_def)
  moreover have "sj_JobData (due_Job demo_due) = Some demo_job" "Interval demo_job \<le> 0" by (simp_all add: demo_due_def Let_def demo_job_def)
  ultimately show ?thesis
    using due_job_once [of "[(job_env, 2000, ()), (job_env, 2001, ()), (job_env, 2002, ())]" ref_view demo_due demo_job demo_store] doc doc'
    by (simp add: job_env_def)
qed

section \<open>Identifiers are unique\<close>

definition member_of :: "JobData \<Rightarrow> blob" where
  "member_of j = marshal_StoredJob \<lparr>sj_JobID = jd_JobID j, sj_JobData = Some j\<rparr>"

text \<open>The entries that carry an identifier, as \<^verbatim>\<open>jobExists\<close> sees them.\<close>

definition entries_of :: "string \<Rightarrow> blob set \<Rightarrow> blob set" where
  "entries_of i M = {m \<in> M. \<exists>sj. unmarshal_StoredJob m = Some sj \<and> sj_JobID sj = i}"

text \<open>At most one entry carries the identifier, and it decodes to the job it was written for.\<close>

definition one_entry :: "string \<Rightarrow> blob set \<Rightarrow> bool" where
  "one_entry i M \<longleftrightarrow> (\<forall>m \<in> entries_of i M. \<exists>j. go_JobData j \<and> jd_JobID j = i \<and> m = member_of j \<and> entries_of i M = {m})"

text \<open>What other clients may do meanwhile: anything that leaves the entries with the identifier alone.\<close>

definition leaves_id :: "('s \<Rightarrow> rdb) \<Rightarrow> string \<Rightarrow> 's \<Rightarrow> 's \<Rightarrow> bool" where
  "leaves_id v i s s' \<longleftrightarrow> entries_of i (members (v s')) = entries_of i (members (v s))"

lemma leaves_id_steps [simp]: "(leaves_id v i)\<^sup>*\<^sup>* = leaves_id v i"
  by (rule steps_of_preorder) (auto simp: leaves_id_def intro: reflpI transpI)

lemma one_entry_leaves: "leaves_id v i s s' \<Longrightarrow> one_entry i (members (v s)) \<Longrightarrow> one_entry i (members (v s'))"
  by (simp add: leaves_id_def one_entry_def)

lemma one_entry_subset: "one_entry i M \<Longrightarrow> entries_of i M' \<subseteq> entries_of i M \<Longrightarrow> one_entry i M'"
  unfolding one_entry_def by (metis subset_singletonD subsetD empty_iff singletonD)

lemma one_entry_minus: "one_entry i M \<Longrightarrow> one_entry i (M - A)"
  by (erule one_entry_subset) (auto simp: entries_of_def)

lemma member_back: "go_JobData j \<Longrightarrow> unmarshal_StoredJob (member_of j) = Some \<lparr>sj_JobID = jd_JobID j, sj_JobData = Some j\<rparr>"
  unfolding member_of_def by (intro StoredJob_back) simp

lemma one_entry_insert:
  assumes "entries_of i M = {}" and "go_JobData j" and "jd_JobID j = i"
  shows "one_entry i (insert (member_of j) M)"
proof -
  have "entries_of i (insert (member_of j) M) = {member_of j}"
    using assms member_back [OF assms(2)] by (auto simp: entries_of_def)
  with assms(2,3) show ?thesis by (auto simp: one_entry_def)
qed

lemma entries_of_other:
  assumes "go_JobData j" and "jd_JobID j \<noteq> i"
  shows "entries_of i (insert (member_of j) M) = entries_of i M" "entries_of i (M - {member_of j}) = entries_of i M"
  using assms member_back [OF assms(1)] by (auto simp: entries_of_def)

lemma has_job_iff: "has_job i ms \<longleftrightarrow> entries_of i (set ms) \<noteq> {}"
  by (induction ms) (auto simp: entries_of_def split: option.splits)

lemma rZAdd_members:
  assumes "documented net R v" and "rZAdd R SchedulerSetKey sc m s = (r, s')"
  shows "members (v s') = members (v s) \<or> members (v s') = insert m (members (v s))"
proof -
  have dom: "fst ` set ys = insert m (fst ` set z)" if "map_of ys = (map_of z)(m \<mapsto> sc)" for ys z :: "(blob \<times> int) list"
    using arg_cong [OF that, of dom] by (simp add: dom_map_of_conv_image_fst)
  have "v s' = v s \<or> (\<exists>ys. v s' = put_zset SchedulerSetKey ys (v s) \<and> map_of ys = (map_of (zset_at (v s) SchedulerSetKey))(m \<mapsto> sc))"
    using obeysD [OF doc_rZAdd [OF assms(1)] assms(2)] by (auto simp: doc_ZAdd_def typed_def split: if_splits)
  then show ?thesis
  proof (elim disjE exE conjE)
    fix ys assume "v s' = put_zset SchedulerSetKey ys (v s)" "map_of ys = (map_of (zset_at (v s) SchedulerSetKey))(m \<mapsto> sc)"
    then show ?thesis using dom [of ys "zset_at (v s) SchedulerSetKey"] by (simp add: members_def)
  qed simp
qed

lemma rZRange_members:
  assumes "documented net R v" and "rZRange R SchedulerSetKey s = (r, s')"
  shows "v s' = v s" and "r = Inr ms \<Longrightarrow> set ms = members (v s)"
  using obeysD [OF doc_rZRange [OF assms(1)] assms(2)]
  by (auto simp: doc_ZRange_def typed_def members_def split: if_splits)

lemma AddJob_one_entry:
  assumes doc: "documented net R v" and run: "within (leaves_id v i) (AddJob_cmds tp R (Some j)) s r s'"
    and go: "go_JobData j" "jd_JobID j = i" and ok: "one_entry i (members (v s))"
  shows "one_entry i (members (v s'))"
proof -
  let ?E = "leaves_id v i"
  have ret: "one_entry i (members (v s'))" if "within ?E (Ret x) s0 r s'" "one_entry i (members (v s0))" for x s0
    using within_Ret [OF that(1)] that(2) by (auto intro: one_entry_leaves)
  show ?thesis
  proof (cases "jd_JobID j = [] \<or> (\<exists>e. ParseExecuteAt tp (ExecuteAt j) = Inl e)")
    case True
    with run ret [OF _ ok] show ?thesis by (auto simp: AddJob_cmds_def split: if_splits)
  next
    case False
    then obtain at where at: "jd_JobID j \<noteq> []" "ParseExecuteAt tp (ExecuteAt j) = Inr at" by (cases "ParseExecuteAt tp (ExecuteAt j)") auto
    let ?add = "ask (rZAdd R SchedulerSetKey at (member_of j)) Ret"
    have run1: "within ?E (ask (rZRange R SchedulerSetKey) (\<lambda>r. case r of Inl e \<Rightarrow> Ret (Inl (Wrap ''zrange scheduler: '' e []))
        | Inr ms \<Rightarrow> if has_job i ms then Ret (Inl (Err (''Job with ID '' @ i @ '' already exists in the scheduler.''))) else ?add)) s r s'"
      using run at unfolding AddJob_cmds_def member_of_def option.case go(2) by simp
    obtain s1 g s2 where e1: "?E s s1" and zr: "rZRange R SchedulerSetKey s1 = (g, s2)"
      and rest: "within ?E (case g of Inl e \<Rightarrow> Ret (Inl (Wrap ''zrange scheduler: '' e []))
        | Inr ms \<Rightarrow> if has_job i ms then Ret (Inl (Err (''Job with ID '' @ i @ '' already exists in the scheduler.''))) else ?add) s2 r s'"
      by (rule within_ask [OF run1, unfolded leaves_id_steps])
    note zs = rZRange_members [OF doc zr]
    have ok2: "one_entry i (members (v s2))" using one_entry_leaves [OF e1 ok] zs(1) by simp
    show ?thesis
    proof (cases "\<exists>ms. g = Inr ms \<and> \<not> has_job i ms")
      case True
      with rest have w: "within ?E ?add s2 r s'" by auto
      from True zs have none: "entries_of i (members (v s2)) = {}" by (auto simp: has_job_iff)
      obtain s3 q s4 where e3: "?E s2 s3" and add: "rZAdd R SchedulerSetKey at (member_of j) s3 = (q, s4)" and fin: "within ?E (Ret q) s4 r s'"
        by (rule within_ask [OF w, unfolded leaves_id_steps])
      have "entries_of i (members (v s3)) = {}" using e3 none by (simp add: leaves_id_def)
      with rZAdd_members [OF doc add] one_entry_insert [OF _ go] have "one_entry i (members (v s4))"
        by (auto simp: one_entry_def)
      with fin ret show ?thesis by blast
    next
      case False
      with rest ret [OF _ ok2] show ?thesis by (auto split: sum.splits)
    qed
  qed
qed

lemma rZRem_members:
  assumes "documented net R v" and "rZRem R SchedulerSetKey m s = (r, s')"
  shows "members (v s') = members (v s) \<or> members (v s') = members (v s) - {m}"
  using rZRem_cases(1) [OF assms] by (auto simp: members_def)

lemma RemoveJob_one_entry:
  assumes doc: "documented net R v" and run: "within (leaves_id v i) (RemoveJob_cmds R k) s r s'"
    and ok: "one_entry i (members (v s))"
  shows "one_entry i (members (v s'))"
proof -
  let ?E = "leaves_id v i"
  have ret: "one_entry i (members (v s'))" if "within ?E (Ret x) s0 r s'" "one_entry i (members (v s0))" for x s0
    using within_Ret [OF that(1)] that(2) by (auto intro: one_entry_leaves)
  have first: "one_entry i (members (v s'))" if "within ?E (remove_first_cmds R k ms) s2 r s'" "one_entry i (members (v s2))" for ms s2
    using that
  proof (induction ms)
    case (Cons m ms)
    let ?rem = "ask (rZRem R SchedulerSetKey m) (\<lambda>r. case r of Inl e \<Rightarrow> Ret (Inl (Wrap ''zrem job: '' e [])) | Inr _ \<Rightarrow> Ret (Inr ()))"
    have "one_entry i (members (v s'))" if w: "within ?E ?rem s2 r s'"
    proof -
      obtain s3 q s4 where e3: "?E s2 s3" and rem: "rZRem R SchedulerSetKey m s3 = (q, s4)"
        and fin: "within ?E (case q of Inl e \<Rightarrow> Ret (Inl (Wrap ''zrem job: '' e [])) | Inr _ \<Rightarrow> Ret (Inr ())) s4 r s'"
        by (rule within_ask [OF w, unfolded leaves_id_steps])
      have "one_entry i (members (v s4))"
        using one_entry_leaves [OF e3 Cons.prems(2)] rZRem_members [OF doc rem] one_entry_minus by metis
      with fin ret show ?thesis by (auto split: sum.splits)
    qed
    with Cons show ?case by (auto split: option.splits if_splits)
  qed (use ret in auto)
  obtain s1 g s2 where e1: "?E s s1" and zr: "rZRange R SchedulerSetKey s1 = (g, s2)"
    and rest: "within ?E (case g of Inl e \<Rightarrow> Ret (Inl (Wrap ''zrange scheduler: '' e [])) | Inr ms \<Rightarrow> remove_first_cmds R k ms) s2 r s'"
    by (rule within_ask [OF run [unfolded RemoveJob_cmds_def], unfolded leaves_id_steps])
  have "one_entry i (members (v s2))" using one_entry_leaves [OF e1 ok] rZRange_members(1) [OF doc zr] by simp
  with rest ret first show ?thesis by (auto split: sum.splits)
qed

lemma reschedule_members:
  assumes "documented net (se_redis E) v"
  shows "\<exists>t. members (v (reschedule E jd now s)) = members (v s)
    \<or> members (v (reschedule E jd now s)) = insert (member_of (jd\<lparr>ExecuteAt := t\<rparr>)) (members (v s))"
proof -
  let ?t = "se_format E (wrap64 (now + Interval jd))"
  obtain r s' where run: "rZAdd (se_redis E) SchedulerSetKey (wrap64 (now + Interval jd)) (member_of (jd\<lparr>ExecuteAt := ?t\<rparr>)) s = (r, s')"
    by fastforce
  have "AddRescheduledJob (se_redis E) \<lparr>sj_JobID = jd_JobID jd, sj_JobData = Some (jd\<lparr>ExecuteAt := ?t\<rparr>)\<rparr> (wrap64 (now + Interval jd)) s = (r, s')"
    using run by (simp add: AddRescheduledJob_def member_of_def)
  then show ?thesis
    using rZAdd_members [OF assms run] by (intro exI [of _ ?t]) (auto simp: reschedule_def Let_def)
qed

lemma processDue_one_entry:
  assumes doc: "documented net (se_redis E) v" and meanwhile: "\<And>s. leaves_id v i s (se_during E s)"
    and due: "unmarshal_StoredJob (RawMember d) = Some (due_Job d)" "sj_JobID (due_Job d) = i"
    and run: "processDue E d now x = (p, x')" and ok: "one_entry i (members (v (sd_rds x)))"
  shows "one_entry i (members (v (sd_rds x')))"
proof -
  let ?m = "RawMember d" and ?R = "se_redis E" and ?s = "sd_rds x"
  have drop: "one_entry i (members (v s2))" if "RemoveJobMember ?R ?m s1 = (r, s2)" "one_entry i (members (v s1))" for r s1 s2
    using RemoveJobMember_members(1) [OF doc that(1)] that(2) one_entry_minus by metis
  have claim: "one_entry i (members (v s1))" if "ClaimJob ?R k inst ttl ?s = (r, s1)" for r k inst ttl s1
    using ClaimJob_members [OF doc that] ok by simp
  have again: "one_entry i (members (v (reschedule E jd now (se_during E s2)))) \<and> one_entry i (members (v (se_during E s2)))"
    if jd: "sj_JobData (due_Job d) = Some jd" and rm: "RemoveJobMember ?R ?m s1 = (Inr True, s2)"
      and ok1: "one_entry i (members (v s1))" for jd s1 s2
  proof -
    from RemoveJobMember_members(2) [OF doc rm] have m: "?m \<in> members (v s1)" "members (v s2) = members (v s1) - {?m}" by auto
    then have "?m \<in> entries_of i (members (v s1))" using due by (auto simp: entries_of_def)
    with ok1 obtain j where j: "go_JobData j" "jd_JobID j = i" "?m = member_of j" and one: "entries_of i (members (v s1)) = {?m}"
      by (auto simp: one_entry_def)
    have "due_Job d = \<lparr>sj_JobID = jd_JobID j, sj_JobData = Some j\<rparr>" using due(1) member_back [OF j(1)] j(3) by simp
    then have "jd = j" using jd by simp
    have none: "entries_of i (members (v (se_during E s2))) = {}"
      using meanwhile [of s2] one m(2) by (auto simp: leaves_id_def entries_of_def)
    have "go_JobData (jd\<lparr>ExecuteAt := t\<rparr>)" "jd_JobID (jd\<lparr>ExecuteAt := t\<rparr>) = i" for t
      using j \<open>jd = j\<close> by (simp_all add: go_JobData_def)
    with one_entry_insert [OF none] reschedule_members [OF doc, of jd now "se_during E s2"] none show ?thesis
      by (auto simp: one_entry_def)
  qed
  from run drop [OF prod.collapse [symmetric] ok] claim drop [OF _ claim] again [OF _ _ claim] show ?thesis
    by (auto simp: processDue_def split: option.splits if_splits sum.splits prod.splits bool.splits goerr.splits)
qed

text \<open>
  What happens to one identifier in a cluster of instances \<open>Es\<close>: additions and removals, interrupted between their commands; the
  processing of an entry that some instance has listed at some time before, with what other clients
  do during the job's request; and anything that leaves the entries with the identifier alone. These
  follow one another.
\<close>

inductive job_step :: "('s \<Rightarrow> rdb) \<Rightarrow> 's redis \<Rightarrow> ('s, 'h) sched_env set \<Rightarrow> string \<Rightarrow> 's \<Rightarrow> 's \<Rightarrow> bool"
  for v R Es i where
  js_add: "within (leaves_id v i) (AddJob_cmds tp R (Some j)) s r s' \<Longrightarrow> go_JobData j \<Longrightarrow> jd_JobID j = i \<Longrightarrow> job_step v R Es i s s'"
| js_remove: "within (leaves_id v i) (RemoveJob_cmds R i) s r s' \<Longrightarrow> job_step v R Es i s s'"
| js_fire: "processDue E d now x = (p, x') \<Longrightarrow> E \<in> Es \<Longrightarrow> se_redis E = R \<Longrightarrow> (\<And>s. leaves_id v i s (se_during E s)) \<Longrightarrow>
     unmarshal_StoredJob (RawMember d) = Some (due_Job d) \<Longrightarrow> sj_JobID (due_Job d) = i \<Longrightarrow> job_step v R Es i (sd_rds x) (sd_rds x')"
| js_other: "leaves_id v i s s' \<Longrightarrow> job_step v R Es i s s'"

lemma job_step_one_entry:
  assumes doc: "documented net R v" and "job_step v R Es i s s'" and "one_entry i (members (v s))"
  shows "one_entry i (members (v s'))"
  using assms(2,3)
proof (cases rule: job_step.cases)
  case (js_fire E d now x p x')
  with assms show ?thesis by (auto intro: processDue_one_entry)
qed (use doc in \<open>blast intro: AddJob_one_entry RemoveJob_one_entry one_entry_leaves\<close>)+

lemma one_entry_none: "entries_of i M = {} \<Longrightarrow> one_entry i M"
  by (simp add: one_entry_def)

interpretation store: inv_system "\<lambda>(v, R, Es, i). documented True R v" "\<lambda>(v, R, Es, i) s. entries_of i (members (v s)) = {}"
  "\<lambda>(v, R, Es, i). job_step v R Es i" "\<lambda>(v, R, Es, i) s. one_entry i (members (v s))"
  by unfold_locales (auto intro: job_step_one_entry one_entry_none)

text \<open>Additions and removals of other identifiers leave the entries with this one alone, command by command.\<close>

lemma other_ids_leave:
  assumes doc: "documented net R v" and "go_JobData j" "jd_JobID j \<noteq> i" "k \<noteq> i"
  shows "guarantees (leaves_id v i) (AddJob_cmds tp R (Some j))" "guarantees (leaves_id v i) (RemoveJob_cmds R k)"
proof -
  have zr: "leaves_id v i s (snd (rZRange R SchedulerSetKey s))" for s
    using rZRange_members(1) [OF doc prod.collapse [symmetric], of s] by (simp add: leaves_id_def)
  have add: "leaves_id v i s (snd (rZAdd R SchedulerSetKey at (member_of j) s))" for at s
    using rZAdd_members [OF doc prod.collapse [symmetric], of at "member_of j" s] entries_of_other [OF assms(2,3)]
    unfolding leaves_id_def by metis
  with zr show "guarantees (leaves_id v i) (AddJob_cmds tp R (Some j))"
    unfolding AddJob_cmds_def member_of_def [symmetric] by (simp add: guarantees_ask split: sum.splits)
  have rem: "leaves_id v i s (snd (rZRem R SchedulerSetKey m s))" if "unmarshal_StoredJob m = Some sj" "sj_JobID sj = k" for m sj s
  proof -
    have "entries_of i (M - {m}) = entries_of i M" for M using that assms(4) by (auto simp: entries_of_def)
    with rZRem_members [OF doc prod.collapse [symmetric], of m s] show ?thesis unfolding leaves_id_def by metis
  qed
  have "guarantees (leaves_id v i) (remove_first_cmds R k ms)" for ms
    using rem by (induction ms) (auto simp: guarantees_ask split: option.splits sum.splits)
  then show "guarantees (leaves_id v i) (RemoveJob_cmds R k)"
    using zr by (auto simp: RemoveJob_cmds_def guarantees_ask split: sum.splits)
qed

text \<open>
  Job identifiers stay unique (C23). When the additions, removals and executions of jobs with one identifier
  do not overlap one another, rescheduled interval jobs included, while other clients do anything
  that leaves the entries with this identifier alone, between the commands of an addition or a
  removal and during a job's request too, and whatever fails on the way to Redis, at most one
  entry of the store carries the identifier and it decodes to the job it was written for. The
  commands of additions and removals of every other identifier are such changes.
\<close>

theorem job_ids_unique:
  assumes "documented True R v" and "(job_step v R Es i)\<^sup>*\<^sup>* s s'" and "entries_of i (members (v s)) = {}"
  shows "(\<forall>m \<in> entries_of i (members (v s')). \<exists>j. go_JobData j \<and> jd_JobID j = i \<and> m = member_of j
      \<and> entries_of i (members (v s')) = {m})
    \<and> (\<forall>tp j k. go_JobData j \<and> jd_JobID j \<noteq> i \<and> k \<noteq> i \<longrightarrow>
        guarantees (leaves_id v i) (AddJob_cmds tp R (Some j)) \<and> guarantees (leaves_id v i) (RemoveJob_cmds R k))"
  using store.reachable_inv [of "(v, R, Es, i)" s s'] other_ids_leave [OF assms(1)] assms by (auto simp: one_entry_def)

definition empty_store :: ref_state where "empty_store = \<lparr>entries = [], pubs = []\<rparr>"

text \<open>A job is added twice, the second time in vain.\<close>

theorem job_ids_unique_witness:
  "\<exists>s'. (job_step ref_view ref_redis {job_env} ''j1'')\<^sup>*\<^sup>* empty_store s'
     \<and> (\<forall>m \<in> entries_of ''j1'' (members (ref_view s')). entries_of ''j1'' (members (ref_view s')) = {m})"
proof -
  let ?add = "alone (AddJob_cmds (se_time job_env) ref_redis (Some demo_job))"
  let ?s = "snd (?add (snd (?add empty_store)))" and ?step = "job_step ref_view ref_redis {job_env} ''j1''"
  have id: "jd_JobID demo_job = ''j1''" by (simp add: demo_job_def)
  have "?step s (snd (?add s))" for s by (rule js_add [OF within_alone go_demo id])
  then have run: "?step\<^sup>*\<^sup>* empty_store ?s" by (meson converse_rtranclp_into_rtranclp r_into_rtranclp)
  have start: "entries_of ''j1'' (members (ref_view empty_store)) = {}"
    by (simp add: empty_store_def members_def zset_at_def entries_of_def)
  from job_ids_unique [OF documented_weaken [OF ref_redis_documented] run start] run show ?thesis by blast
qed

section \<open>Which jobs crash the process\<close>

lemma precheck_no_panic: "precheck E jd \<noteq> Some (Panic m)"
proof
  assume "precheck E jd = Some (Panic m)"
  then obtain g where "Guard_Validate (se_net E) g (APIEndpoint jd) = Some (Panic m)"
    by (auto simp: precheck_def split: option.splits)
  then have "errors_Is (Panic m) ErrBlocked" using Guard_Validate_outcome by blast
  then show False by simp
qed

lemma doRequest_panic:
  "fst (doRequest E jd h) = Some (Panic m) \<Longrightarrow> Payload jd = None \<and> se_build E (Method jd) (APIEndpoint jd) = None"
  by (auto simp: doRequest_def split: option.splits if_splits prod.splits sum.splits)

lemma attempt_loop_panic:
  assumes "Payload jd \<noteq> None \<or> se_build E (Method jd) (APIEndpoint jd) \<noteq> None"
  shows "e \<noteq> Some (Panic m) \<Longrightarrow> fst (attempt_loop E jd d k attempt e h) \<noteq> Some (Panic m)"
proof (induction "nat (k - attempt + 1)" arbitrary: attempt e h rule: less_induct)
  case less
  obtain r h1 where run: "doRequest E jd h = (r, h1)" by fastforce
  have r: "r \<noteq> Some (Panic m')" for m' using doRequest_panic [of E jd h m'] run assms by auto
  obtain b h2 where sl: "se_sleep E d h1 = (b, h2)" by fastforce
  have "fst (attempt_loop E jd d k (attempt + 1) r h2) \<noteq> Some (Panic m)" if "attempt < k"
    using that r by (intro less.hyps) auto
  with run r sl less.prems show ?case
    by (subst attempt_loop.simps) (auto split: option.splits goerr.splits bool.splits)
qed

text \<open>
  A job without a payload crashes the process. Executing a job panics exactly when it passes the
  check of its URL, its request can be built and it has no payload. The validation of a job
  does not look at the payload, so a client may submit such a job.
\<close>

theorem job_without_payload_panics:
  "((\<exists>m h'. executeJob E jd h = (Some (Panic m), h')) \<longleftrightarrow>
      precheck E jd = None \<and> se_build E (Method jd) (APIEndpoint jd) = None \<and> Payload jd = None)
   \<and> validateJobData tp (jd\<lparr>Payload := None\<rparr>) = validateJobData tp jd"
proof -
  have sel: "jd_JobID (jd\<lparr>Payload := None\<rparr>) = jd_JobID jd" "APIEndpoint (jd\<lparr>Payload := None\<rparr>) = APIEndpoint jd"
    "Method (jd\<lparr>Payload := None\<rparr>) = Method jd" "ExecuteAt (jd\<lparr>Payload := None\<rparr>) = ExecuteAt jd"
    "ValidUntil (jd\<lparr>Payload := None\<rparr>) = ValidUntil jd" "RetryPolicy (jd\<lparr>Payload := None\<rparr>) = RetryPolicy jd" by simp_all
  have val: "validateJobData tp (jd\<lparr>Payload := None\<rparr>) = validateJobData tp jd"
    unfolding validateJobData_def sel by (rule refl)
  have "executeJob E jd h = (Some nil_deref, h)"
    if "precheck E jd = None" "se_build E (Method jd) (APIEndpoint jd) = None" "Payload jd = None"
  proof -
    have "doRequest E jd h = (Some nil_deref, h)" using that by (simp add: doRequest_def)
    moreover have "1 \<le> max_attempts jd" by (auto simp: max_attempts_def split: option.splits)
    ultimately show ?thesis using that by (simp add: executeJob_def attempt_loop.simps nil_deref_def)
  qed
  moreover have "precheck E jd = None \<and> se_build E (Method jd) (APIEndpoint jd) = None \<and> Payload jd = None"
    if "executeJob E jd h = (Some (Panic m), h')" for m h'
    using that precheck_no_panic [of E jd m]
      attempt_loop_panic [of jd E None m "retry_delay jd" "max_attempts jd" 1 h]
    by (cases "precheck E jd"; cases "Payload jd"; cases "se_build E (Method jd) (APIEndpoint jd)") (auto simp: executeJob_def)
  ultimately show ?thesis using val by (auto simp: nil_deref_def)
qed

section \<open>Interval jobs\<close>

text \<open>
  An interval job comes back (C35). When Redis answers, an instance that fires a due interval job leaves
  the store with that entry replaced by the same job, due one interval after the tick, unless it
  would by then be past its \<^verbatim>\<open>validUntil\<close>, in which case the entry is only removed. A failing
  endpoint changes nothing of this.
\<close>

theorem interval_job_returns:
  assumes doc: "documented False (se_redis E) v" and quiet: "se_during E = (\<lambda>s. s)"
    and jd: "sj_JobData (due_Job d) = Some jd" "0 < Interval jd" "int64 (now + Interval jd)" "\<not> expired E jd now"
    and set: "zset_key (v s) SchedulerSetKey" "RawMember d \<in> members (v s)"
    and free: "keyspace (v s) (claimKeyPrefix @ jd_JobID jd) = None"
    and run: "processDue E d now (NewScheduler s h) = (None, x)"
  shows "map_of (zset_at (v (sd_rds x)) SchedulerSetKey) =
    (let rest = (map_of (zset_at (v s) SchedulerSetKey))(RawMember d := None) in
     if expired E jd (now + Interval jd) then rest
     else rest(member_of (jd\<lparr>ExecuteAt := se_format E (now + Interval jd)\<rparr>) \<mapsto> now + Interval jd))"
proof -
  let ?m = "RawMember d" and ?R = "se_redis E" and ?next = "now + Interval jd"
  have w: "wrap64 ?next = ?next" using jd(3) by (intro wrap64_id) (simp_all add: int64_def)
  obtain r1 s1 where cl: "rSetNX ?R (claimKeyPrefix @ jd_JobID jd) (InstanceID (se_cfg E)) 30000 s = (r1, s1)" by fastforce
  have r1: "r1 = Inr True" "v s1 = put (claimKeyPrefix @ jd_JobID jd) (Some (VStr (InstanceID (se_cfg E)) (ttl_of 30000))) (v s)"
    using obeys_sureD [OF doc_rSetNX [OF doc], of "claimKeyPrefix @ jd_JobID jd" "InstanceID (se_cfg E)" 30000 s] cl free
    by (simp_all add: doc_SetNX_def)
  define s2 where "s2 = snd (rZRem ?R SchedulerSetKey ?m s1)"
  have key1: "zset_key (v s1) SchedulerSetKey" using set(1) by (simp add: r1)
  have rm: "RemoveJobMember ?R ?m s1 = (Inr True, s2)"
    using rZRem_sure(1) [OF doc key1, of ?m] set(2)
    by (cases "rZRem ?R SchedulerSetKey ?m s1") (auto simp: RemoveJobMember_def members_def r1 s2_def split: if_splits)
  have "zset_at (v s2) SchedulerSetKey = filter (\<lambda>p. fst p \<noteq> ?m) (zset_at (v s) SchedulerSetKey)" "zset_key (v s2) SchedulerSetKey"
    using rZRem_sure(2) [OF doc key1, of ?m] by (simp_all add: s2_def r1)
  then have z2: "map_of (zset_at (v s2) SchedulerSetKey) = (map_of (zset_at (v s) SchedulerSetKey))(?m := None)" "zset_key (v s2) SchedulerSetKey"
    by (simp_all add: map_of_remove)
  have x: "sd_rds x = reschedule E jd now s2"
    using run jd(1,4) cl r1(1) rm quiet
    by (auto simp: processDue_def ClaimJob_def NewScheduler_def split: prod.splits option.splits goerr.splits)
  have "map_of (zset_at (v (snd (rZAdd ?R SchedulerSetKey sc m s2))) SchedulerSetKey) = (map_of (zset_at (v s2) SchedulerSetKey))(m \<mapsto> sc)" for sc m
    using rZAdd_sure(2) [OF doc z2(2), of sc m] by auto
  with z2(1) jd(2) show ?thesis
    by (simp add: x reschedule_def w Let_def AddRescheduledJob_def member_of_def)
qed

definition demo_interval :: JobData where "demo_interval = demo_job\<lparr>Interval := 60000\<rparr>"

definition demo_due2 :: DueJobsResult where
  "demo_due2 = \<lparr>RawMember = member_of demo_interval, due_Job = \<lparr>sj_JobID = ''j1'', sj_JobData = Some demo_interval\<rparr>\<rparr>"

definition demo_store2 :: ref_state where
  "demo_store2 = \<lparr>entries = [(SchedulerSetKey, VZSet [(member_of demo_interval, 1000)])], pubs = []\<rparr>"

theorem interval_job_returns_witness:
  "map_of (zset_at (ref_view (sd_rds (snd (processDue job_env demo_due2 2000 (NewScheduler demo_store2 ()))))) SchedulerSetKey)
     (member_of (demo_interval\<lparr>ExecuteAt := ''t2''\<rparr>)) = Some 62000"
proof -
  obtain p x where run: "processDue job_env demo_due2 2000 (NewScheduler demo_store2 ()) = (p, x)" by fastforce
  have "Payload demo_interval \<noteq> None" by (simp add: demo_interval_def demo_job_def)
  then have "fst (executeJob job_env demo_interval ()) \<noteq> Some (Panic m)" for m
    using attempt_loop_panic [of demo_interval job_env None m "retry_delay demo_interval" "max_attempts demo_interval" 1 "()"]
    by (simp add: executeJob_def precheck_def job_env_def)
  then have "p = None" using run
    by (fastforce simp: processDue_def demo_due2_def NewScheduler_def split: prod.splits sum.splits bool.splits option.splits goerr.splits if_splits)
  have "documented False (se_redis job_env) ref_view" by (simp add: job_env_def ref_redis_documented)
  moreover have "\<not> expired job_env demo_interval n" for n by (simp add: expired_def demo_interval_def demo_job_def)
  moreover have "zset_key (ref_view demo_store2) SchedulerSetKey" "RawMember demo_due2 \<in> members (ref_view demo_store2)"
    "keyspace (ref_view demo_store2) (claimKeyPrefix @ jd_JobID demo_interval) = None"
    by (simp_all add: demo_store2_def demo_due2_def members_def zset_at_def zset_key_def SchedulerSetKey_def claimKeyPrefix_def)
  moreover have "Interval demo_interval = 60000" "int64 62000" "se_format job_env 62000 = ''t2''" "se_during job_env = (\<lambda>s. s)"
    "sj_JobData (due_Job demo_due2) = Some demo_interval"
    by (simp_all add: demo_interval_def int64_def min_int64_def max_int64_def job_env_def demo_due2_def)
  ultimately show ?thesis
    using interval_job_returns [of job_env ref_view demo_due2 demo_interval 2000 demo_store2 "()" x] run \<open>p = None\<close> by simp
qed

section \<open>Where the loop spins\<close>

lemma NextDueAt_sure:
  assumes doc: "documented False R v" and key: "zset_key (v s) SchedulerSetKey" and "zset_at (v s) SchedulerSetKey = (m, sc) # rest"
  shows "fst (NextDueAt R s) = Inr (sc, True)" and "v (snd (NextDueAt R s)) = v s"
  using obeys_sureD [OF doc_rZFirst [OF doc], of SchedulerSetKey s] assms(2,3)
  by (cases "rZFirst R SchedulerSetKey s"; simp add: NextDueAt_def doc_ZFirst_def typed_def)+

lemma JobCount_sure:
  assumes "documented False R v" and "zset_key (v s) SchedulerSetKey"
  shows "fst (JobCount R s) = Inr (int (length (zset_at (v s) SchedulerSetKey)))" and "v (snd (JobCount R s)) = v s"
  using obeys_sureD [OF doc_rZCard [OF assms(1)], of SchedulerSetKey s] assms(2)
  by (simp_all add: JobCount_def doc_ZCard_def typed_def)

lemma ListDueJobs_sure:
  assumes "documented False R v" and "zset_key (v s) SchedulerSetKey"
  shows "fst (ListDueJobs R now s) =
      Inr (parse_due (map fst (filter (\<lambda>p. 0 \<le> snd p \<and> snd p \<le> now) (zset_at (v s) SchedulerSetKey))))"
    and "v (snd (ListDueJobs R now s)) = v s"
  using obeys_sureD [OF doc_rZRangeByScore [OF assms(1)], of SchedulerSetKey 0 now s] assms(2)
  by (cases "rZRangeByScore R SchedulerSetKey 0 now s"; simp add: ListDueJobs_def doc_ZRangeByScore_def typed_def)+

text \<open>
  A job from before 1970 keeps the loop busy. The loop waits for the entry with the lowest score but
  lists only entries with scores from 0. Once a job with a negative time is first, no turn of the
  loop ever waits again, and as long as nothing else is due no turn changes anything.
\<close>

theorem job_before_1970_spins:
  assumes doc: "documented False (se_redis E) v" and key: "zset_key (v (sd_rds x)) SchedulerSetKey"
    and first: "zset_at (v (sd_rds x)) SchedulerSetKey = (m, sc) # rest" "sc < 0"
    and later: "list_all (\<lambda>p. list_all (\<lambda>t. fst t < snd p) turns) rest" and clock: "list_all (\<lambda>t. 0 \<le> fst t) turns"
  shows "fst (sched_Run E turns x) = replicate (length turns) Again \<and> v (sd_rds (snd (sched_Run E turns x))) = v (sd_rds x)"
  using key first(1) later clock
proof (induction turns arbitrary: x)
  case Nil
  then show ?case by simp
next
  case (Cons t turns)
  obtain now ev where t: "t = (now, ev)" by fastforce
  obtain r1 s1 where n: "NextDueAt (se_redis E) (sd_rds x) = (r1, s1)" by fastforce
  with NextDueAt_sure [OF doc Cons.prems(1,2)] have n': "r1 = Inr (sc, True)" "v s1 = v (sd_rds x)" by auto
  obtain r2 s2 where c: "JobCount (se_redis E) s1 = (r2, s2)" by fastforce
  have key1: "zset_key (v s1) SchedulerSetKey" using Cons.prems(1) n'(2) by simp
  from JobCount_sure [OF doc key1] c have c': "\<exists>k. r2 = Inr k" "v s2 = v (sd_rds x)" using n'(2) by auto
  obtain r3 s3 where l: "ListDueJobs (se_redis E) now s2 = (r3, s3)" by fastforce
  have key2: "zset_key (v s2) SchedulerSetKey" using Cons.prems(1) c'(2) by simp
  have none: "filter (\<lambda>p. 0 \<le> snd p \<and> snd p \<le> now) (zset_at (v s2) SchedulerSetKey) = []"
    using Cons.prems(2,3) first(2) c'(2) t by (auto simp: filter_empty_conv list_all_iff)
  from ListDueJobs_sure [OF doc key2, of now] l none have l': "r3 = Inr []" "v s3 = v (sd_rds x)" using c'(2) by auto
  have "\<not> 0 \<le> sc - now" using first(2) Cons.prems(4) t by simp
  then obtain x1 where step: "run_turn E now ev x = (Again, x1)" "sd_rds x1 = s3"
    using n n'(1) c c'(1) l l'(1) by (auto simp: run_turn_def tick_def Let_def)
  have "fst (sched_Run E turns x1) = replicate (length turns) Again \<and> v (sd_rds (snd (sched_Run E turns x1))) = v (sd_rds x1)"
    using Cons.prems step(2) l'(2) by (intro Cons.IH) (auto simp: list_all_iff)
  with step l'(2) t show ?case by (auto split: prod.splits)
qed

definition ancient_store :: ref_state where
  "ancient_store = \<lparr>entries = [(SchedulerSetKey, VZSet [(member_of demo_job, -5)])], pubs = []\<rparr>"

theorem job_before_1970_spins_witness:
  "fst (sched_Run job_env [(1000, EvTimer), (1000, EvTimer), (1001, EvTimer)] (NewScheduler ancient_store ())) = [Again, Again, Again]"
proof -
  have "documented False (se_redis job_env) ref_view" by (simp add: job_env_def ref_redis_documented)
  moreover have "zset_key (ref_view ancient_store) SchedulerSetKey" "zset_at (ref_view ancient_store) SchedulerSetKey = [(member_of demo_job, -5)]"
    by (simp_all add: ancient_store_def zset_key_def zset_at_def)
  ultimately show ?thesis
    using job_before_1970_spins [of job_env ref_view "NewScheduler ancient_store ()" "member_of demo_job" "-5" "[]"
        "[(1000, EvTimer), (1000, EvTimer), (1001, EvTimer)]"]
    by (simp add: NewScheduler_def numeral_3_eq_3)
qed

text \<open>
  A claim outlives its fire. The claim on a job is never released, only left to expire after 30
  seconds. While it is there, every instance that finds the job due passes it over and changes
  nothing, so an interval below 30 seconds is not kept.
\<close>

theorem claim_blocks_next_fire:
  assumes doc: "documented True (se_redis E) v" and jd: "sj_JobData (due_Job d) = Some jd" "\<not> expired E jd now"
    and held: "str_at (v (sd_rds x)) (claimKeyPrefix @ jd_JobID jd) = Some inst"
  shows "\<exists>s n. processDue E d now x = (None, x\<lparr>sd_rds := s, SchedulerClaimLost := n\<rparr>) \<and> v s = v (sd_rds x)"
proof -
  obtain r1 s1 where cl: "rSetNX (se_redis E) (claimKeyPrefix @ jd_JobID jd) (InstanceID (se_cfg E)) 30000 (sd_rds x) = (r1, s1)" by fastforce
  from rSetNX_taken [OF doc cl held] have "v s1 = v (sd_rds x)" "r1 \<noteq> Inr True" by auto
  show ?thesis
  proof (cases r1)
    case (Inl e)
    then show ?thesis using jd cl \<open>v s1 = v (sd_rds x)\<close>
      by (intro exI [of _ s1] exI [of _ "SchedulerClaimLost x"]) (simp add: processDue_def ClaimJob_def)
  next
    case (Inr b)
    then show ?thesis using jd cl \<open>v s1 = v (sd_rds x)\<close> \<open>r1 \<noteq> Inr True\<close>
      by (intro exI [of _ s1] exI [of _ "SchedulerClaimLost x + 1"]) (simp add: processDue_def ClaimJob_def)
  qed
qed

theorem claim_blocks_next_fire_witness:
  "\<exists>s n. processDue job_env demo_due 2000 (NewScheduler (ref_put (claimKeyPrefix @ ''j1'') (Some (VStr ''i2'' (Some 30000))) demo_store) ())
     = (None, (NewScheduler (ref_put (claimKeyPrefix @ ''j1'') (Some (VStr ''i2'' (Some 30000))) demo_store) ())\<lparr>sd_rds := s, SchedulerClaimLost := n\<rparr>)
     \<and> ref_view s = ref_view (ref_put (claimKeyPrefix @ ''j1'') (Some (VStr ''i2'' (Some 30000))) demo_store)"
proof -
  have "documented True (se_redis job_env) ref_view" by (simp add: job_env_def documented_weaken [OF ref_redis_documented])
  moreover have "sj_JobData (due_Job demo_due) = Some demo_job" "\<not> expired job_env demo_job 2000"
    by (simp_all add: demo_due_def Let_def expired_def demo_job_def)
  moreover have "jd_JobID demo_job = ''j1''" by (simp add: demo_job_def)
  ultimately show ?thesis
    using claim_blocks_next_fire [of job_env ref_view demo_due demo_job 2000
        "NewScheduler (ref_put (claimKeyPrefix @ ''j1'') (Some (VStr ''i2'' (Some 30000))) demo_store) ()" "''i2''"]
    by (simp add: NewScheduler_def str_at_def)
qed

end
