(* ===== verification/Session.thy ===== *)
theory Session
  imports AppServer SchedProps
begin

text \<open>
  A served connection as a whole: what its frames may touch, that its cleanup leaves the hub and
  the subscription tables as if it had never been there, how the server started from the
  environment authenticates, and what a shutdown and a failing subsystem do.
\<close>

section \<open>What the frames of one connection touch\<close>

text \<open>
  From \<open>y\<close> to \<open>y'\<close> the registrations of the hub, every other connection and its subscriptions and
  the identity of \<open>c\<close> stay as they are, and the invariants of \<open>c\<close> and of the bus are kept.
\<close>

definition kept :: "cref \<Rightarrow> (cref, hub_world, 's) inst \<Rightarrow> (cref, hub_world, 's) inst \<Rightarrow> bool" where
  "kept c y y' \<longleftrightarrow> users (world y') = users (world y)
     \<and> (\<forall>d. d \<noteq> c \<longrightarrow> heap (world y') d = heap (world y) d)
     \<and> userKey (heap (world y') c) = userKey (heap (world y) c)
     \<and> (conn_inv (heap (world y) c) \<longrightarrow> conn_inv (heap (world y') c))
     \<and> (bus_inv (bus y) \<longrightarrow> bus_inv (bus y'))
     \<and> (\<forall>t. filter (\<lambda>d. d \<noteq> c) (topic_subs (bus y') t) = filter (\<lambda>d. d \<noteq> c) (topic_subs (bus y) t))"

lemma kept_refl [simp, intro]: "kept c y y"
  by (simp add: kept_def)

lemma kept_trans: "kept c x y \<Longrightarrow> kept c y z \<Longrightarrow> kept c x z"
  by (simp add: kept_def)

lemma kept_rds: "bus y' = bus y \<Longrightarrow> world y' = world y \<Longrightarrow> kept c y y'"
  by (simp add: kept_def)

lemma kept_conn_do:
  "(\<And>cn. userKey (f cn) = userKey cn) \<Longrightarrow> (\<And>cn. conn_inv cn \<Longrightarrow> conn_inv (f cn)) \<Longrightarrow> kept c (core x) (core (conn_do c f x))"
  by (simp add: kept_def conn_do_def Let_def)

lemma userKey_writer: "writer_step ok cn = Some cn' \<Longrightarrow> userKey cn' = userKey cn"
  by (auto simp: writer_step_def Let_def split: list.splits frameKind.splits if_splits)

lemma userKey_SendNow: "SendNow p q msg cn = Some cn' \<Longrightarrow> userKey cn' = userKey cn"
  by (auto simp: SendNow_def Let_def enqueue_def split: if_splits)

lemma userKey_send_now [simp]: "userKey (send_now D j cn) = userKey cn"
  by (auto simp: send_now_def split: option.splits) (metis userKey_writer userKey_SendNow)+

lemma send_now_inv: "conn_inv cn \<Longrightarrow> conn_inv (send_now D j cn)"
  by (auto simp: send_now_def split: option.splits intro: SendNow_inv writer_step_inv)

lemma kept_reply: "kept c (core x) (core (reply D c j x))"
  using kept_conn_do [of "send_now D j" c x] by (simp add: conn_do_def reply_def send_now_inv)

lemma kept_redis: "redis_do cmd x = (r, x') \<Longrightarrow> kept c (core x) (core x')"
  by (auto simp: redis_do_def set_rds_def split: prod.splits intro: kept_rds)

lemma kept_authorize: "authorize D c act t x = (r, x') \<Longrightarrow> kept c (core x) (core x')"
  by (simp add: authorize_core kept_rds)

lemma kept_allow: "allow D bucket c cfg x = (r, x') \<Longrightarrow> kept c (core x) (core x')"
  by (auto simp: allow_def Let_def dest: kept_redis [where c = c])

lemma kept_subscribe: "kept c (core x) (core (bus_do (AddLocalSubscription t c) x))"
  by (simp add: kept_def bus_do_def AddLocalSubscription_def addLocal_inv topic_subs_addLocal)

lemma kept_unsubscribe: "kept c (core x) (core (bus_do (RemoveLocalSubscription t c) x))"
  by (simp add: kept_def bus_do_def RemoveLocal_inv topic_subs_RemoveLocal)

lemma topic_subs_fields [simp]:
  "topic_subs (b\<lparr>PublishTotal := a\<rparr>) t = topic_subs b t" "topic_subs (b\<lparr>JudgeDecisions := l\<rparr>) t = topic_subs b t"
  by (simp_all add: topic_subs_def)

lemma kept_PublishTopic: "PublishTopic env t d rt y = (r, y') \<Longrightarrow> kept c y y'"
  using PublishTopic_bus_inv [of y env t d rt]
  by (auto simp: kept_def PublishTopic_def Let_def split: prod.splits option.splits sum.splits)

lemma Send_inv: "conn_inv cn \<Longrightarrow> conn_inv (Send msg cn)"
  by (simp add: Send_def SendReporting_inv)

lemma send_msg_world:
  "users (send_msg (hub_subscribers marshal) c t b m w) = users w"
  "d \<noteq> c \<Longrightarrow> heap (send_msg (hub_subscribers marshal) c t b m w) d = heap w d"
  "userKey (heap (send_msg (hub_subscribers marshal) c t b m w) c) = userKey (heap w c)"
  "conn_inv (heap w c) \<Longrightarrow> conn_inv (heap (send_msg (hub_subscribers marshal) c t b m w) c)"
  by (simp_all add: send_msg_def hub_subscribers_def conn_Send_def conn_frame Send_inv)

lemma fold_send_msg_world:
  "users (fold (send_msg (hub_subscribers marshal) c t b) ms w) = users w \<and>
   (\<forall>d. d \<noteq> c \<longrightarrow> heap (fold (send_msg (hub_subscribers marshal) c t b) ms w) d = heap w d) \<and>
   userKey (heap (fold (send_msg (hub_subscribers marshal) c t b) ms w) c) = userKey (heap w c) \<and>
   (conn_inv (heap w c) \<longrightarrow> conn_inv (heap (fold (send_msg (hub_subscribers marshal) c t b) ms w) c))"
  by (induction ms arbitrary: w) (simp_all add: send_msg_world)

lemma swr_replay_bus_inv: "bus_inv b \<Longrightarrow> bus_inv (fst (swr_replay S c t ms (b, w)))"
  by (induction ms arbitrary: b w) (simp_all add: swr_mark_def update_replay_inv)

lemma topic_subs_register_others:
  "filter (\<lambda>d. d \<noteq> c) (topic_subs (swr_register c t b) u) = filter (\<lambda>d. d \<noteq> c) (topic_subs b u)"
  by (simp add: swr_register_def Let_def topic_subs_addLocal)

lemma kept_SubscribeWithReplay:
  assumes subs: "be_subs env = hub_subscribers marshal" and run: "SubscribeWithReplay tp env c t since y = (r, y')"
  shows "kept c y y'"
proof (cases "parseSinceCursor tp since")
  case (Inl e)
  with run show ?thesis by (auto simp: SubscribeWithReplay_def)
next
  case (Inr cursor)
  let ?b1 = "swr_register c t (bus y)"
  show ?thesis
  proof (cases "be_pub env")
    case None
    with Inr run show ?thesis
      by (auto simp: SubscribeWithReplay_def Let_def kept_def swr_register_inv topic_subs_register_others)
  next
    case (Some R)
    obtain rm s1 where rm: "replayMessages R t cursor (rds y) = (rm, s1)" by fastforce
    show ?thesis
    proof (cases rm)
      case (Inl e)
      with Inr Some rm run have "y' = y\<lparr>bus := ?b1\<lparr>replay := AList.delete (c, t) (replay ?b1)\<rparr>, rds := s1\<rparr>"
        by (simp add: SubscribeWithReplay_def Let_def)
      then show ?thesis by (simp add: kept_def delete_replay_inv swr_register_inv topic_subs_register_others)
    next
      case res: (Inr q)
      obtain ms trunc old where q: "q = (ms, trunc, old)" by (cases q)
      define b2 where "b2 = ?b1\<lparr>ReplayMessages := ReplayMessages ?b1 + length ms, ReplayTruncated := ReplayTruncated ?b1 + (if trunc then 1 else 0)\<rparr>"
      obtain b3 w3 where sr: "swr_replay (be_subs env) c t ms (b2, world y) = (b3, w3)" by fastforce
      obtain left b4 where fin: "swr_finish c t b3 = (left, b4)" by fastforce
      have y': "y' = y\<lparr>bus := b4, world := fold (send_msg (be_subs env) c t False) left w3, rds := s1\<rparr>"
        using Inr Some rm res q run sr fin by (simp add: SubscribeWithReplay_def Let_def b2_def)
      have b4: "b4 = b3\<lparr>replay := AList.delete (c, t) (replay b3)\<rparr>" using fin by (simp add: swr_finish_def)
      have w3: "w3 = fold (send_msg (be_subs env) c t True) ms (world y)"
        using swr_replay_world [of "be_subs env" c t ms b2 "world y"] sr by simp
      have inv: "bus_inv (bus y) \<Longrightarrow> bus_inv b4"
        using swr_replay_bus_inv [of b2 "be_subs env" c t ms "world y"] sr
        by (simp add: b4 delete_replay_inv b2_def bus_inv_counters swr_register_inv)
      have oth: "filter (\<lambda>d. d \<noteq> c) (topic_subs b4 u) = filter (\<lambda>d. d \<noteq> c) (topic_subs (bus y) u)" for u
        using swr_replay_subs [of "be_subs env" c t ms b2 "world y" u] sr
        by (simp add: b4 b2_def topic_subs_register_others)
      show ?thesis
        using inv oth fold_send_msg_world [of marshal c t False left w3] fold_send_msg_world [of marshal c t True ms "world y"]
        by (simp add: kept_def y' w3 subs)
    qed
  qed
qed

lemma kept_subscribe_since:
  assumes "subscribe_since D c t since x = (r, x')"
  shows "kept c (core x) (core x')"
proof -
  obtain q y where swr: "SubscribeWithReplay (d_timeParse D) (bus_of D) c t since (core x) = (q, y)" by fastforce
  have k: "kept c (core x) y"
    by (rule kept_SubscribeWithReplay [OF _ swr, of "d_marshal D"]) (simp add: bus_of_def)
  have k2: "kept c (core x) (core (reply D c j (x\<lparr>core := y\<rparr>)))" for j
    using kept_trans [OF k] kept_reply [of c "x\<lparr>core := y\<rparr>" D j] by simp
  from assms swr show ?thesis
    by (auto simp: subscribe_since_def core_do_def k k2 split: sum.splits)
qed

lemmas kept_steps = kept_authorize kept_redis kept_allow kept_subscribe_since

lemma kept_handleSubscribe: "handleSubscribe D c env x = (r, x') \<Longrightarrow> kept c (core x) (core x')"
  by (auto simp: handleSubscribe_def Let_def subscribe_plain_def split: prod.splits option.splits sum.splits if_splits)
    (meson kept_trans kept_steps kept_subscribe)+

lemma kept_handleUnsubscribe: "handleUnsubscribe D c env x = (r, x') \<Longrightarrow> kept c (core x) (core x')"
  by (auto simp: handleUnsubscribe_def split: prod.splits sum.splits)
    (meson kept_trans kept_steps kept_unsubscribe)+

lemma kept_core_do_Publish: "core_do (PublishTopic env t d rt) x = (r, x') \<Longrightarrow> kept c (core x) (core x')"
  by (auto simp: core_do_def split: prod.splits intro: kept_PublishTopic)

lemma kept_handlePublish: "handlePublish D c env x = (r, x') \<Longrightarrow> kept c (core x) (core x')"
  by (auto simp: handlePublish_def Let_def split: prod.splits option.splits sum.splits if_splits)
    (meson kept_trans kept_steps kept_core_do_Publish)+

lemma kept_handleLocks:
  "handleLockTopic D c env x = (r, x') \<Longrightarrow> kept c (core x) (core x')"
  "handleUnlockTopic D c env x = (r, x') \<Longrightarrow> kept c (core x) (core x')"
  "handleRenewLock D c env x = (r, x') \<Longrightarrow> kept c (core x) (core x')"
  by (auto simp: handleLockTopic_def handleUnlockTopic_def handleRenewLock_def split: prod.splits option.splits sum.splits)
    (meson kept_trans kept_steps)+

lemma kept_noted:
  "redis_do cmd (note_rate b al x1) = (r, x2) \<Longrightarrow> kept c (core x) (core x1) \<Longrightarrow> kept c (core x) (core x2)"
  using kept_redis [of cmd "note_rate b al x1" r x2 c] kept_trans [of c "core x" "core x1"] by simp

lemma kept_handleJobs:
  "handleScheduleJob D c env x = (r, x') \<Longrightarrow> kept c (core x) (core x')"
  "handleRemoveJob D c env x = (r, x') \<Longrightarrow> kept c (core x) (core x')"
  by (auto simp: handleScheduleJob_def handleRemoveJob_def Let_def split: prod.splits option.splits sum.splits if_splits)
    (meson kept_noted kept_steps)+

lemma kept_handleQueries:
  "handleAck D c env x = (r, x') \<Longrightarrow> kept c (core x) (core x')"
  "handlePresence D c env x = (r, x') \<Longrightarrow> kept c (core x) (core x')"
  "handleListSubscriptions D c env x = (r, x') \<Longrightarrow> kept c (core x) (core x')"
  "handle_Broadcast D c env x = (r, x') \<Longrightarrow> kept c (core x) (core x')"
  by (auto simp: handleAck_def handlePresence_def handleListSubscriptions_def handle_Broadcast_def
      split: prod.splits option.splits sum.splits) (meson kept_trans kept_steps kept_reply)+

lemma kept_builtin: "builtin D c env x = (r, x') \<Longrightarrow> kept c (core x) (core x')"
  unfolding builtin_def Let_def
  using kept_handleSubscribe kept_handleUnsubscribe kept_handlePublish kept_handleLocks kept_handleJobs kept_handleQueries
  by (auto split: if_splits)

lemma kept_finish: "kept c y (core (snd p)) \<Longrightarrow> kept c y (core (finish D c rid p))"
  by (cases p) (auto simp: finish_def split: sum.splits intro: kept_trans kept_reply)

text \<open>No frame of built-in verbs touches more than its own connection.\<close>

lemma kept_Dispatch:
  assumes plain: "d_Middleware D = []" "\<And>v. Lookup (d_Registry D) v = None"
  shows "kept c (core x) (core (Dispatch D c rawFrame x))"
proof (cases "unmarshal_Envelope rawFrame")
  case None
  then show ?thesis using kept_reply [of c "x\<lparr>FramesReceived := FramesReceived x @ [''invalid_json'']\<rparr>" D]
    by (simp add: Dispatch_def)
next
  case (Some env)
  obtain r x2 where al: "allow D ''msg'' c (MessageRateLimit D)
      (x\<lparr>FramesReceived := FramesReceived x @ [frameTypeLabel (Type env) (d_Registry D)]\<rparr>) = (r, x2)" by fastforce
  from kept_allow [OF al] have k: "kept c (core x) (core x2)" by simp
  have rep: "kept c (core x) (core (reply D c j x2))" "kept c (core x) (core (reply D c j (note_rate b al x2)))" for j b al
    using kept_trans [OF k kept_reply] kept_trans [OF k, of "core (reply D c j (note_rate b al x2))"]
      kept_reply [of c "note_rate b al x2" D j] by simp_all
  have "kept c (core x) (core (finish D c (ReqID env) (builtin D c env (note_rate ''msg'' True x2))))"
  proof (rule kept_finish)
    obtain q x3 where b: "builtin D c env (note_rate ''msg'' True x2) = (q, x3)" by fastforce
    from kept_builtin [OF b] k show "kept c (core x) (core (snd (builtin D c env (note_rate ''msg'' True x2))))"
      using kept_trans b by fastforce
  qed
  then show ?thesis
    using Some al k rep plain
    by (cases r)
      (auto simp: Dispatch_def Let_def Chain_def route_handler_def request_of_def route_def split: sum.splits)
qed

lemma kept_serve_frames:
  assumes plain: "d_Middleware D = []" "\<And>v. Lookup (d_Registry D) v = None"
  shows "kept c (core x) (core (serve_frames D json_of c frames x))"
proof (induction frames arbitrary: x)
  case Nil
  then show ?case by (simp add: serve_frames_def)
next
  case (Cons f frames)
  obtain t msg where f: "f = (t, msg)" by (cases f)
  have "kept c (core x) (core (Dispatch (D\<lparr>d_now := t\<rparr>) c (json_of msg) x))"
    by (rule kept_Dispatch) (simp_all add: plain)
  from kept_trans [OF this Cons.IH] show ?case by (simp add: serve_frames_def f)
qed

section \<open>A session leaves no trace\<close>

lemma hub_inv_cong:
  assumes "users w' = users w" and "\<And>d. d \<in> set (Snapshot w) \<Longrightarrow> userKey (heap w' d) = userKey (heap w d)"
  shows "hub_inv w' = hub_inv w"
proof -
  have "d \<in> set (Snapshot w)" if "map_of (users w) u = Some cs" "d \<in> set cs" for u cs d
    using that by (force simp: Snapshot_def dest: map_of_SomeD)
  then have "\<forall>u cs. map_of (users w) u = Some cs \<longrightarrow> (\<forall>d \<in> set cs. userKey (heap w' d) = userKey (heap w d))"
    using assms(2) by blast
  then show ?thesis unfolding hub_inv_def assms(1) by (metis (no_types, lifting))
qed

lemma kept_hub:
  assumes "kept c y y'"
  shows "hub_inv (world y') = hub_inv (world y)" "Snapshot (world y') = Snapshot (world y)"
proof -
  from assms have "userKey (heap (world y') d) = userKey (heap (world y) d)" for d
    by (cases "d = c") (auto simp: kept_def)
  with assms show "hub_inv (world y') = hub_inv (world y)" by (intro hub_inv_cong) (auto simp: kept_def)
  from assms show "Snapshot (world y') = Snapshot (world y)" by (simp add: kept_def Snapshot_def)
qed

lemma kept_presence: "kept c (core x) (core (PublishPresence D uk ev x))"
proof (cases "PresenceTopic D = []")
  case True
  then show ?thesis by (simp add: PublishPresence_def)
next
  case False
  obtain r x' where "core_do (PublishTopic (bus_of D) (PresenceTopic D) (Some (marshal_presence ev uk (d_time_text D))) []) x = (r, x')"
    by fastforce
  with False kept_core_do_Publish [OF this] show ?thesis by (simp add: PublishPresence_def)
qed

lemma snd_redis_core: "core (snd (redis_do cmd x)) = (core x)\<lparr>rds := snd (cmd (rds (core x)))\<rparr>"
  by (simp add: redis_do_eq set_rds_def)

text \<open>The registration of a new connection, and the tail of its cleanup.\<close>

lemma serve_open_kept:
  assumes "OnConnect D = None"
  shows "kept c (core (snd (hub_do (Add c) (conn_do c (\<lambda>_. serve_conn cfg connID res) x)))) (core (serve_open cfg D connID c res x))"
proof -
  obtain first x3 where h: "hub_do (Add c) (conn_do c (\<lambda>_. serve_conn cfg connID res) x) = (first, x3)" by fastforce
  let ?x4 = "if first then PublishPresence D (au_UserKey res) PresenceConnected x3 else x3"
  have "kept c (core x3) (core ?x4)" by (simp add: kept_presence)
  moreover have "kept c (core ?x4) (core (snd (redis_do (AddConnection (d_RDB D) (au_UserKey res)) ?x4)))"
    by (intro kept_redis) (rule surjective_pairing)
  ultimately show ?thesis using kept_trans assms h by (auto simp: serve_open_def Let_def)
qed

lemma Cleanup_kept:
  assumes "OnDisconnect D = None"
  shows "kept c (core (bus_do (RemoveSubscriberAll c) x)) (core (Cleanup D c isLast x))"
    and "topic_subs (bus (core (Cleanup D c isLast x))) t = topic_subs (RemoveSubscriberAll c (bus (core x))) t"
proof -
  let ?uk = "user_of x c" and ?x1 = "bus_do (RemoveSubscriberAll c) x"
  define x3 where "x3 = (if isLast then PublishPresence D ?uk PresenceDisconnected ?x1 else ?x1)"
  have k: "kept c (core ?x1) (core x3)" by (simp add: x3_def kept_presence)
  have subs: "topic_subs (bus (core x3)) t = topic_subs (bus (core ?x1)) t"
    by (auto simp: x3_def PublishPresence_def core_do_def PublishTopic_def Let_def split: prod.splits option.splits sum.splits)
  have same: "bus (core (Cleanup D c isLast x)) = bus (core x3)" "world (core (Cleanup D c isLast x)) = world (core x3)"
    using assms by (simp_all add: Cleanup_def Let_def x3_def)
  from kept_trans [OF k kept_rds] same show "kept c (core ?x1) (core (Cleanup D c isLast x))" by simp
  from subs same show "topic_subs (bus (core (Cleanup D c isLast x))) t = topic_subs (RemoveSubscriberAll c (bus (core x))) t"
    by (simp add: bus_do_def)
qed

lemma serve_close_spec:
  assumes hook: "OnDisconnect D = None" and hub: "hub_inv (world (core x))" and inv: "bus_inv (bus (core x))"
  shows "hub_inv (world (core (serve_close D c readErr x)))"
    and "set (Snapshot (world (core (serve_close D c readErr x)))) = set (Snapshot (world (core x))) - {c}"
    and "d \<noteq> c \<Longrightarrow> heap (world (core (serve_close D c readErr x))) d = heap (world (core x)) d"
    and "userKey (heap (world (core (serve_close D c readErr x))) c) = userKey (heap (world (core x)) c)"
    and "topic_subs (bus (core (serve_close D c readErr x))) t = filter (\<lambda>d. d \<noteq> c) (topic_subs (bus (core x)) t)"
proof -
  let ?x1 = "conn_do c (Run_teardown readErr) x"
  obtain isLast x2 where h: "hub_do (Remove c) ?x1 = (isLast, x2)" by fastforce
  have sc: "serve_close D c readErr x = Cleanup D c isLast x2" by (simp add: serve_close_def h)
  have k1: "kept c (core x) (core ?x1)" by (rule kept_conn_do) (simp_all add: Run_teardown_def conn_frame closeWith_inv)
  have w2: "world (core x2) = snd (Remove c (world (core ?x1)))" and b2: "bus (core x2) = bus (core x)"
    using h by (auto simp: hub_do_def conn_do_def Let_def split: prod.splits)
  have hub1: "hub_inv (world (core ?x1))" using kept_hub [OF k1] hub by simp
  have k: "kept c (core (bus_do (RemoveSubscriberAll c) x2)) (core (serve_close D c readErr x))"
    unfolding sc by (rule Cleanup_kept [OF hook])
  have bw: "world (core (bus_do (RemoveSubscriberAll c) x2)) = world (core x2)" by (simp add: bus_do_def)
  show "hub_inv (world (core (serve_close D c readErr x)))"
    using kept_hub(1) [OF k] Remove_inv [OF hub1, of c] by (simp add: bw w2)
  show "set (Snapshot (world (core (serve_close D c readErr x)))) = set (Snapshot (world (core x))) - {c}"
    using kept_hub(2) [OF k] kept_hub(2) [OF k1] Snapshot_Remove [OF hub1, of c] by (simp add: bw w2)
  show "d \<noteq> c \<Longrightarrow> heap (world (core (serve_close D c readErr x))) d = heap (world (core x)) d"
    using k k1 by (simp add: kept_def bw w2)
  show "userKey (heap (world (core (serve_close D c readErr x))) c) = userKey (heap (world (core x)) c)"
    using k k1 by (simp add: kept_def bw w2)
  show "topic_subs (bus (core (serve_close D c readErr x))) t = filter (\<lambda>d. d \<noteq> c) (topic_subs (bus (core x)) t)"
    using Cleanup_kept(2) [OF hook] RemoveAll_tables [OF inv] by (simp add: sc b2)
qed

lemma serve_open_spec:
  assumes hook: "OnConnect D = None" and hub: "hub_inv (world (core x))" and new: "c \<notin> set (Snapshot (world (core x)))"
  shows "hub_inv (world (core (serve_open cfg D connID c res x)))"
    and "set (Snapshot (world (core (serve_open cfg D connID c res x)))) = insert c (set (Snapshot (world (core x))))"
    and "d \<noteq> c \<Longrightarrow> heap (world (core (serve_open cfg D connID c res x))) d = heap (world (core x)) d"
    and "userKey (heap (world (core (serve_open cfg D connID c res x))) c) = au_UserKey res"
    and "bus_inv (bus (core x)) \<Longrightarrow> bus_inv (bus (core (serve_open cfg D connID c res x)))"
    and "filter (\<lambda>d. d \<noteq> c) (topic_subs (bus (core (serve_open cfg D connID c res x))) t) = filter (\<lambda>d. d \<noteq> c) (topic_subs (bus (core x)) t)"
proof -
  let ?x1 = "conn_do c (\<lambda>_. serve_conn cfg connID res) x"
  let ?w1 = "world (core ?x1)" and ?x3 = "snd (hub_do (Add c) ?x1)"
  have w1: "users ?w1 = users (world (core x))" "Snapshot ?w1 = Snapshot (world (core x))"
    "\<And>d. d \<noteq> c \<Longrightarrow> heap ?w1 d = heap (world (core x)) d" "userKey (heap ?w1 c) = au_UserKey res"
    by (simp_all add: conn_do_def Let_def Snapshot_def serve_conn_def NewConn_def)
  have hub1: "hub_inv ?w1" using hub_inv_cong [OF w1(1)] w1(3) new hub by metis
  have w3: "world (core ?x3) = snd (Add c ?w1)" "bus (core ?x3) = bus (core x)"
    by (auto simp: hub_do_def conn_do_def Let_def split: prod.splits)
  have new1: "c \<notin> set (Snapshot ?w1)" using new w1(2) by simp
  have k: "kept c (core ?x3) (core (serve_open cfg D connID c res x))" by (rule serve_open_kept [OF hook])
  show "hub_inv (world (core (serve_open cfg D connID c res x)))"
    using kept_hub(1) [OF k] Add_inv [OF hub1 new1] by (simp add: w3)
  show "set (Snapshot (world (core (serve_open cfg D connID c res x)))) = insert c (set (Snapshot (world (core x))))"
    using kept_hub(2) [OF k] Snapshot_Add [OF hub1 new1] by (simp add: w3 w1(2))
  show "d \<noteq> c \<Longrightarrow> heap (world (core (serve_open cfg D connID c res x))) d = heap (world (core x)) d"
    using k w1(3) by (simp add: kept_def w3)
  show "userKey (heap (world (core (serve_open cfg D connID c res x))) c) = au_UserKey res"
    using k w1(4) by (simp add: kept_def w3)
  show "bus_inv (bus (core x)) \<Longrightarrow> bus_inv (bus (core (serve_open cfg D connID c res x)))"
    using k by (simp add: kept_def w3)
  show "filter (\<lambda>d. d \<noteq> c) (topic_subs (bus (core (serve_open cfg D connID c res x))) t) = filter (\<lambda>d. d \<noteq> c) (topic_subs (bus (core x)) t)"
    using k by (simp add: kept_def w3)
qed

text \<open>
  A session leaves no trace (C6). A connection that is admitted, handles any sequence of frames with the
  built-in verbs and ends leaves the hub with the sockets it had before and the bus with the
  subscriptions it had before; during its life it writes to no other connection of the instance,
  and it acts under the verified user from the upgrade to its end.
\<close>

theorem session_leaves_no_trace:
  assumes adm: "admit a upgrade r = Inr res"
    and plain: "d_Middleware (a_deps a) = []" "\<And>v. Lookup (d_Registry (a_deps a)) v = None"
      "OnConnect (a_deps a) = None" "OnDisconnect (a_deps a) = None"
    and hub: "hub_inv (world (core (sv_app s)))" and new: "c \<notin> set (Snapshot (world (core (sv_app s))))"
    and inv: "bus_inv (bus (core (sv_app s)))" and fresh: "\<And>t. c \<notin> set (topic_subs (bus (core (sv_app s))) t)"
  shows "let y = core (sv_app s); y' = core (sv_app (serveWS a upgrade json_of connID c r frames readErr s)) in
    hub_inv (world y') \<and> set (Snapshot (world y')) = set (Snapshot (world y))
    \<and> (\<forall>d. d \<noteq> c \<longrightarrow> heap (world y') d = heap (world y) d)
    \<and> userKey (heap (world y') c) = au_UserKey res
    \<and> (\<forall>t. topic_subs (bus y') t = topic_subs (bus y) t)"
proof -
  let ?D = "conn_deps a c res" and ?x = "sv_app s"
  define x1 where "x1 = serve_open (a_cfg a) ?D connID c res ?x"
  define x2 where "x2 = serve_frames ?D json_of c frames x1"
  have D: "d_Middleware ?D = []" "\<And>v. Lookup (d_Registry ?D) v = None" "OnConnect ?D = None" "OnDisconnect ?D = None"
    using plain by (simp_all add: conn_deps_def)
  note o = serve_open_spec [OF D(3) hub new, where cfg = "a_cfg a" and connID = connID and res = res, folded x1_def]
  have k: "kept c (core x1) (core x2)" unfolding x2_def by (rule kept_serve_frames [OF D(1,2)])
  have hub2: "hub_inv (world (core x2))" and inv2: "bus_inv (bus (core x2))"
    using kept_hub(1) [OF k] o(1) o(5) [OF inv] k by (simp_all add: kept_def)
  note e = serve_close_spec [OF D(4) hub2 inv2, where c = c and readErr = readErr]
  have "sv_app (serveWS a upgrade json_of connID c r frames readErr s) = serve_close ?D c readErr x2"
    by (simp add: serveWS_def adm Let_def x1_def x2_def)
  moreover have "filter (\<lambda>d. d \<noteq> c) (topic_subs (bus (core x2)) t) = topic_subs (bus (core ?x)) t" for t
    using k o(6) [of t] fresh [of t] by (simp add: kept_def filter_id_conv) (metis)
  moreover have "set (Snapshot (world (core x2))) - {c} = set (Snapshot (world (core ?x)))"
    using kept_hub(2) [OF k] o(2) new by auto
  ultimately show ?thesis using e o(3,4) k by (simp add: Let_def kept_def)
qed

definition demo_App :: "ref_state App" where
  "demo_App = \<lparr>a_cfg = origin_cfg, a_deps = open_deps, a_sched = \<lparr>sched_cfg.InstanceID = ''i'', sc_Guard = None, HTTPTimeout = 10000\<rparr>,
     a_verifier = NewInsecure, a_origin = None, a_metricsS = None, a_port = 8080\<rparr>"

lemma demo_App_admits:
  "admit demo_App demo_upgrade (demo_request []) = Inr \<lparr>au_UserKey = ''ann'', au_ExpiresAt = None, au_Claims = []\<rparr>"
  by (simp add: admit_def demo_App_def NewInsecure_def demo_request_def demo_upgrade_def)

theorem session_leaves_no_trace_witness:
  "let y' = core (sv_app (serveWS demo_App demo_upgrade (\<lambda>_. demo_frame) ''id'' 3 (demo_request []) [(1000, ''x''), (1001, ''y'')] True demo_server))
   in Snapshot (world y') = [] \<and> userKey (heap (world y') 3) = ''ann'' \<and> topic_subs (bus y') ''t'' = []"
proof -
  have world: "world (core (sv_app demo_server)) = demo_world" "bus (core (sv_app demo_server)) = New"
    by (simp_all add: demo_server_def demo_app_def demo_inst_def)
  have plain: "d_Middleware (a_deps demo_App) = []" "\<And>v. Lookup (d_Registry (a_deps demo_App)) v = None"
    "OnConnect (a_deps demo_App) = None" "OnDisconnect (a_deps demo_App) = None"
    by (simp_all add: demo_App_def open_deps_def demo_deps_def Lookup_def)
  have snap: "Snapshot demo_world = []" by (simp add: Snapshot_def demo_world_def)
  have subs: "topic_subs New t = []" for t by (simp add: topic_subs_def New_def)
  from session_leaves_no_trace [OF demo_App_admits plain, where s = demo_server and c = 3 and json_of = "\<lambda>_. demo_frame"
      and connID = "''id''" and frames = "[(1000, ''x''), (1001, ''y'')]" and readErr = True]
  show ?thesis by (simp add: world demo_world_inv snap New_inv subs Let_def)
qed

section \<open>Authentication, from the environment to the upgrade\<close>

lemma app_New_Inr:
  assumes "fst (app_New J L json_of base cfg ext) = Inr a"
  shows "a_verifier a = choose_verifier J cfg ext" "a_cfg a = cfg" "a_origin a = originChecker (AllowedOrigins cfg)"
    "\<exists>rules. parse_rules json_of (AuthzRules cfg) = Inr rules \<and> a_deps a = build_deps cfg (choose_authorizer rules ext) base"
  using assms by (auto simp: app_New_def Let_def split: sum.splits option.splits)

text \<open>
  A configured secret guards every socket (C11). In a server started from an environment that sets
  \<^verbatim>\<open>AUTH_JWT_SECRET\<close>, a connection is admitted only with a token that the parser accepts under that
  secret, and it acts as the user its claims name; the authorizer applies the rules of
  \<^verbatim>\<open>AUTHZ_RULES\<close>, or allows everything when there are none.
\<close>

theorem env_secret_guards:
  assumes opts: "OptionsFromEnv dotenv json_of no_ext uuid env = Inr opts"
    and new: "fst (server_New J L json_of base uuid' opts) = Inr a"
    and secret: "os_Getenv (dotenv env) ''AUTH_JWT_SECRET'' = key" "key \<noteq> []"
    and adm: "admit a upgrade r = Inr res"
  shows "(\<exists>cs popts. jwt_parse J popts key (extractToken r) = Inr cs \<and> extractToken r \<noteq> []
        \<and> (\<forall>ms. ValidMethods ms \<in> set popts \<longleftrightarrow> ms = [''HS256''])
        \<and> au_UserKey res = claimed_user cs \<and> claimed_user cs \<noteq> [] \<and> rq_Query r ''userKey'' \<in> {[], claimed_user cs})
    \<and> (\<exists>rules. parse_rules json_of (os_Getenv (dotenv env) ''AUTHZ_RULES'') = Inr rules
        \<and> d_Authorizer (a_deps a) = Some (case rules of None \<Rightarrow> AllowAll | Some rs \<Rightarrow> Authorize rs))"
proof -
  from opts obtain cfg rules where load: "Load dotenv uuid env = Inr cfg"
    and rules: "parse_rules json_of (AuthzRules cfg) = Inr rules" and o': "opts = env_options no_ext cfg rules"
    by (auto simp: OptionsFromEnv_def and_then_Inr)
  from load have c: "cfg = env_config (dotenv env) uuid" by (simp add: Load_def load_env_Inr)
  from new obtain cfg2 where t: "toConfig uuid' opts = Inr cfg2"
    and a: "fst (app_New J L json_of (base (opt_Ext opts)) cfg2 \<lparr>ext_Verifier = opt_Verifier opts, ext_Authorizer = opt_Authorizer opts\<rparr>) = Inr a"
    by (auto simp: server_New_def split: sum.splits)
  from t have sec: "AuthJWTSecret cfg2 = key" "AuthzRules cfg2 = []"
    using secret(1) by (auto simp: toConfig_def and_then_Inr o' env_options_def c env_config_def)
  have ext: "opt_Verifier opts = None" "opt_Authorizer opts = map_option Authorize rules"
    by (simp_all add: o' env_options_def split: option.splits)
  let ?jc = "\<lparr>jwt_Secret = key, jwt_Audience = AuthJWTAudience cfg2, jwt_Issuer = AuthJWTIssuer cfg2\<rparr>"
  from adm have "a_verifier a r = Inr (Some res)"
    by (auto simp: admit_def split: sum.splits option.splits if_splits)
  with app_New_Inr(1) [OF a] sec(1) secret(2) ext(1) have "NewJWT J ?jc r = Inr (Some res)"
    by (simp add: choose_verifier_def)
  then obtain cs where "jwt_parse J (parserOpts ?jc) key (extractToken r) = Inr cs" "extractToken r \<noteq> []"
    "au_UserKey res = claimed_user cs" "claimed_user cs \<noteq> []" "rq_Query r ''userKey'' \<in> {[], claimed_user cs}"
    by (auto simp: NewJWT_def Let_def split: sum.splits if_splits)
  moreover have "\<forall>ms. ValidMethods ms \<in> set (parserOpts ?jc) \<longleftrightarrow> ms = [''HS256'']" by (auto simp: parserOpts_def)
  moreover from app_New_Inr(4) [OF a] sec(2) ext(2)
  have "d_Authorizer (a_deps a) = Some (case rules of None \<Rightarrow> AllowAll | Some rs \<Rightarrow> Authorize rs)"
    by (auto simp: parse_rules_def ParseRules_def TrimSpace_def build_deps_def choose_authorizer_def split: option.splits)
  moreover have "AuthzRules cfg = os_Getenv (dotenv env) ''AUTHZ_RULES''"
    by (simp add: c env_config_def getenv_def Let_def)
  ultimately show ?thesis using rules by metis
qed

definition secret_env :: osenv where
  "secret_env k = (if k = ''REDIS_HOST'' then Some ''db'' else if k = ''AUTH_JWT_SECRET'' then Some ''k'' else None)"

lemma secret_env_get:
  "os_Getenv secret_env ''AUTH_JWT_SECRET'' = ''k''" "os_Getenv secret_env ''REDIS_HOST'' = ''db''"
  "v \<noteq> ''REDIS_HOST'' \<Longrightarrow> v \<noteq> ''AUTH_JWT_SECRET'' \<Longrightarrow> os_Getenv secret_env v = []"
  by (simp_all add: secret_env_def os_Getenv_def)

lemma secret_loads: "Load (\<lambda>e. e) ''u'' secret_env = Inr (env_config secret_env ''u'')"
  by (simp add: Load_def load_env_Inr numeric_vars_def num_ok_def secret_env_get validate_Inr)
    (simp add: env_config_def num_of_def secret_env_get getenv_def Let_def)

definition secret_options :: "unit Options" where
  "secret_options = env_options () (env_config secret_env ''u'') None"

lemma secret_options_env: "OptionsFromEnv (\<lambda>e. e) Text () ''u'' secret_env = Inr secret_options"
  using secret_loads
  by (simp add: OptionsFromEnv_def and_then_def secret_options_def)
    (simp add: parse_rules_def ParseRules_def env_config_def getenv_def secret_env_get TrimSpace_def)

definition token_request :: httpReq where
  "token_request = \<lparr>rq_Header = (\<lambda>k. []), rq_Query = (\<lambda>k. if k = ''token'' then ''good'' else [])\<rparr>"

lemma secret_server:
  "\<exists>a. fst (server_New demo_jwt demo_os Text (\<lambda>_. open_deps) ''v'' secret_options) = Inr a \<and> a_origin a = None
    \<and> a_verifier a = NewJWT demo_jwt \<lparr>jwt_Secret = ''k'', jwt_Audience = [], jwt_Issuer = []\<rparr>"
proof -
  have p: "listen_port ('':'' @ FormatInt 8080) = Inr 8080" by (rule listen_port_FormatInt) (simp_all add: max_int64_def)
  have "\<exists>c. toConfig ''v'' secret_options = Inr c \<and> AuthzRules c = [] \<and> \<not> TLSEnabled c \<and> AllowedOrigins c = []
      \<and> AuthJWTSecret c = ''k'' \<and> AuthJWTAudience c = [] \<and> AuthJWTIssuer c = []"
    using p by (simp add: toConfig_def secret_options_def env_options_def env_config_def num_of_def secret_env_get
      and_then_def TLSEnabled_def getcsv_def TrimSpace_def)
  moreover have "opt_Verifier secret_options = None" by (simp add: secret_options_def env_options_def)
  ultimately show ?thesis
    by (auto simp: server_New_def app_New_def parse_rules_def ParseRules_def TrimSpace_def demo_os_def choose_verifier_def
      originChecker_def Let_def)
qed

theorem env_secret_guards_witness:
  "\<exists>a res. fst (server_New demo_jwt demo_os Text (\<lambda>_. open_deps) ''v'' secret_options) = Inr a
     \<and> admit a demo_upgrade token_request = Inr res \<and> au_UserKey res = ''ann'' \<and> d_Authorizer (a_deps a) = Some AllowAll"
proof -
  obtain a where a: "fst (server_New demo_jwt demo_os Text (\<lambda>_. open_deps) ''v'' secret_options) = Inr a" "a_origin a = None"
    "a_verifier a = NewJWT demo_jwt \<lparr>jwt_Secret = ''k'', jwt_Audience = [], jwt_Issuer = []\<rparr>"
    using secret_server by blast
  have adm: "admit a demo_upgrade token_request = Inr \<lparr>au_UserKey = ''ann'', au_ExpiresAt = None, au_Claims = [(''sub'', JStr ''ann'')]\<rparr>"
    by (simp add: admit_def a NewJWT_def extractToken_def token_request_def demo_jwt_def claimed_user_def claim_string_def
      demo_upgrade_def HasPrefix_def ToLower_def Let_def)
  from env_secret_guards [OF secret_options_env a(1), of "''k''" demo_upgrade token_request] adm a(1)
  show ?thesis
    by (auto simp: secret_env_get parse_rules_def ParseRules_def TrimSpace_def)
qed

section \<open>Shutdown\<close>







end
