(* ===== verification/ServerRun.thy ===== *)
theory ServerRun
  imports Session
begin

text \<open>
  A whole instance with many connections: sockets are admitted, send frames and end in any order,
  while messages of the pattern subscription arrive, the writers, the keepalive and the expiry
  watchers run on single connections, and other instances change Redis. \<open>server_step\<close> is one such
  event, with the handlers of the code as its effect.
\<close>

section \<open>Messages of the bus only send\<close>

definition only_sends :: "hub_world \<Rightarrow> hub_world \<Rightarrow> bool" where
  "only_sends w w' \<longleftrightarrow> users w' = users w \<and> (\<forall>d. \<exists>msgs. heap w' d = fold Send msgs (heap w d))"

lemma only_sends_refl [simp, intro]: "only_sends w w"
  by (auto simp: only_sends_def intro: exI [of _ "[]"])

lemma only_sends_trans:
  assumes "only_sends w w'" and "only_sends w' w''"
  shows "only_sends w w''"
proof -
  have "\<exists>msgs. heap w'' d = fold Send msgs (heap w d)" for d
  proof -
    from assms obtain ms ms' where "heap w' d = fold Send ms (heap w d)" "heap w'' d = fold Send ms' (heap w' d)"
      unfolding only_sends_def by blast
    then have "heap w'' d = fold Send (ms @ ms') (heap w d)" by simp
    then show ?thesis by blast
  qed
  with assms show ?thesis by (simp add: only_sends_def)
qed

lemma only_sends_conn [intro]: "only_sends w (conn_Send c msg w)"
proof -
  have "\<exists>msgs. heap (conn_Send c msg w) d = fold Send msgs (heap w d)" for d
    by (cases "d = c") (auto simp: conn_Send_def intro: exI [of _ "[]"] exI [of _ "[msg]"])
  then show ?thesis by (simp add: only_sends_def conn_Send_def)
qed

lemma only_sends_fold: "only_sends w (fold (\<lambda>c. conn_Send c msg) cs w)"
  by (induction cs arbitrary: w) (auto intro: only_sends_trans)

lemma bus_dispatch_sends:
  assumes "be_subs env = hub_subscribers marshal" and "be_broadcast env = Some (hub_target marshal)"
  shows "only_sends (world x) (world (bus_dispatch env ch pl x))"
proof -
  have "only_sends (world x) (world (handleTopic env t pl x))" for t
  proof (cases "unmarshal_wireTopic pl")
    case None
    then show ?thesis by (simp add: handleTopic_def)
  next
    case (Some p)
    have "sub_Send (hub_subscribers marshal) = (\<lambda>c j. conn_Send c (marshal j))" by (simp add: hub_subscribers_def)
    then show ?thesis
      by (simp add: handleTopic_fields(2) [OF Some] assms(1) hub_subs.deliver_loop_world only_sends_fold)
  qed
  moreover have "only_sends (world x) (SendToUser u msg (world x))" for u msg
    by (simp add: SendToUser_def only_sends_fold)
  moreover have "only_sends (world x) (SendToConn i msg (world x))" for i msg
    by (auto simp: SendToConn_def split: option.splits)
  ultimately show ?thesis
    by (auto simp: bus_dispatch_def handleBroadcast_def handleReport_def assms(2) hub_target_def split: option.splits)
qed

lemma fold_Send_frame:
  "userKey (fold Send msgs cn) = userKey cn \<and> conn_id (fold Send msgs cn) = conn_id cn
   \<and> (conn_inv cn \<longrightarrow> conn_inv (fold Send msgs cn))"
  by (induction msgs arbitrary: cn) (auto simp: conn_frame Send_inv)

lemma only_sends_frame:
  assumes "only_sends w w'"
  shows "userKey (heap w' d) = userKey (heap w d)" and "conn_id (heap w' d) = conn_id (heap w d)"
    and "conn_inv (heap w d) \<Longrightarrow> conn_inv (heap w' d)" and "users w' = users w"
  using assms fold_Send_frame unfolding only_sends_def by metis+

lemma decide_fanout_subs: "topic_subs (fst (decide_fanout P t m cs b dl n k)) u = topic_subs b u"
  by (induction P t m cs b dl n k rule: decide_fanout.induct)
    (simp_all add: update_replay_def topic_subs_def split: option.splits)

lemma topic_subs_fanout_counts [simp]: "topic_subs (b\<lparr>FanoutFiltered := a, FanoutBuffered := d\<rparr>) t = topic_subs b t"
  by (simp add: topic_subs_def)

lemma bus_dispatch_subs: "topic_subs (bus (bus_dispatch env ch pl x)) u = topic_subs (bus x) u"
proof -
  have "topic_subs (bus (handleTopic env t pl x)) u = topic_subs (bus x) u" for t
    using decide_fanout_subs [where b = "bus x" and u = u]
    by (auto simp: handleTopic_def Let_def split: option.splits prod.splits) (metis fst_conv)+
  then show ?thesis
    by (auto simp: bus_dispatch_def handleBroadcast_def handleReport_def split: option.splits)
qed

section \<open>Steps of an instance\<close>

definition plain_deps :: "'s deps \<Rightarrow> bool" where
  "plain_deps D \<longleftrightarrow> d_Middleware D = [] \<and> (\<forall>v. Lookup (d_Registry D) v = None) \<and> OnConnect D = None \<and> OnDisconnect D = None"

text \<open>
  The dependencies, with the clock and the library functions in them, may differ from step to
  step; the embedder's hooks, which may do anything, are absent. A \<^verbatim>\<open>SubscribeWithReplay\<close> is one
  step here.
\<close>

inductive server_step :: "'s app \<Rightarrow> 's app \<Rightarrow> bool" where
  sv_connect: "plain_deps D \<Longrightarrow> c \<notin> set (Snapshot (world (core x))) \<Longrightarrow> server_step x (serve_open cfg D connID c res x)"
| sv_frame: "plain_deps D \<Longrightarrow> c \<in> set (Snapshot (world (core x))) \<Longrightarrow> server_step x (Dispatch D c rawFrame x)"
| sv_close: "plain_deps D \<Longrightarrow> c \<in> set (Snapshot (world (core x))) \<Longrightarrow> server_step x (serve_close D c readErr x)"
| sv_message: "server_step x (x\<lparr>core := bus_dispatch (bus_of D) ch pl (core x)\<rparr>)"
| sv_conn: "conn_step alive (the_conn x c) cn \<Longrightarrow> server_step x (conn_do c (\<lambda>_. cn) x)"
| sv_redis: "server_step x (set_rds s x)"

inductive_cases server_stepE: "server_step x x'"

definition server_inv :: "'s app \<Rightarrow> bool" where
  "server_inv x \<longleftrightarrow> hub_inv (world (core x)) \<and> bus_inv (bus (core x))
     \<and> (\<forall>t. set (topic_subs (bus (core x)) t) \<subseteq> set (Snapshot (world (core x))))
     \<and> (\<forall>c \<in> set (Snapshot (world (core x))). conn_inv (heap (world (core x)) c))"

lemma server_inv_cong:
  assumes inv: "server_inv x" and us: "users (world (core x')) = users (world (core x))"
    and uk: "\<And>d. userKey (heap (world (core x')) d) = userKey (heap (world (core x)) d)"
    and cn: "\<And>d. conn_inv (heap (world (core x)) d) \<Longrightarrow> conn_inv (heap (world (core x')) d)"
    and b: "bus_inv (bus (core x))  \<Longrightarrow> bus_inv (bus (core x'))"
    and subs: "\<And>t. set (topic_subs (bus (core x')) t) \<subseteq> set (Snapshot (world (core x)))"
  shows "server_inv x'"
proof -
  have "Snapshot (world (core x')) = Snapshot (world (core x))" by (simp add: Snapshot_def us)
  with inv cn b subs hub_inv_cong [OF us uk] show ?thesis by (simp add: server_inv_def)
qed

lemma kept_server_inv:
  assumes inv: "server_inv x" and k: "kept c (core x) (core x')" and c: "c \<in> set (Snapshot (world (core x)))"
  shows "server_inv x'"
proof (rule server_inv_cong [OF inv])
  show "userKey (heap (world (core x')) d) = userKey (heap (world (core x)) d)" for d
    using k by (cases "d = c") (simp_all add: kept_def)
  show "conn_inv (heap (world (core x')) d)" if "conn_inv (heap (world (core x)) d)" for d
    using k that by (cases "d = c") (simp_all add: kept_def)
  show "set (topic_subs (bus (core x')) t) \<subseteq> set (Snapshot (world (core x)))" for t
  proof
    fix d assume d: "d \<in> set (topic_subs (bus (core x')) t)"
    from k have "filter (\<lambda>d. d \<noteq> c) (topic_subs (bus (core x')) t) = filter (\<lambda>d. d \<noteq> c) (topic_subs (bus (core x)) t)"
      by (simp add: kept_def)
    then have "set (filter (\<lambda>d. d \<noteq> c) (topic_subs (bus (core x')) t)) = set (filter (\<lambda>d. d \<noteq> c) (topic_subs (bus (core x)) t))"
      by (rule arg_cong)
    with d have "d = c \<or> d \<in> set (topic_subs (bus (core x)) t)" by auto
    with c inv show "d \<in> set (Snapshot (world (core x)))" by (auto simp: server_inv_def)
  qed
qed (use k in \<open>simp_all add: kept_def\<close>)

lemma userKey_conn_step: "conn_step alive cn cn' \<Longrightarrow> userKey cn' = userKey cn"
  by (induction rule: conn_step.induct)
    (auto simp: conn_frame Ping_def enqueue_def dest: userKey_SendNow userKey_writer)

lemma serve_open_conn:
  assumes "OnConnect D = None"
  shows "conn_inv (heap (world (core (serve_open cfg D connID c res x))) c)"
proof -
  let ?x1 = "conn_do c (\<lambda>_. serve_conn cfg connID res) x"
  have "world (core (snd (hub_do (Add c) ?x1))) = snd (Add c (world (core ?x1)))"
    by (simp add: hub_do_def split: prod.splits)
  then have "heap (world (core (snd (hub_do (Add c) ?x1)))) c = serve_conn cfg connID res"
    by (simp add: conn_do_def Let_def)
  with serve_open_kept [OF assms, of c cfg connID res x] show ?thesis
    by (simp add: kept_def serve_conn_def NewConn_inv)
qed

lemma serve_close_bus_inv:
  assumes "OnDisconnect D = None" and "bus_inv (bus (core x))"
  shows "bus_inv (bus (core (serve_close D c readErr x)))"
proof -
  obtain isLast x2 where h: "hub_do (Remove c) (conn_do c (Run_teardown readErr) x) = (isLast, x2)" by fastforce
  then have "bus (core x2) = bus (core x)" by (auto simp: hub_do_def conn_do_def Let_def split: prod.splits)
  with assms(2) have "bus_inv (bus (core (bus_do (RemoveSubscriberAll c) x2)))" by (simp add: bus_do_def RemoveAll_inv)
  with Cleanup_kept(1) [OF assms(1), of c x2 isLast] h show ?thesis by (simp add: serve_close_def kept_def)
qed

lemma server_step_inv: "server_step x x' \<Longrightarrow> server_inv x \<Longrightarrow> server_inv x'"
proof (induction rule: server_step.induct)
  case (sv_connect D c x cfg connID res)
  then have hook: "OnConnect D = None" and hub: "hub_inv (world (core x))" and b: "bus_inv (bus (core x))"
    and subs: "\<And>t. set (topic_subs (bus (core x)) t) \<subseteq> set (Snapshot (world (core x)))"
    and cn: "\<And>d. d \<in> set (Snapshot (world (core x))) \<Longrightarrow> conn_inv (heap (world (core x)) d)"
    by (simp_all add: plain_deps_def server_inv_def)
  note o = serve_open_spec [OF hook hub sv_connect.hyps(2), where cfg = cfg and connID = connID and res = res]
  have "set (topic_subs (bus (core (serve_open cfg D connID c res x))) t) \<subseteq> insert c (set (Snapshot (world (core x))))" for t
    using arg_cong [OF o(6) [of t], of set] subs [of t] by auto
  moreover have "conn_inv (heap (world (core (serve_open cfg D connID c res x))) d)"
    if "d = c \<or> d \<in> set (Snapshot (world (core x)))" for d
    using that serve_open_conn [OF hook] o(3) [of d] cn by (cases "d = c") auto
  ultimately show ?case using o(1,2) o(5) [OF b] by (simp add: server_inv_def)
next
  case (sv_frame D c x rawFrame)
  then have "kept c (core x) (core (Dispatch D c rawFrame x))" by (intro kept_Dispatch) (simp_all add: plain_deps_def)
  from kept_server_inv [OF sv_frame.prems this] sv_frame show ?case by simp
next
  case (sv_close D c x readErr)
  then have hook: "OnDisconnect D = None" and hub: "hub_inv (world (core x))" and b: "bus_inv (bus (core x))"
    by (simp_all add: plain_deps_def server_inv_def)
  note e = serve_close_spec [OF hook hub b, where c = c and readErr = readErr]
  from e serve_close_bus_inv [OF hook b] sv_close show ?case by (auto simp: server_inv_def)
next
  case (sv_message x D ch pl)
  have "only_sends (world (core x)) (world (bus_dispatch (bus_of D) ch pl (core x)))"
    by (rule bus_dispatch_sends) (simp_all add: bus_of_def)
  note f = only_sends_frame [OF this]
  from sv_message show ?case
    by (rule server_inv_cong) (use f sv_message in \<open>auto simp: bus_dispatch_subs bus_dispatch_inv server_inv_def\<close>)
next
  case (sv_conn alive x c cn)
  have "userKey cn = userKey (heap (world (core x)) c)" "conn_inv (heap (world (core x)) c) \<Longrightarrow> conn_inv cn"
    using userKey_conn_step [OF sv_conn.hyps] conn_step_inv [OF sv_conn.hyps] by (simp_all add: the_conn_def)
  with sv_conn.prems show ?case
    by (intro server_inv_cong [OF sv_conn.prems]) (auto simp: conn_do_def Let_def server_inv_def)
next
  case (sv_redis x s)
  then show ?case by (simp add: server_inv_def)
qed

section \<open>The invariant of an instance\<close>

definition server_start :: "'s app \<Rightarrow> bool" where
  "server_start x \<longleftrightarrow> bus (core x) = New \<and> users (world (core x)) = []"

lemma server_start_inv: "server_start x \<Longrightarrow> server_inv x"
  by (simp add: server_start_def server_inv_def hub_inv_def New_inv Snapshot_def topic_subs_def) (simp add: New_def)

interpretation server: inv_system "\<lambda>_. True" "\<lambda>_. server_start" "\<lambda>_. server_step" "\<lambda>_. server_inv"
  by unfold_locales (auto intro: server_start_inv server_step_inv)

lemma no_subs_gauge:
  assumes "bus_inv b" and "\<And>t. topic_subs b t = []"
  shows "topicSubs b = [] \<and> LocalSubscriptions b = 0"
proof (cases "topicSubs b")
  case Nil
  with assms(1) show ?thesis by (simp add: bus_inv_def)
next
  case (Cons p ps)
  with assms have "snd p = []" by (auto simp: topic_subs_def split: option.splits dest: meta_spec [of _ "fst p"])
  with assms(1) Cons show ?thesis by (simp add: bus_inv_def)
qed

text \<open>
  An instance under any load (C7). Through every interleaving of connects, frames with the built-in
  verbs, disconnects, announcements, writer iterations, pings and closes, and of changes other
  instances make to Redis: each socket is registered once, under the user it was admitted as; only
  registered sockets are subscribed, each once to a topic, and the gauge counts them; the queue of
  every registered socket is within its capacity and its byte count exact; and when the last socket
  is gone no subscription is left behind.
\<close>

theorem server_reachable_inv:
  assumes "server_step\<^sup>*\<^sup>* x0 x" and "server_start x0"
  shows "let w = world (core x); b = bus (core x) in
    (\<forall>u. distinct (user_conns w u)) \<and> (\<forall>c. c \<in> set (Snapshot w) \<longleftrightarrow> c \<in> set (user_conns w (userKey (heap w c))))
    \<and> (\<forall>t. distinct (topic_subs b t) \<and> set (topic_subs b t) \<subseteq> set (Snapshot w)) \<and> LocalSubscriptions b = gauge (topicSubs b)
    \<and> (\<forall>c \<in> set (Snapshot w). length (sendCh (heap w c)) \<le> chanCap (heap w c) \<and> bufBytes (heap w c) = text_bytes (sendCh (heap w c)))
    \<and> (Snapshot w = [] \<longrightarrow> topicSubs b = [] \<and> LocalSubscriptions b = 0)"
proof -
  from server.reachable_inv [OF _ assms(2,1)] have inv: "server_inv x" by blast
  then have hub: "hub_inv (world (core x))" and b: "bus_inv (bus (core x))"
    and subs: "\<And>t. set (topic_subs (bus (core x)) t) \<subseteq> set (Snapshot (world (core x)))"
    and cn: "\<And>c. c \<in> set (Snapshot (world (core x))) \<Longrightarrow> conn_inv (heap (world (core x)) c)"
    by (auto simp: server_inv_def)
  have "topicSubs (bus (core x)) = [] \<and> LocalSubscriptions (bus (core x)) = 0" if "Snapshot (world (core x)) = []"
    using subs that by (intro no_subs_gauge [OF b]) simp
  moreover have "LocalSubscriptions (bus (core x)) = gauge (topicSubs (bus (core x)))" using b by (simp add: bus_inv_def)
  ultimately show ?thesis
    using hub_inv_user_conns(1) [OF hub] Snapshot_iff [OF hub] bus_inv_subs [OF b] subs cn by (simp add: conn_inv_def Let_def)
qed

definition demo_sub_frame :: blob where
  "demo_sub_frame = Json (JObj [(''type'', JStr ''subscribe''), (''topic'', JStr ''t'')])"

definition demo_ann :: Result where
  "demo_ann = \<lparr>au_UserKey = ''ann'', au_ExpiresAt = None, au_Claims = []\<rparr>"

lemma open_plain: "plain_deps open_deps"
  by (simp add: plain_deps_def open_deps_def demo_deps_def Lookup_def)

lemma demo_app_start: "server_start demo_app"
  by (simp add: server_start_def demo_app_def demo_inst_def demo_world_def)

text \<open>A connection subscribes and goes away.\<close>

theorem server_reachable_inv_witness:
  "let x1 = serve_open origin_cfg open_deps ''id'' 3 demo_ann demo_app; x2 = Dispatch open_deps 3 demo_sub_frame x1;
       x3 = serve_close open_deps 3 True x2
   in set (Snapshot (world (core x2))) = {3} \<and> topicSubs (bus (core x3)) = [] \<and> LocalSubscriptions (bus (core x3)) = 0"
proof -
  define x1 where "x1 = serve_open origin_cfg open_deps ''id'' 3 demo_ann demo_app"
  define x2 where "x2 = Dispatch open_deps 3 demo_sub_frame x1"
  define x3 where "x3 = serve_close open_deps 3 True x2"
  have none: "set (Snapshot (world (core demo_app))) = {}"
    by (simp add: demo_app_def demo_inst_def demo_world_def Snapshot_def)
  have s1: "server_step demo_app x1" unfolding x1_def using none by (intro sv_connect [OF open_plain]) simp
  have on: "OnConnect open_deps = None" "OnDisconnect open_deps = None" using open_plain by (simp_all add: plain_deps_def)
  have i0: "hub_inv (world (core demo_app))" using server_start_inv [OF demo_app_start] by (simp add: server_inv_def)
  have sn1: "set (Snapshot (world (core x1))) = {3}"
    using serve_open_spec(2) [OF on(1) i0] none by (simp add: x1_def)
  then have s2: "server_step x1 x2" unfolding x2_def by (intro sv_frame [OF open_plain]) simp
  have k: "kept 3 (core x1) (core x2)" unfolding x2_def
    using open_plain by (intro kept_Dispatch) (simp_all add: plain_deps_def)
  have sn2: "set (Snapshot (world (core x2))) = {3}" using kept_hub(2) [OF k] sn1 by simp
  then have s3: "server_step x2 x3" unfolding x3_def by (intro sv_close [OF open_plain]) simp
  have i2: "server_inv x2" using server_start_inv [OF demo_app_start] server_step_inv s1 s2 by blast
  then have sn3: "Snapshot (world (core x3)) = []"
    using serve_close_spec(2) [OF on(2), of x2 3 True] sn2 by (simp add: x3_def server_inv_def)
  have "server_step\<^sup>*\<^sup>* demo_app x3" using s1 s2 s3 by (meson r_into_rtranclp rtranclp.rtrancl_into_rtrancl)
  from server_reachable_inv [OF this demo_app_start] sn2 sn3 show ?thesis
    by (simp add: Let_def x1_def x2_def x3_def)
qed

end
