(* ===== verification/BusRun.thy ===== *)
theory BusRun
  imports ServerRun
begin

text \<open>
  The loops of the bus: \<^verbatim>\<open>Run\<close>, \<^verbatim>\<open>runTrimLoop\<close> and \<^verbatim>\<open>Close\<close> of \<^verbatim>\<open>bus/bus.go\<close>. A \<^verbatim>\<open>select\<close> takes the
  event that is ready, so a loop is run over the events in the order it takes them. The main
  theorem gives, for a whole run of the listener, exactly the frames each connection is sent.
\<close>

section \<open>The listener\<close>

datatype bus_event = EvMessage string blob | EvChannelClosed | EvCtxDone

definition bus_patterns :: "string list" where
  "bus_patterns = [topicChannelPrefix @ ''*'', broadcastChannelPrefix @ ''*'', reportChannelPrefix @ ''*'']"

text \<open>\<^verbatim>\<open>pubsub\<close> is nil, an open subscription to its patterns, or closed; \<open>bl_done\<close> says that \<^verbatim>\<open>done\<close> is closed.\<close>

datatype pubsub_state = NoPubSub | Subscribed "string list" | PubSubClosed

record bus_life =
  pubsub :: pubsub_state
  bl_done :: bool
  bl_once :: bool
  bl_trims :: bool

definition new_life :: bus_life where
  "new_life = \<lparr>pubsub = NoPubSub, bl_done = False, bl_once = False, bl_trims = False\<rparr>"

text \<open>The loop over the events: whether it has returned, and the instance.\<close>

fun listen_loop :: "('c, 'w, 's) bus_env \<Rightarrow> bus_event list \<Rightarrow> ('c, 'w, 's) inst \<Rightarrow> bool \<times> ('c, 'w, 's) inst" where
  "listen_loop env [] x = (False, x)"
| "listen_loop env (EvCtxDone # evs) x = (True, x)"
| "listen_loop env (EvChannelClosed # evs) x = (True, x)"
| "listen_loop env (EvMessage ch pl # evs) x = listen_loop env evs (bus_dispatch env ch pl x)"

text \<open>
  \<open>ping\<close> is the answer of the ping on the new subscription. The result is nothing while the loop
  goes on, and else the error or nil. Closing \<^verbatim>\<open>done\<close> a second time panics.
\<close>

definition bus_Run ::
  "goerr option \<Rightarrow> ('c, 'w, 's) bus_env \<Rightarrow> bus_event list \<Rightarrow> bus_life \<times> ('c, 'w, 's) inst
    \<Rightarrow> goerr option option \<times> bus_life \<times> ('c, 'w, 's) inst" where
  "bus_Run ping env evs p =
     (case p of (l, x) \<Rightarrow>
      let l1 = l\<lparr>pubsub := Subscribed bus_patterns\<rparr> in
      case ping of
        Some e \<Rightarrow> (Some (Some (Wrap ''psubscribe ping: '' e [])), l1, x)
      | None \<Rightarrow>
          let l2 = l1\<lparr>bl_trims := bl_trims l1 \<or> StreamTTL (be_cfg env) > 0\<rparr>;
              (returned, x1) = listen_loop env evs x
          in if \<not> returned then (None, l2, x1)
             else if bl_done l2 then (Some (Some (Panic ''close of closed channel'')), l2, x1)
             else (Some None, l2\<lparr>bl_done := True\<rparr>, x1))"

definition bus_Close :: "bus_life \<Rightarrow> bus_life" where
  "bus_Close l =
     (if bl_once l then l
      else (l\<lparr>bl_once := True\<rparr>)\<lparr>pubsub := (case pubsub l of NoPubSub \<Rightarrow> NoPubSub | _ \<Rightarrow> PubSubClosed)\<rparr>)"

section \<open>The trim loop\<close>

datatype trim_event = Tick int | TrimCtxDone

text \<open>Each tick comes with the clock in milliseconds.\<close>

fun runTrimLoop :: "'s redis \<Rightarrow> int \<Rightarrow> trim_event list \<Rightarrow> 's \<Rightarrow> bool \<times> 's" where
  "runTrimLoop R ttl [] s = (False, s)"
| "runTrimLoop R ttl (TrimCtxDone # evs) s = (True, s)"
| "runTrimLoop R ttl (Tick now # evs) s = runTrimLoop R ttl evs (trimAllStreams R ttl now s)"

section \<open>What a message sends\<close>

text \<open>The frame one message of the subscription is for a connection, from the tables alone.\<close>

definition frame_for ::
  "(json \<Rightarrow> string) \<Rightarrow> (cref, hub_world, 's) inst \<Rightarrow> cref \<Rightarrow> string \<Rightarrow> blob \<Rightarrow> string option" where
  "frame_for marshal x d ch pl =
     (if HasPrefix ch topicChannelPrefix then
        (let t = drop (length topicChannelPrefix) ch in
         case unmarshal_wireTopic pl of
           None \<Rightarrow> None
         | Some p \<Rightarrow>
             if d \<in> set (topic_subs (bus x) t) \<and> \<not> is_buffering (bus x) d t
               \<and> (case wp_Recipients p of None \<Rightarrow> True | Some ids \<Rightarrow> conn_id (heap (world x) d) \<in> set ids)
             then Some (marshal (EncodePublish t (wp_Data p) (wp_StreamID p) False)) else None)
      else if HasPrefix ch broadcastChannelPrefix then
        (case unmarshal_wireBroadcast pl of
           None \<Rightarrow> None
         | Some dat \<Rightarrow>
             if d \<in> set (Snapshot (world x)) \<and> userKey (heap (world x) d) = drop (length broadcastChannelPrefix) ch
             then Some (marshal (EncodeBroadcast dat)) else None)
      else if HasPrefix ch reportChannelPrefix then
        (case unmarshal_wireReport pl of
           None \<Rightarrow> None
         | Some r \<Rightarrow>
             if d \<in> set (Snapshot (world x)) \<and> conn_id (heap (world x) d) = drop (length reportChannelPrefix) ch
             then Some (marshal (EncodeDeliveryReport (wr_Topic r) (wr_StreamID r) (wr_Instance r) (wr_Delivered r)
                    (wr_Dropped r) (wr_Filtered r))) else None)
      else None)"

text \<open>An instance whose tables are consistent, with different IDs on its sockets.\<close>

definition sound_inst :: "(cref, hub_world, 's) inst \<Rightarrow> bool" where
  "sound_inst x \<longleftrightarrow> hub_inv (world x) \<and> bus_inv (bus x) \<and> inj_on (\<lambda>c. conn_id (heap (world x) c)) (set (Snapshot (world x)))"

definition hub_env :: "(json \<Rightarrow> string) \<Rightarrow> (cref, hub_world, 's) bus_env \<Rightarrow> bool" where
  "hub_env marshal env \<longleftrightarrow> be_subs env = hub_subscribers marshal \<and> be_broadcast env = Some (hub_target marshal)"

lemma bus_dispatch_frame:
  assumes env: "hub_env marshal env" and x: "sound_inst x"
  shows "heap (world (bus_dispatch env ch pl x)) d =
    (case frame_for marshal x d ch pl of None \<Rightarrow> heap (world x) d | Some m \<Rightarrow> Send m (heap (world x) d))"
proof -
  have e: "be_subs env = hub_subscribers marshal" "be_broadcast env = Some (hub_target marshal)"
    using env by (simp_all add: hub_env_def)
  have h: "hub_inv (world x)" "bus_inv (bus x)" "inj_on (\<lambda>c. conn_id (heap (world x) c)) (set (Snapshot (world x)))"
    using x by (simp_all add: sound_inst_def)
  consider (topic) "HasPrefix ch topicChannelPrefix"
    | (bcast) "\<not> HasPrefix ch topicChannelPrefix" "HasPrefix ch broadcastChannelPrefix"
    | (other) "\<not> HasPrefix ch topicChannelPrefix" "\<not> HasPrefix ch broadcastChannelPrefix" by blast
  then show ?thesis
  proof cases
    case topic
    then show ?thesis
    proof (cases "unmarshal_wireTopic pl")
      case None
      with topic show ?thesis by (simp add: bus_dispatch_def handleTopic_def frame_for_def Let_def)
    next
      case (Some p)
      with handleTopic_fanout [OF h(2) e(1) Some, of "drop (length topicChannelPrefix) ch" d] topic show ?thesis
        by (simp add: bus_dispatch_def frame_for_def Let_def)
    qed
  next
    case bcast
    then show ?thesis
      by (cases "unmarshal_wireBroadcast pl")
        (simp_all add: bus_dispatch_def frame_for_def handleBroadcast_def e hub_target_def SendToUser_heap [OF h(1)])
  next
    case other
    then show ?thesis
      by (cases "unmarshal_wireReport pl")
        (simp_all add: bus_dispatch_def frame_for_def handleReport_def e hub_target_def SendToConn_heap [OF h(3)])
  qed
qed

lemma bus_dispatch_buffering:
  assumes "bus_inv (bus x)" and "be_subs env = hub_subscribers marshal"
  shows "is_buffering (bus (bus_dispatch env ch pl x)) d u = is_buffering (bus x) d u"
proof -
  have "is_buffering (bus (handleTopic env t pl x)) d u = is_buffering (bus x) d u" for t
  proof (cases "unmarshal_wireTopic pl")
    case None
    then show ?thesis by (simp add: handleTopic_def)
  next
    case (Some p)
    from handleTopic_fanout [OF assms Some, of t d u] show ?thesis
      by (auto simp: is_buffering_def split: option.splits)
  qed
  then show ?thesis
    by (auto simp: bus_dispatch_def handleBroadcast_def handleReport_def split: option.splits)
qed

text \<open>A message changes no table, so the next one is for the same connections.\<close>

lemma bus_dispatch_tables:
  assumes env: "hub_env marshal env" and x: "sound_inst x"
  shows "sound_inst (bus_dispatch env ch pl x)"
    and "frame_for marshal (bus_dispatch env ch pl x) = frame_for marshal x"
proof -
  have e: "be_subs env = hub_subscribers marshal" "be_broadcast env = Some (hub_target marshal)"
    using env by (simp_all add: hub_env_def)
  note f = only_sends_frame [OF bus_dispatch_sends [OF e, of x ch pl]]
  have snap: "Snapshot (world (bus_dispatch env ch pl x)) = Snapshot (world x)" by (simp add: Snapshot_def f(4))
  have b: "bus_inv (bus x)" using x by (simp add: sound_inst_def)
  show "frame_for marshal (bus_dispatch env ch pl x) = frame_for marshal x"
    by (intro ext) (simp only: frame_for_def snap f(1,2) bus_dispatch_subs bus_dispatch_buffering [OF b e(1)])
  show "sound_inst (bus_dispatch env ch pl x)"
    using x hub_inv_cong [OF f(4,1)] by (simp add: sound_inst_def snap f(2) bus_dispatch_inv)
qed

section \<open>A run of the listener\<close>

text \<open>The messages a run takes before its context ends or the subscription is closed.\<close>

fun taken :: "bus_event list \<Rightarrow> (string \<times> blob) list" where
  "taken (EvMessage ch pl # evs) = (ch, pl) # taken evs"
| "taken evs = []"

definition stops :: "bus_event list \<Rightarrow> bool" where
  "stops evs \<longleftrightarrow> EvCtxDone \<in> set evs \<or> EvChannelClosed \<in> set evs"

lemma listen_loop_fold: "listen_loop env evs x = (stops evs, fold (\<lambda>(ch, pl). bus_dispatch env ch pl) (taken evs) x)"
  by (induction env evs x rule: listen_loop.induct) (auto simp: stops_def)

lemma fold_dispatch_frames:
  assumes "hub_env marshal env" and "sound_inst x"
  shows "heap (world (fold (\<lambda>(ch, pl). bus_dispatch env ch pl) ms x)) d =
    fold Send (List.map_filter (\<lambda>(ch, pl). frame_for marshal x d ch pl) ms) (heap (world x) d)"
  using assms(2)
proof (induction ms arbitrary: x)
  case Nil
  then show ?case by simp
next
  case (Cons m ms)
  obtain ch pl where m: "m = (ch, pl)" by (cases m)
  note t = bus_dispatch_tables [OF assms(1) Cons.prems, of ch pl]
  have "fold (\<lambda>(ch, pl). bus_dispatch env ch pl) (m # ms) x = fold (\<lambda>(ch, pl). bus_dispatch env ch pl) ms (bus_dispatch env ch pl x)"
    by (simp add: m)
  then show ?case
    using Cons.IH [OF t(1)] bus_dispatch_frame [OF assms(1) Cons.prems, of ch pl d]
    by (simp add: t(2) m map_filter_simps split: option.splits)
qed

text \<open>
  A run of the listener (C18). From a subscription that answers the ping, \<^verbatim>\<open>Run\<close> returns exactly when its
  context ends or the subscription is closed, with no error; until then it goes on. Every
  connection has been sent exactly the frames the messages are for it, from the tables alone and
  in the order of the messages, and nothing of what came after the end.
\<close>

theorem bus_Run_sends:
  assumes env: "hub_env marshal env" and x: "sound_inst x"
  shows "\<exists>l x'. bus_Run None env evs (new_life, x) = (if stops evs then Some None else None, l, x')
    \<and> (bl_done l \<longleftrightarrow> stops evs) \<and> (bl_trims l \<longleftrightarrow> StreamTTL (be_cfg env) > 0)
    \<and> (\<forall>d. heap (world x') d = fold Send (List.map_filter (\<lambda>(ch, pl). frame_for marshal x d ch pl) (taken evs)) (heap (world x) d))"
proof -
  let ?l = "\<lparr>pubsub = Subscribed bus_patterns, bl_done = stops evs, bl_once = False, bl_trims = StreamTTL (be_cfg env) > 0\<rparr>"
  let ?x = "fold (\<lambda>(ch, pl). bus_dispatch env ch pl) (taken evs) x"
  have "bus_Run None env evs (new_life, x) = (if stops evs then Some None else None, ?l, ?x)"
    by (simp add: bus_Run_def new_life_def listen_loop_fold Let_def)
  then show ?thesis using fold_dispatch_frames [OF env x] by (intro exI [of _ ?l] exI [of _ ?x]) simp
qed

theorem bus_Run_sends_witness:
  "let evs = [EvMessage (topicChannelPrefix @ ''t'') (marshal_wireTopic demo_payload), EvCtxDone,
         EvMessage (topicChannelPrefix @ ''t'') (marshal_wireTopic demo_payload)];
       (r, l, x') = bus_Run None (bus_of open_deps) evs (new_life, demo_sub_inst)
   in r = Some None \<and> sendCh (heap (world x') 3) = [text_frame ''x''] \<and> sendCh (heap (world x') 4) = []"
proof -
  let ?m = "EvMessage (topicChannelPrefix @ ''t'') (marshal_wireTopic demo_payload)"
  have e: "hub_env (\<lambda>j. ''x'') (bus_of open_deps)" by (simp add: hub_env_def bus_of_def open_deps_def demo_deps_def)
  have w: "world demo_sub_inst = demo_world" by (simp add: demo_sub_inst_def demo_inst_def)
  then have x: "sound_inst demo_sub_inst" using demo_world_inv demo_sub_inv by (simp add: sound_inst_def Snapshot_def demo_world_def)
  have q: "sendCh (Send ''x'' (heap demo_world 3)) = [text_frame ''x'']" "sendCh (heap demo_world 4) = []"
    by (simp_all add: demo_world_def conn_eval)
  have i: "conn_id (heap demo_world 3) = ''3''" "conn_id (heap demo_world 4) \<noteq> ''3''"
    by (simp_all add: demo_world_def NewConn_def demo_cfg_def FormatUint.simps digit_char_eval)
  have "frame_for (\<lambda>j. ''x'') demo_sub_inst d (topicChannelPrefix @ ''t'') (marshal_wireTopic demo_payload) =
      (if d = 3 then Some ''x'' else None)" if "d = 3 \<or> d = 4" for d
    using that i by (auto simp: frame_for_def HasPrefix_append wireTopic_roundtrip w Let_def)
      (auto simp: bus_eval is_buffering_def)
  from this [of 3] this [of 4] bus_Run_sends [OF e x, of "[?m, EvCtxDone, ?m]"] show ?thesis
    by (auto simp: stops_def map_filter_simps q w Let_def split: prod.splits)
qed

section \<open>Trimming\<close>

fun ticks :: "trim_event list \<Rightarrow> int list" where
  "ticks (Tick now # evs) = now # ticks evs"
| "ticks evs = []"

text \<open>
  The trim loop (C34). Whatever ticks a run of the loop sees before its context ends, each topic's stream
  keeps exactly the entries that were within the time to live at every tick, in their order, and no
  other stream changes.
\<close>

theorem trim_loop_keeps_recent:
  assumes doc: "documented False R v"
  shows "stream_at (v (snd (runTrimLoop R ttl evs s))) k =
    (if HasPrefix k streamKeyPrefix
     then filter (\<lambda>e. \<forall>now \<in> set (ticks evs). \<not> pos_less (splitStreamID (fst e)) (splitStreamID (FormatInt (now - ttl) @ ''-0'')))
       (stream_at (v s) k)
     else stream_at (v s) k)"
proof (induction evs arbitrary: s)
  case Nil
  then show ?case by simp
next
  case (Cons ev evs)
  then show ?case using trim_pass [OF doc, of ttl _ s k] by (cases ev) (auto simp: filter_filter intro!: filter_cong)
qed

theorem trim_loop_keeps_recent_witness:
  "map fst (stream_at (ref_view (snd (runTrimLoop ref_redis 4 [Tick 10, TrimCtxDone, Tick 100] (rds demo_history)))) ''topic:stream:t'') = [''7-0'']"
proof -
  have pre: "HasPrefix ''topic:stream:t'' streamKeyPrefix" by (simp add: HasPrefix_def prefix_defs)
  have min: "splitStreamID (FormatInt (10 - 4) @ ''-0'') = (6, 0)"
    using splitStreamID_stream_id [of 6 0]
    by (simp add: stream_id_def FormatInt_def FormatUint.simps digit_char_eval max_int64_def)
  show ?thesis
    using trim_loop_keeps_recent [OF ref_redis_documented, of 4 "[Tick 10, TrimCtxDone, Tick 100]" "rds demo_history" "''topic:stream:t''"] pre min
    by (simp add: demo_history_def stream_at_def demo_splits pos_less_def)
qed

end
