(* ===== verification/AppRun.thy ===== *)
theory AppRun
  imports BusRun Session
begin

text \<open>
  \<^verbatim>\<open>App.Run\<close> of \<^verbatim>\<open>internal/app/app.go\<close>: the goroutines it starts, the wait for the context or for the
  error of a subsystem, the shutdown and the wait for the goroutines, as the steps of a relation that
  interleaves them. What the connections and the rest of the cluster do meanwhile is a step that
  changes the instance and Redis at will.
\<close>

section \<open>State\<close>

datatype bus_go = BusStarting | BusListening | BusReturned

datatype sched_go = SchedStarting | SchedLooping | SchedReturned

datatype serve_go = Serving | ServeReturned

datatype run_phase =
    Selecting
  | ShuttingDown "goerr option"
  | WaitingGroup "goerr option"
  | Returned "goerr option"
  | Panicked goerr

text \<open>
  \<open>rn_caller\<close> says that the caller has cancelled its context; \<open>rn_stopped\<close> that the HTTP servers were
  told to shut down. Without a metrics server, its goroutine counts as returned.
\<close>

record ('s, 'h) run_st =
  rn_caller :: bool
  rn_phase :: run_phase
  rn_errCh :: "goerr list"
  rn_bus :: bus_go
  rn_life :: bus_life
  rn_sched :: sched_go
  rn_jobs :: "('s, 'h) sched"
  rn_http :: serve_go
  rn_metrics :: serve_go
  rn_stopped :: bool
  rn_open :: "resource list"
  rn_inst :: "(cref, hub_world, 's) inst"

text \<open>
  The parameters: the bus, the shutdown timeout with what the writers do until it ends, and the
  scheduler's environment, which after the shutdown has a closed Redis client.
\<close>

record ('s, 'h) run_par =
  rp_bus :: "(cref, hub_world, 's) bus_env"
  rp_sched :: "bool \<Rightarrow> ('s, 'h) sched_env"
  rp_timeout :: int
  rp_settle :: "int \<Rightarrow> hub_world \<Rightarrow> hub_world"

definition run_start :: "int \<Rightarrow> string option \<Rightarrow> ('s, 'h) sched \<Rightarrow> (cref, hub_world, 's) inst \<Rightarrow> ('s, 'h) run_st" where
  "run_start port metricsS jobs i = \<lparr>rn_caller = False, rn_phase = Selecting, rn_errCh = [], rn_bus = BusStarting, rn_life = new_life,
     rn_sched = SchedStarting, rn_jobs = jobs, rn_http = Serving, rn_metrics = (if metricsS = None then ServeReturned else Serving),
     rn_stopped = False, rn_open = clients @ [TCPListener port], rn_inst = i\<rparr>"

text \<open>The context \<^verbatim>\<open>Run\<close> passes to the bus and the scheduler, and selects on: the caller's own.\<close>

definition run_ctx :: "('s, 'h) run_st \<Rightarrow> bool" where
  "run_ctx x = rn_caller x"

section \<open>The goroutines\<close>

text \<open>The bus: the subscription and its ping, then the listener over the events that are ready.\<close>

definition bus_start :: "('s, 'h) run_par \<Rightarrow> goerr option \<Rightarrow> ('s, 'h) run_st \<Rightarrow> ('s, 'h) run_st" where
  "bus_start P ping x =
     (let l = (rn_life x)\<lparr>pubsub := Subscribed bus_patterns\<rparr> in
      case ping of
        Some e \<Rightarrow> x\<lparr>rn_life := l, rn_bus := BusReturned,
          rn_errCh := rn_errCh x @ [Wrap ''bus: '' (Wrap ''psubscribe ping: '' e []) []]\<rparr>
      | None \<Rightarrow> x\<lparr>rn_life := l\<lparr>bl_trims := StreamTTL (be_cfg (rp_bus P)) > 0\<rparr>, rn_bus := BusListening\<rparr>)"

definition bus_ready :: "('s, 'h) run_st \<Rightarrow> bus_event \<Rightarrow> bool" where
  "bus_ready x ev =
     (case ev of EvMessage ch pl \<Rightarrow> True | EvChannelClosed \<Rightarrow> pubsub (rn_life x) = PubSubClosed | EvCtxDone \<Rightarrow> run_ctx x)"

definition bus_turn :: "('s, 'h) run_par \<Rightarrow> bus_event \<Rightarrow> ('s, 'h) run_st \<Rightarrow> ('s, 'h) run_st" where
  "bus_turn P ev x =
     (let (returned, i) = listen_loop (rp_bus P) [ev] (rn_inst x) in
      if returned then x\<lparr>rn_inst := i, rn_bus := BusReturned, rn_life := (rn_life x)\<lparr>bl_done := True\<rparr>\<rparr>
      else x\<lparr>rn_inst := i\<rparr>)"

text \<open>The scheduler: \<^verbatim>\<open>ResumeOnStartup\<close>, whose error is only logged, then the turns of its loop.\<close>

definition sched_start :: "('s, 'h) run_par \<Rightarrow> ('s, 'h) run_st \<Rightarrow> ('s, 'h) run_st" where
  "sched_start P x =
     (let E = rp_sched P (rn_open x = []) in
      x\<lparr>rn_sched := SchedLooping, rn_jobs := (rn_jobs x)\<lparr>sd_rds := snd (ResumeOnStartup (se_redis E) (sd_rds (rn_jobs x)))\<rparr>\<rparr>)"

definition sched_turn :: "('s, 'h) run_par \<Rightarrow> int \<Rightarrow> wait_event \<Rightarrow> ('s, 'h) run_st \<Rightarrow> ('s, 'h) run_st" where
  "sched_turn P now ev x =
     (let (nx, j) = run_turn (rp_sched P (rn_open x = [])) now ev (rn_jobs x) in
      case nx of
        Stop \<Rightarrow> x\<lparr>rn_jobs := j, rn_sched := SchedReturned\<rparr>
      | Crash p \<Rightarrow> x\<lparr>rn_jobs := j, rn_phase := Panicked p\<rparr>
      | _ \<Rightarrow> x\<lparr>rn_jobs := j\<rparr>)"

text \<open>The HTTP servers: an error of the metrics server is only logged.\<close>

definition http_fails :: "goerr \<Rightarrow> ('s, 'h) run_st \<Rightarrow> ('s, 'h) run_st" where
  "http_fails e x = x\<lparr>rn_http := ServeReturned, rn_errCh := rn_errCh x @ [Wrap ''http server: '' e []]\<rparr>"

text \<open>\<^verbatim>\<open>shutdown\<close> as a step of the main goroutine.\<close>

definition run_shutdown :: "('s, 'h) run_par \<Rightarrow> goerr option \<Rightarrow> ('s, 'h) run_st \<Rightarrow> ('s, 'h) run_st" where
  "run_shutdown P r x =
     (let (stuck, rs, w) = shutdown (rp_timeout P) (rp_settle P) (rn_open x) (world (rn_inst x)) in
      x\<lparr>rn_stopped := True, rn_inst := (rn_inst x)\<lparr>world := w\<rparr>, rn_life := bus_Close (rn_life x), rn_open := rs,
        rn_phase := WaitingGroup r\<rparr>)"

text \<open>\<^verbatim>\<open>wg.Wait\<close> returns.\<close>

definition group_done :: "('s, 'h) run_st \<Rightarrow> bool" where
  "group_done x \<longleftrightarrow> rn_bus x = BusReturned \<and> rn_sched x = SchedReturned \<and> rn_http x = ServeReturned \<and> rn_metrics x = ServeReturned"

fun running :: "run_phase \<Rightarrow> bool" where
  "running (Returned r) = False"
| "running (Panicked p) = False"
| "running _ = True"

inductive run_step :: "('s, 'h) run_par \<Rightarrow> ('s, 'h) run_st \<Rightarrow> ('s, 'h) run_st \<Rightarrow> bool" for P where
  caller_cancels: "running (rn_phase x) \<Longrightarrow> run_step P x (x\<lparr>rn_caller := True\<rparr>)"
| cluster_acts: "running (rn_phase x) \<Longrightarrow> run_step P x (x\<lparr>rn_inst := i, rn_jobs := (rn_jobs x)\<lparr>sd_rds := s, wakeCh := b\<rparr>\<rparr>)"
| bus_starts: "running (rn_phase x) \<Longrightarrow> rn_bus x = BusStarting \<Longrightarrow> run_step P x (bus_start P ping x)"
| bus_turns: "running (rn_phase x) \<Longrightarrow> rn_bus x = BusListening \<Longrightarrow> bus_ready x ev \<Longrightarrow> run_step P x (bus_turn P ev x)"
| sched_starts: "running (rn_phase x) \<Longrightarrow> rn_sched x = SchedStarting \<Longrightarrow> run_step P x (sched_start P x)"
| sched_turns: "running (rn_phase x) \<Longrightarrow> rn_sched x = SchedLooping \<Longrightarrow> (ev = EvCancel \<longrightarrow> run_ctx x) \<Longrightarrow>
    run_step P x (sched_turn P now ev x)"
| http_error: "running (rn_phase x) \<Longrightarrow> rn_http x = Serving \<Longrightarrow> run_step P x (http_fails e x)"
| http_closes: "running (rn_phase x) \<Longrightarrow> rn_http x = Serving \<Longrightarrow> rn_stopped x \<Longrightarrow> run_step P x (x\<lparr>rn_http := ServeReturned\<rparr>)"
| metrics_end: "running (rn_phase x) \<Longrightarrow> rn_metrics x = Serving \<Longrightarrow> run_step P x (x\<lparr>rn_metrics := ServeReturned\<rparr>)"
| main_done: "rn_phase x = Selecting \<Longrightarrow> run_ctx x \<Longrightarrow> run_step P x (x\<lparr>rn_phase := ShuttingDown None\<rparr>)"
| main_error: "rn_phase x = Selecting \<Longrightarrow> rn_errCh x = e # es \<Longrightarrow>
    run_step P x (x\<lparr>rn_phase := ShuttingDown (Some e), rn_errCh := es\<rparr>)"
| main_shutdown: "rn_phase x = ShuttingDown r \<Longrightarrow> run_step P x (run_shutdown P r x)"
| main_return: "rn_phase x = WaitingGroup r \<Longrightarrow> group_done x \<Longrightarrow> run_step P x (x\<lparr>rn_phase := Returned r\<rparr>)"

section \<open>What every run keeps\<close>

text \<open>The errors a subsystem can send.\<close>

definition fatal_error :: "goerr \<Rightarrow> bool" where
  "fatal_error e \<longleftrightarrow> (\<exists>e'. e = Wrap ''bus: '' e' [] \<or> e = Wrap ''http server: '' e' [])"

fun phase_result :: "run_phase \<Rightarrow> goerr option option" where
  "phase_result (ShuttingDown r) = Some r"
| "phase_result (WaitingGroup r) = Some r"
| "phase_result (Returned r) = Some r"
| "phase_result _ = None"

definition run_inv :: "int \<Rightarrow> ('s, 'h) run_st \<Rightarrow> bool" where
  "run_inv port x \<longleftrightarrow> (rn_sched x = SchedReturned \<longrightarrow> rn_caller x)
     \<and> list_all fatal_error (rn_errCh x)
     \<and> length (rn_errCh x) \<le> (if rn_bus x = BusReturned then 1 else 0) + (if rn_http x = ServeReturned then 1 else 0)
     \<and> (case phase_result (rn_phase x) of None \<Rightarrow> True | Some None \<Rightarrow> rn_caller x | Some (Some e) \<Rightarrow> fatal_error e)
     \<and> (case rn_phase x of
          Selecting \<Rightarrow> rn_open x = clients @ [TCPListener port]
        | ShuttingDown r \<Rightarrow> rn_open x = clients @ [TCPListener port]
        | WaitingGroup r \<Rightarrow> rn_open x = [] \<and> rn_stopped x
        | Returned r \<Rightarrow> rn_open x = [] \<and> rn_stopped x \<and> group_done x
        | Panicked p \<Rightarrow> True)"

lemma run_turn_stop: "run_turn E now ev x = (Stop, x') \<Longrightarrow> ev = EvCancel"
  by (auto simp: run_turn_def waitForWakeOrTimer_def sleepCtx_def Let_def
    split: sum.splits prod.splits if_splits wait_event.splits option.splits)

lemma shutdown_closes: "\<exists>n w'. shutdown t settle (clients @ [TCPListener port]) w = (n, [], w')"
  by (simp add: shutdown_def Let_def clients_def close_clients_def)

lemma run_step_inv:
  assumes "run_step P x y" and inv: "run_inv port x"
  shows "run_inv port y"
  using assms(1)
proof (cases rule: run_step.cases)
  case (bus_starts ping)
  with inv show ?thesis
    by (cases ping; cases "rn_phase x") (auto simp: run_inv_def bus_start_def Let_def fatal_error_def group_done_def split: option.splits)
next
  case (bus_turns ev)
  with inv show ?thesis
    by (cases "rn_phase x") (auto simp: run_inv_def bus_turn_def Let_def group_done_def split: prod.splits option.splits if_splits)
next
  case sched_starts
  with inv show ?thesis
    by (cases "rn_phase x") (auto simp: run_inv_def sched_start_def Let_def group_done_def split: option.splits)
next
  case (sched_turns ev now)
  obtain nx j where t: "run_turn (rp_sched P (rn_open x = [])) now ev (rn_jobs x) = (nx, j)" by fastforce
  have "nx = Stop \<Longrightarrow> rn_caller x" using run_turn_stop [of _ now ev] t sched_turns by (auto simp: run_ctx_def)
  with t inv sched_turns show ?thesis
    by (cases "rn_phase x"; cases nx) (auto simp: run_inv_def sched_turn_def Let_def group_done_def split: option.splits)
next
  case (http_error e)
  with inv show ?thesis
    by (cases "rn_phase x") (auto simp: run_inv_def http_fails_def fatal_error_def group_done_def split: option.splits)
next
  case (main_shutdown r)
  with inv have "rn_open x = clients @ [TCPListener port]" by (simp add: run_inv_def)
  with inv main_shutdown shutdown_closes [of "rp_timeout P" "rp_settle P" port "world (rn_inst x)"] show ?thesis
    by (auto simp: run_inv_def run_shutdown_def Let_def split: option.splits)
next
  case (main_error e es)
  with inv show ?thesis by (auto simp: run_inv_def)
qed (use inv in \<open>cases "rn_phase x"; auto simp: run_inv_def run_ctx_def group_done_def split: option.splits\<close>)+

interpretation app_run: inv_system "\<lambda>(P, port). True" "\<lambda>(P, port) x. \<exists>m jobs i. x = run_start port m jobs i"
  "\<lambda>(P, port). run_step P" "\<lambda>(P, port). run_inv port"
  by unfold_locales (auto simp: run_start_def run_inv_def intro: run_step_inv)

section \<open>How a run ends\<close>

text \<open>After the shutdown of a run whose caller has cancelled, each goroutine can return.\<close>

definition ending :: "goerr option \<Rightarrow> ('s, 'h) run_st \<Rightarrow> bool" where
  "ending r x \<longleftrightarrow> rn_caller x \<and> rn_phase x = WaitingGroup r \<and> rn_open x = [] \<and> rn_stopped x"

lemma bus_ends:
  assumes "ending r x"
  shows "\<exists>y. (run_step P)\<^sup>*\<^sup>* x y \<and> ending r y \<and> rn_bus y = BusReturned
    \<and> rn_sched y = rn_sched x \<and> rn_http y = rn_http x \<and> rn_metrics y = rn_metrics x"
proof (cases "rn_bus x")
  case BusStarting
  with assms run_step.bus_starts [of x P "Some (Err [])"] show ?thesis
    by (intro exI [of _ "bus_start P (Some (Err [])) x"]) (auto simp: ending_def bus_start_def Let_def)
next
  case BusListening
  with assms run_step.bus_turns [of x EvCtxDone P] show ?thesis
    by (intro exI [of _ "bus_turn P EvCtxDone x"]) (auto simp: ending_def bus_turn_def bus_ready_def run_ctx_def)
next
  case BusReturned
  with assms show ?thesis by blast
qed

lemma sched_turn_ends:
  assumes "ending r x" and "rn_sched x = SchedLooping"
    and closed: "\<forall>s. \<exists>e s'. NextDueAt (se_redis (rp_sched P True)) s = (Inl e, s')"
  shows "run_step P x (sched_turn P now EvCancel x) \<and> ending r (sched_turn P now EvCancel x)
    \<and> rn_sched (sched_turn P now EvCancel x) = SchedReturned \<and> rn_bus (sched_turn P now EvCancel x) = rn_bus x
    \<and> rn_http (sched_turn P now EvCancel x) = rn_http x \<and> rn_metrics (sched_turn P now EvCancel x) = rn_metrics x"
proof -
  from closed obtain e s' where "NextDueAt (se_redis (rp_sched P True)) (sd_rds (rn_jobs x)) = (Inl e, s')" by blast
  then have "run_turn (rp_sched P True) now EvCancel (rn_jobs x) = (Stop, (rn_jobs x)\<lparr>sd_rds := s'\<rparr>)"
    by (simp add: run_turn_def sleepCtx_def)
  moreover have "run_step P x (sched_turn P now EvCancel x)"
    using assms(1,2) by (intro run_step.sched_turns) (simp_all add: ending_def run_ctx_def)
  ultimately show ?thesis using assms(1) by (simp add: sched_turn_def ending_def)
qed

lemma sched_ends:
  assumes "ending r x" and closed: "\<forall>s. \<exists>e s'. NextDueAt (se_redis (rp_sched P True)) s = (Inl e, s')"
  shows "\<exists>y. (run_step P)\<^sup>*\<^sup>* x y \<and> ending r y \<and> rn_sched y = SchedReturned
    \<and> rn_bus y = rn_bus x \<and> rn_http y = rn_http x \<and> rn_metrics y = rn_metrics x"
proof (cases "rn_sched x")
  case SchedStarting
  let ?x1 = "sched_start P x"
  have one: "run_step P x ?x1" using assms(1) SchedStarting by (intro run_step.sched_starts) (simp_all add: ending_def)
  have e1: "ending r ?x1" "rn_sched ?x1 = SchedLooping" "rn_bus ?x1 = rn_bus x" "rn_http ?x1 = rn_http x" "rn_metrics ?x1 = rn_metrics x"
    using assms(1) by (simp_all add: ending_def sched_start_def Let_def)
  from sched_turn_ends [OF e1(1,2) closed, of 0] one e1 show ?thesis
    by (intro exI [of _ "sched_turn P 0 EvCancel ?x1"]) (auto intro: converse_rtranclp_into_rtranclp)
next
  case SchedLooping
  from sched_turn_ends [OF assms(1) this closed, of 0] show ?thesis by (intro exI [of _ "sched_turn P 0 EvCancel x"]) auto
next
  case SchedReturned
  with assms show ?thesis by blast
qed

lemma servers_end:
  assumes "ending r x"
  shows "\<exists>y. (run_step P)\<^sup>*\<^sup>* x y \<and> ending r y \<and> rn_http y = ServeReturned \<and> rn_metrics y = ServeReturned
    \<and> rn_bus y = rn_bus x \<and> rn_sched y = rn_sched x"
proof -
  let ?x1 = "x\<lparr>rn_http := ServeReturned\<rparr>" and ?x2 = "x\<lparr>rn_http := ServeReturned, rn_metrics := ServeReturned\<rparr>"
  have one: "(run_step P)\<^sup>*\<^sup>* x ?x1"
  proof (cases "rn_http x")
    case Serving
    with assms run_step.http_closes [of x P] show ?thesis by (auto simp: ending_def)
  next
    case ServeReturned
    then have "?x1 = x" by simp
    then show ?thesis by (simp only: rtranclp.rtrancl_refl)
  qed
  have "(run_step P)\<^sup>*\<^sup>* ?x1 ?x2"
  proof (cases "rn_metrics x")
    case Serving
    with assms run_step.metrics_end [of ?x1 P] show ?thesis by (auto simp: ending_def)
  next
    case ServeReturned
    then have "?x2 = ?x1" by simp
    then show ?thesis by (simp only: rtranclp.rtrancl_refl)
  qed
  with one have "(run_step P)\<^sup>*\<^sup>* x ?x2" by simp
  with assms show ?thesis by (intro exI [of _ ?x2]) (simp add: ending_def)
qed

lemma ending_returns:
  assumes "ending r x" and closed: "\<forall>s. \<exists>e s'. NextDueAt (se_redis (rp_sched P True)) s = (Inl e, s')"
  shows "\<exists>z. (run_step P)\<^sup>*\<^sup>* x z \<and> rn_phase z = Returned r"
proof -
  from bus_ends [OF assms(1), of P] obtain x1 where x1: "(run_step P)\<^sup>*\<^sup>* x x1" "ending r x1" "rn_bus x1 = BusReturned" by blast
  from sched_ends [OF x1(2) closed] obtain x2 where x2: "(run_step P)\<^sup>*\<^sup>* x1 x2" "ending r x2" "rn_sched x2 = SchedReturned"
    "rn_bus x2 = rn_bus x1" by blast
  from servers_end [OF x2(2), of P] obtain x3 where x3: "(run_step P)\<^sup>*\<^sup>* x2 x3" "ending r x3" "rn_http x3 = ServeReturned"
    "rn_metrics x3 = ServeReturned" "rn_bus x3 = rn_bus x2" "rn_sched x3 = rn_sched x2" by blast
  have "run_step P x3 (x3\<lparr>rn_phase := Returned r\<rparr>)"
    using x1 x2 x3 by (intro run_step.main_return) (simp_all add: ending_def group_done_def)
  with x1(1) x2(1) x3(1) have "(run_step P)\<^sup>*\<^sup>* x (x3\<lparr>rn_phase := Returned r\<rparr>)"
    by (meson rtranclp.rtrancl_into_rtrancl rtranclp_trans)
  then show ?thesis by (intro exI [of _ "x3\<lparr>rn_phase := Returned r\<rparr>"]) simp
qed

lemma cancelled_returns:
  assumes inv: "run_inv port x" and "rn_caller x" "running (rn_phase x)"
    and closed: "\<forall>s. \<exists>e s'. NextDueAt (se_redis (rp_sched P True)) s = (Inl e, s')"
  shows "\<exists>z r. (run_step P)\<^sup>*\<^sup>* x z \<and> rn_phase z = Returned r"
proof -
  have down: "\<exists>z. (run_step P)\<^sup>*\<^sup>* x z \<and> rn_phase z = Returned r"
    if x: "rn_phase x = ShuttingDown r" "run_inv port x" "rn_caller x" for r and x :: "('a, 'b) run_st"
  proof -
    have "rn_open x = clients @ [TCPListener port]" using x by (simp add: run_inv_def)
    with x shutdown_closes [of "rp_timeout P" "rp_settle P" port "world (rn_inst x)"] have "ending r (run_shutdown P r x)"
      by (auto simp: ending_def run_shutdown_def)
    from ending_returns [OF this closed] run_step.main_shutdown [OF x(1), of P] show ?thesis
      by (blast intro: converse_rtranclp_into_rtranclp)
  qed
  show ?thesis
  proof (cases "rn_phase x")
    case Selecting
    let ?y = "x\<lparr>rn_phase := ShuttingDown None\<rparr>"
    have "run_step P x ?y" using assms Selecting by (intro run_step.main_done) (simp_all add: run_ctx_def)
    with down [of ?y None] run_step_inv [OF this inv] assms show ?thesis by (auto intro: converse_rtranclp_into_rtranclp)
  next
    case (ShuttingDown r)
    with down assms show ?thesis by blast
  next
    case (WaitingGroup r)
    with assms have "ending r x" by (simp add: run_inv_def ending_def)
    from ending_returns [OF this closed] show ?thesis by blast
  qed (use assms in auto)
qed

text \<open>
  \<^verbatim>\<open>Run\<close> returns when the caller cancels, and only then (C38). In every interleaving of its goroutines, \<^verbatim>\<open>Run\<close> has
  returned only if the caller's context was cancelled, also after a subsystem has failed and the server was shut
  down: the scheduler, which gets the caller's context, goes on without it. When \<^verbatim>\<open>Run\<close> returns, every goroutine has
  returned, every client and listener is closed, and the result is nil or the error of the bus or
  of the HTTP server; no send on the error channel blocks. Once the caller has cancelled, a run that has not panicked can
  still return, whatever state it is in, given that a closed Redis client answers with errors.
\<close>

theorem run_returns_when_cancelled:
  assumes run: "(run_step P)\<^sup>*\<^sup>* (run_start port metricsS jobs i) y"
    and closed: "\<forall>s. \<exists>e s'. NextDueAt (se_redis (rp_sched P True)) s = (Inl e, s')"
  shows "(\<forall>r. rn_phase y = Returned r \<longrightarrow> rn_caller y \<and> group_done y \<and> rn_open y = [] \<and> (\<forall>e. r = Some e \<longrightarrow> fatal_error e))
    \<and> length (rn_errCh y) \<le> 3
    \<and> (rn_caller y \<and> running (rn_phase y) \<longrightarrow> (\<exists>z r. (run_step P)\<^sup>*\<^sup>* y z \<and> rn_phase z = Returned r))"
proof -
  have inv: "run_inv port y" using app_run.reachable_inv [of "(P, port)" "run_start port metricsS jobs i" y] run by auto
  then have "rn_phase y = Returned r \<Longrightarrow> rn_caller y \<and> group_done y \<and> rn_open y = [] \<and> (\<forall>e. r = Some e \<longrightarrow> fatal_error e)" for r
    by (auto simp: run_inv_def group_done_def split: option.splits)
  moreover have "length (rn_errCh y) \<le> 3" using inv by (auto simp: run_inv_def split: if_splits)
  ultimately show ?thesis using cancelled_returns [OF inv _ _ closed] by blast
qed

text \<open>The subscription of the bus fails, the server is shut down, and \<^verbatim>\<open>Run\<close> waits for its scheduler.\<close>

definition closed_env :: "bool \<Rightarrow> (ref_state, unit) sched_env" where
  "closed_env b = (if b then job_env\<lparr>se_redis := ref_redis\<lparr>rZFirst := (\<lambda>k s. (Inl (Err ''redis: client is closed''), s))\<rparr>\<rparr> else job_env)"

definition demo_par :: "(ref_state, unit) run_par" where
  "demo_par = \<lparr>rp_bus = demo_env, rp_sched = closed_env, rp_timeout = 0, rp_settle = (\<lambda>t w. w)\<rparr>"

definition failed_run :: "(ref_state, unit) run_st" where
  "failed_run = run_shutdown demo_par (Some (Wrap ''bus: '' (Wrap ''psubscribe ping: '' (Err ''EOF'') []) []))
     ((bus_start demo_par (Some (Err ''EOF'')) (run_start 8080 None (NewScheduler no_data ()) demo_inst))
        \<lparr>rn_phase := ShuttingDown (Some (Wrap ''bus: '' (Wrap ''psubscribe ping: '' (Err ''EOF'') []) [])), rn_errCh := []\<rparr>)"

theorem run_returns_when_cancelled_witness:
  "rn_phase failed_run = WaitingGroup (Some (Wrap ''bus: '' (Wrap ''psubscribe ping: '' (Err ''EOF'') []) []))
   \<and> (\<exists>z r. (run_step demo_par)\<^sup>*\<^sup>* (failed_run\<lparr>rn_caller := True\<rparr>) z \<and> rn_phase z = Returned r)"
proof -
  let ?e = "Wrap ''bus: '' (Wrap ''psubscribe ping: '' (Err ''EOF'') []) []"
  let ?x0 = "run_start 8080 None (NewScheduler no_data ()) demo_inst :: (ref_state, unit) run_st"
  let ?x1 = "bus_start demo_par (Some (Err ''EOF'')) ?x0"
  let ?x2 = "?x1\<lparr>rn_phase := ShuttingDown (Some ?e), rn_errCh := []\<rparr>"
  have ph: "rn_phase ?x1 = Selecting" "rn_errCh ?x1 = [?e]" by (simp_all add: bus_start_def run_start_def Let_def)
  have s1: "run_step demo_par ?x0 ?x1" by (rule run_step.bus_starts) (simp_all add: run_start_def)
  have s2: "run_step demo_par ?x1 ?x2" by (rule run_step.main_error [OF ph])
  have s3: "run_step demo_par ?x2 failed_run" unfolding failed_run_def by (rule run_step.main_shutdown) simp
  have w: "rn_phase failed_run = WaitingGroup (Some ?e)" by (simp add: failed_run_def run_shutdown_def split: prod.splits)
  have s4: "run_step demo_par failed_run (failed_run\<lparr>rn_caller := True\<rparr>)" by (rule run_step.caller_cancels) (simp add: w)
  from s1 s2 s3 s4 have run: "(run_step demo_par)\<^sup>*\<^sup>* ?x0 (failed_run\<lparr>rn_caller := True\<rparr>)"
    by (meson converse_rtranclp_into_rtranclp rtranclp.rtrancl_refl)
  have closed: "\<forall>s. \<exists>e s'. NextDueAt (se_redis (rp_sched demo_par True)) s = (Inl e, s')"
    by (simp add: demo_par_def closed_env_def NextDueAt_def)
  from run_returns_when_cancelled [OF run closed] w show ?thesis by simp
qed

end
