(* ===== verification/ReplayRace.thy ===== *)
theory ReplayRace
  imports BusDelivery
begin

text \<open>
  The race between a replay and live messages. \<^verbatim>\<open>SubscribeWithReplay\<close> holds the bus lock only in its
  three critical sections, so publishes by any instance, announcements and their fan-out run
  between them. \<open>race_step\<close> interleaves the parts of one call, taken from \<open>Bus\<close>, with the
  writes to the topic's stream, the pub/sub channel and the critical section of
  \<^verbatim>\<open>handleTopic\<close> on the same instance. The theorems say what the interleavings can and cannot do
  to the subscriber: no retained message is lost, none is sent twice as replay or twice as live,
  but a message can come once as replay and once more as live, and live messages can overtake.
\<close>

section \<open>The interleaving\<close>

text \<open>Where the subscribing goroutine is; the lists are the messages it has still to send.\<close>

datatype replay_pc =
    Before
  | Registered
  | Replaying "bufferedMsg list"
  | Flushing "bufferedMsg list"
  | Live

text \<open>
  \<open>stream\<close> is the topic's stream, \<open>used\<close> every message ever written to it, \<open>pend\<close> the
  messages whose publisher has run XADD but not yet PUBLISH, \<open>chan\<close> the announcements on their
  way to this instance, and \<open>sent\<close> what the subscriber was sent, with the replay flag.
\<close>

record 'c race =
  stream :: "(string \<times> blob) list"
  used :: "bufferedMsg list"
  pend :: "bufferedMsg list"
  chan :: "bufferedMsg list"
  rbus :: "'c Bus"
  pc :: replay_pc
  sent :: "(bufferedMsg \<times> bool) list"

definition entry_msg :: "string \<times> blob \<Rightarrow> bufferedMsg" where
  "entry_msg e = \<lparr>bm_streamID = fst e, bm_data = entry_data (snd e)\<rparr>"

text \<open>
  The steps. XADD assigns an ID above all earlier ones of the stream and may trim old entries, as
  the trim loop does; publishers announce in any order; the pub/sub channel is in order. What
  \<open>replayMessages\<close> returns is \<open>entries_after\<close> (lemma \<open>replayMessages_spec\<close>). Other
  subscribers and topics of the instance may change the bus meanwhile.
\<close>

inductive race_step :: "string \<Rightarrow> 'c \<Rightarrow> string \<Rightarrow> 'c race \<Rightarrow> 'c race \<Rightarrow> bool" for t c cur where
  rs_append: "\<forall>u \<in> set (used x). pos_less (splitStreamID (bm_streamID u)) (splitStreamID i) \<Longrightarrow>
    race_step t c cur x (x\<lparr>stream := drop k (stream x) @ [(i, Json j)], used := entry_msg (i, Json j) # used x,
      pend := entry_msg (i, Json j) # pend x\<rparr>)"
| rs_trim: "race_step t c cur x (x\<lparr>stream := drop k (stream x)\<rparr>)"
| rs_announce: "pend x = ps @ m # qs \<Longrightarrow>
    race_step t c cur x (x\<lparr>pend := ps @ qs, chan := chan x @ [m]\<rparr>)"
| rs_handle: "chan x = m # ms \<Longrightarrow>
    decide_fanout (\<lambda>_. True) t m (topic_subs (rbus x) t) (rbus x) [] 0 0 = (b, deliver, k, n) \<Longrightarrow>
    race_step t c cur x (x\<lparr>chan := ms, rbus := b, sent := sent x @ (if c \<in> set deliver then [(m, False)] else [])\<rparr>)"
| rs_other: "bus_inv b \<Longrightarrow> c \<in> set (topic_subs b t) \<longleftrightarrow> c \<in> set (topic_subs (rbus x) t) \<Longrightarrow>
    map_of (replay b) (c, t) = map_of (replay (rbus x)) (c, t) \<Longrightarrow>
    race_step t c cur x (x\<lparr>rbus := b\<rparr>)"
| rs_register: "pc x = Before \<Longrightarrow>
    race_step t c cur x (x\<lparr>rbus := swr_register c t (rbus x), pc := Registered\<rparr>)"
| rs_range: "pc x = Registered \<Longrightarrow>
    race_step t c cur x (x\<lparr>pc := Replaying (entries_after (stream x) cur)\<rparr>)"
| rs_replay: "pc x = Replaying (m # ms) \<Longrightarrow>
    race_step t c cur x (x\<lparr>rbus := swr_mark c t m (rbus x), sent := sent x @ [(m, True)], pc := Replaying ms\<rparr>)"
| rs_finish: "pc x = Replaying [] \<Longrightarrow> swr_finish c t (rbus x) = (leftover, b) \<Longrightarrow>
    race_step t c cur x (x\<lparr>rbus := b, pc := Flushing leftover\<rparr>)"
| rs_flush: "pc x = Flushing (m # ms) \<Longrightarrow>
    race_step t c cur x (x\<lparr>sent := sent x @ [(m, False)], pc := Flushing ms\<rparr>)"
| rs_live: "pc x = Flushing [] \<Longrightarrow> race_step t c cur x (x\<lparr>pc := Live\<rparr>)"

text \<open>Before the subscribe: a history whose messages may still be on their way, nothing sent yet.\<close>

definition race_init :: "string \<Rightarrow> 'c \<Rightarrow> 'c race \<Rightarrow> bool" where
  "race_init t c x \<longleftrightarrow> pc x = Before \<and> sent x = [] \<and> bus_inv (rbus x) \<and> c \<notin> set (topic_subs (rbus x) t)
     \<and> distinct (map bm_streamID (used x)) \<and> distinct (stream x) \<and> distinct (pend x @ chan x)
     \<and> entry_msg ` set (stream x) \<subseteq> set (used x) \<and> inj_on entry_msg (set (stream x))
     \<and> set (pend x @ chan x) \<subseteq> set (used x)"

section \<open>The bus at each point of the call\<close>

definition replayed_ids :: "(bufferedMsg \<times> bool) list \<Rightarrow> string set" where
  "replayed_ids ps = set (map (\<lambda>p. bm_streamID (fst p)) (filter snd ps))"

lemma replayed_ids_simps [simp]:
  "replayed_ids [] = {}" "replayed_ids (ps @ [(m, True)]) = insert (bm_streamID m) (replayed_ids ps)"
  "replayed_ids (ps @ [(m, False)]) = replayed_ids ps"
  by (simp_all add: replayed_ids_def)

definition bus_at_pc :: "string \<Rightarrow> 'c \<Rightarrow> 'c race \<Rightarrow> bool" where
  "bus_at_pc t c x \<longleftrightarrow> bus_inv (rbus x) \<and>
     (case pc x of
        Before \<Rightarrow> c \<notin> set (topic_subs (rbus x) t) \<and> sent x = []
      | Registered \<Rightarrow> sent x = [] \<and> (\<exists>rs. map_of (replay (rbus x)) (c, t) = Some rs \<and> buffering rs \<and> seen rs = [])
      | Replaying ms \<Rightarrow> (\<forall>p \<in> set (sent x). snd p)
          \<and> (\<exists>rs. map_of (replay (rbus x)) (c, t) = Some rs \<and> buffering rs \<and> set (seen rs) = replayed_ids (sent x))
      | Flushing ms \<Rightarrow> c \<in> set (topic_subs (rbus x) t) \<and> map_of (replay (rbus x)) (c, t) = None
      | Live \<Rightarrow> c \<in> set (topic_subs (rbus x) t) \<and> map_of (replay (rbus x)) (c, t) = None)"

lemma topic_subs_fold_buffer: "topic_subs (fold (buffer_for t m) cs d) u = topic_subs d u"
  by (induction cs arbitrary: d) (simp_all add: buffer_for_def)

lemma handle_effect:
  assumes inv: "bus_inv b" and run: "decide_fanout (\<lambda>_. True) t m (topic_subs b t) b [] 0 0 = (b', dl, k, n)"
  shows "bus_inv b' \<and> (\<forall>u. topic_subs b' u = topic_subs b u)
    \<and> (c \<in> set dl \<longleftrightarrow> c \<in> set (topic_subs b t) \<and> \<not> is_buffering b c t)
    \<and> map_of (replay b') (c, t) = (if c \<in> set (topic_subs b t) \<and> is_buffering b c t
      then map_option (\<lambda>rs. rs\<lparr>buf := buf rs @ [m]\<rparr>) (map_of (replay b) (c, t)) else map_of (replay b) (c, t))"
proof -
  let ?cs = "filter (\<lambda>c. is_buffering b c t) (topic_subs b t)"
  have b': "b' = fold (buffer_for t m) ?cs b" and dl: "dl = filter (\<lambda>c. \<not> is_buffering b c t) (topic_subs b t)"
    using run by (simp_all add: decide_fanout_closed)
  have "bus_inv b'" using decide_fanout_inv [OF inv, of "\<lambda>_. True" t m "topic_subs b t" "[]" 0 0] run by simp
  then show ?thesis
    using bus_inv_subs [OF inv, of t] by (simp add: b' dl fold_buffer_map topic_subs_fold_buffer)
qed

lemma replaying_registered:
  "bus_inv b \<Longrightarrow> map_of (replay b) (c, t) = Some rs \<Longrightarrow> c \<in> set (topic_subs b t)"
  by (auto simp: bus_inv_def)

lemma is_buffering_Some: "map_of (replay b) (c, t) = Some rs \<Longrightarrow> is_buffering b c t = buffering rs"
  by (simp add: is_buffering_def)

lemma is_buffering_None: "map_of (replay b) (c, t) = None \<Longrightarrow> \<not> is_buffering b c t"
  by (simp add: is_buffering_def)

text \<open>While the subscriber replays, an announcement is buffered for it; afterwards it is sent.\<close>

lemma handle_replaying:
  assumes "bus_inv b" and "map_of (replay b) (c, t) = Some rs" and "buffering rs"
    and "decide_fanout (\<lambda>_. True) t m (topic_subs b t) b [] 0 0 = (b', dl, k, n)"
  shows "c \<notin> set dl \<and> map_of (replay b') (c, t) = Some (rs\<lparr>buf := buf rs @ [m]\<rparr>) \<and> bus_inv b'"
  using handle_effect [OF assms(1,4), of c] replaying_registered [OF assms(1,2)] is_buffering_Some [OF assms(2)] assms(2,3)
  by simp

lemma handle_live:
  assumes "bus_inv b" and "map_of (replay b) (c, t) = None"
    and "decide_fanout (\<lambda>_. True) t m (topic_subs b t) b [] 0 0 = (b', dl, k, n)"
  shows "(c \<in> set dl \<longleftrightarrow> c \<in> set (topic_subs b t)) \<and> map_of (replay b') (c, t) = None \<and> bus_inv b'
    \<and> topic_subs b' t = topic_subs b t"
  using handle_effect [OF assms(1,3), of c] is_buffering_None [OF assms(2)] assms(2) by simp

lemma bus_at_pc_step: "race_step t c cur x x' \<Longrightarrow> bus_at_pc t c x \<Longrightarrow> bus_at_pc t c x'"
proof (induction rule: race_step.induct)
  case (rs_handle x m ms b deliver k n)
  then have inv: "bus_inv (rbus x)" by (simp add: bus_at_pc_def)
  note live = handle_live [OF inv _ rs_handle.hyps(2), of c] and rep = handle_replaying [OF inv _ _ rs_handle.hyps(2), of c]
    and eff = handle_effect [OF inv rs_handle.hyps(2), of c]
  show ?case
  proof (cases "pc x")
    case Before
    with rs_handle eff show ?thesis by (simp add: bus_at_pc_def)
  next
    case Registered
    with rs_handle obtain rs where "map_of (replay (rbus x)) (c, t) = Some rs" "buffering rs" "seen rs = []" "sent x = []"
      by (auto simp: bus_at_pc_def)
    with rep Registered show ?thesis by (simp add: bus_at_pc_def)
  next
    case (Replaying rest)
    with rs_handle obtain rs where "map_of (replay (rbus x)) (c, t) = Some rs" "buffering rs"
      "set (seen rs) = replayed_ids (sent x)" "\<forall>p \<in> set (sent x). snd p" by (auto simp: bus_at_pc_def)
    with rep Replaying show ?thesis by (simp add: bus_at_pc_def)
  qed (use rs_handle live in \<open>simp_all add: bus_at_pc_def\<close>)
next
  case (rs_other b x)
  then show ?case by (cases "pc x") (simp_all add: bus_at_pc_def)
next
  case (rs_register x)
  then show ?case
    using swr_register_inv [of "rbus x" c t] by (simp add: bus_at_pc_def map_replay_register)
next
  case (rs_replay x m ms)
  then show ?case
    by (auto simp: bus_at_pc_def swr_mark_def update_replay_map update_replay_inv)
next
  case (rs_finish x leftover b)
  then have "b = (rbus x)\<lparr>replay := AList.delete (c, t) (replay (rbus x))\<rparr>" by (auto simp: swr_finish_def)
  with rs_finish show ?case
    using delete_replay_inv [of "rbus x" c t] replaying_registered [of "rbus x" c t]
    by (auto simp: bus_at_pc_def delete_conv')
qed (auto simp: bus_at_pc_def split: replay_pc.splits)

section \<open>Where a message is\<close>

fun todo :: "replay_pc \<Rightarrow> bufferedMsg list" where
  "todo (Replaying ms) = ms"
| "todo (Flushing ms) = ms"
| "todo _ = []"

text \<open>The messages buffered for the subscriber.\<close>

definition held :: "string \<Rightarrow> 'c \<Rightarrow> 'c Bus \<Rightarrow> bufferedMsg list" where
  "held t c b = (case map_of (replay b) (c, t) of None \<Rightarrow> [] | Some rs \<Rightarrow> buf rs)"

text \<open>What each part of the call and the fan-out do to the buffer.\<close>

lemma held_handle:
  assumes at: "bus_at_pc t c x" and run: "decide_fanout (\<lambda>_. True) t m (topic_subs (rbus x) t) (rbus x) [] 0 0 = (b, dl, k, n)"
  shows "(case pc x of
        Before \<Rightarrow> c \<notin> set dl \<and> held t c b = held t c (rbus x)
      | Registered \<Rightarrow> c \<notin> set dl \<and> held t c b = held t c (rbus x) @ [m]
      | Replaying ms \<Rightarrow> c \<notin> set dl \<and> held t c b = held t c (rbus x) @ [m]
      | _ \<Rightarrow> c \<in> set dl \<and> held t c b = [] \<and> held t c (rbus x) = [])"
proof -
  have inv: "bus_inv (rbus x)" using at by (simp add: bus_at_pc_def)
  note live = handle_live [OF inv _ run, of c] and rep = handle_replaying [OF inv _ _ run, of c]
    and eff = handle_effect [OF inv run, of c]
  show ?thesis
  proof (cases "pc x")
    case Before
    with at eff show ?thesis by (simp add: bus_at_pc_def held_def)
  next
    case Registered
    with at obtain rs where "map_of (replay (rbus x)) (c, t) = Some rs" "buffering rs" by (auto simp: bus_at_pc_def)
    with rep Registered show ?thesis by (simp add: held_def)
  next
    case (Replaying ms)
    with at obtain rs where "map_of (replay (rbus x)) (c, t) = Some rs" "buffering rs" by (auto simp: bus_at_pc_def)
    with rep Replaying show ?thesis by (simp add: held_def)
  qed (use at live in \<open>simp_all add: bus_at_pc_def held_def\<close>)
qed

lemma held_register [simp]: "held t c (swr_register c t b) = []"
  by (simp add: held_def map_replay_register)

lemma held_mark [simp]: "held t c (swr_mark c t m b) = held t c b"
  by (simp add: held_def swr_mark_def update_replay_map split: option.splits)

lemma held_finish:
  assumes "bus_at_pc t c x" and "pc x = Replaying []" and "swr_finish c t (rbus x) = (leftover, b)"
  shows "leftover = filter (\<lambda>m. bm_streamID m \<notin> replayed_ids (sent x)) (held t c (rbus x)) \<and> held t c b = []"
  using assms by (auto simp: bus_at_pc_def swr_finish_def held_def delete_conv' split: option.splits)

section \<open>The invariants\<close>

text \<open>Every message in the system was written to the stream once, under an ID of its own.\<close>

definition origin_inv :: "string \<Rightarrow> 'c \<Rightarrow> 'c race \<Rightarrow> bool" where
  "origin_inv t c x \<longleftrightarrow> distinct (map bm_streamID (used x)) \<and> distinct (map entry_msg (stream x))
     \<and> set (map entry_msg (stream x)) \<union> set (pend x @ chan x @ held t c (rbus x) @ todo (pc x)) \<union> fst ` set (sent x) \<subseteq> set (used x)"

text \<open>An announcement is in one place only: on its way, buffered, left over, or sent as live.\<close>

definition leftover_of :: "replay_pc \<Rightarrow> bufferedMsg list" where
  "leftover_of p = (case p of Flushing ms \<Rightarrow> ms | _ \<Rightarrow> [])"

definition to_replay :: "replay_pc \<Rightarrow> bufferedMsg list" where
  "to_replay p = (case p of Replaying ms \<Rightarrow> ms | _ \<Rightarrow> [])"

definition live_sent :: "(bufferedMsg \<times> bool) list \<Rightarrow> bufferedMsg list" where
  "live_sent ps = map fst (filter (\<lambda>p. \<not> snd p) ps)"

definition replay_sent :: "(bufferedMsg \<times> bool) list \<Rightarrow> bufferedMsg list" where
  "replay_sent ps = map fst (filter snd ps)"

lemma sent_simps [simp]:
  "live_sent [] = []" "replay_sent [] = []"
  "live_sent (ps @ [(m, False)]) = live_sent ps @ [m]" "live_sent (ps @ [(m, True)]) = live_sent ps"
  "replay_sent (ps @ [(m, False)]) = replay_sent ps" "replay_sent (ps @ [(m, True)]) = replay_sent ps @ [m]"
  by (simp_all add: live_sent_def replay_sent_def)

definition once_inv :: "string \<Rightarrow> 'c \<Rightarrow> 'c race \<Rightarrow> bool" where
  "once_inv t c x \<longleftrightarrow>
     distinct (pend x @ chan x @ held t c (rbus x) @ leftover_of (pc x) @ live_sent (sent x))
     \<and> distinct (replay_sent (sent x) @ to_replay (pc x))"

text \<open>Once the stream was read, every retained message after the cursor is somewhere.\<close>

definition no_loss_inv :: "string \<Rightarrow> 'c \<Rightarrow> string \<Rightarrow> 'c race \<Rightarrow> bool" where
  "no_loss_inv t c cur x \<longleftrightarrow> (pc x \<noteq> Before \<and> pc x \<noteq> Registered \<longrightarrow>
     (\<forall>m \<in> set (entries_after (stream x) cur).
        m \<in> set (pend x @ chan x @ held t c (rbus x) @ todo (pc x)) \<union> fst ` set (sent x)))"

lemma entries_after_alt:
  "entries_after es cur = map entry_msg (filter (\<lambda>e. pos_less (splitStreamID cur) (splitStreamID (fst e))) es)"
  by (simp add: entries_after_def entry_msg_def [abs_def])

lemma entries_after_subset: "set (entries_after es cur) \<subseteq> set (map entry_msg es)"
  by (auto simp: entries_after_alt)

lemma distinct_entries_after: "distinct (map entry_msg es) \<Longrightarrow> distinct (entries_after es cur)"
  by (induction es) (auto simp: entries_after_alt)

lemma distinct_map_drop: "distinct (map f xs) \<Longrightarrow> distinct (map f (drop k xs))"
  by (metis distinct_drop drop_map)

lemma set_map_drop: "set (map f (drop k xs)) \<subseteq> set (map f xs)"
  by (metis drop_map set_drop_subset)

lemma new_not_used:
  "\<forall>u \<in> set us. pos_less (splitStreamID (bm_streamID u)) (splitStreamID i) \<Longrightarrow>
     i \<notin> bm_streamID ` set us \<and> entry_msg (i, j) \<notin> set us"
  by (auto simp: pos_less_irrefl entry_msg_def)

lemma origin_step:
  assumes "race_step t c cur x x'" and "bus_at_pc t c x" and "origin_inv t c x"
  shows "origin_inv t c x'"
  using assms
proof (induction rule: race_step.induct)
  case (rs_append x i j k)
  have sub: "set (map entry_msg (drop k (stream x))) \<subseteq> set (used x)"
    using rs_append.prems(2) set_map_drop [of entry_msg k "stream x"] by (auto simp: origin_inv_def)
  have new: "i \<notin> bm_streamID ` set (used x)" "entry_msg (i, Json j) \<notin> set (used x)"
    using new_not_used [OF rs_append.hyps, of "Json j"] by simp_all
  then have "entry_msg (i, Json j) \<notin> set (map entry_msg (drop k (stream x)))" using sub by blast
  moreover have "distinct (map entry_msg (drop k (stream x)))"
    using rs_append.prems(2) by (simp add: origin_inv_def distinct_map_drop)
  moreover have "bm_streamID (entry_msg (i, Json j)) = i" by (simp add: entry_msg_def)
  ultimately show ?case using rs_append.prems(2) new(1) sub by (auto simp: origin_inv_def)
next
  case (rs_trim x k)
  then show ?case using set_map_drop [of entry_msg k "stream x"] by (auto simp: origin_inv_def distinct_map_drop)
next
  case (rs_handle x m ms b deliver k n)
  then show ?case
    using held_handle [OF rs_handle.prems(1) rs_handle.hyps(2)]
    by (cases "pc x") (auto simp: origin_inv_def)
next
  case (rs_other b x)
  then show ?case by (simp add: origin_inv_def held_def)
next
  case (rs_range x)
  then show ?case using entries_after_subset [of "stream x" cur] by (auto simp: origin_inv_def)
next
  case (rs_finish x leftover b)
  then show ?case
    using held_finish [OF rs_finish.prems(1) rs_finish.hyps] by (auto simp: origin_inv_def)
qed (auto simp: origin_inv_def)

lemma once_step:
  assumes "race_step t c cur x x'" and "bus_at_pc t c x" and "origin_inv t c x" and "once_inv t c x"
  shows "once_inv t c x'"
  using assms
proof (induction rule: race_step.induct)
  case (rs_append x i j k)
  have "set (pend x @ chan x @ held t c (rbus x) @ leftover_of (pc x) @ live_sent (sent x)) \<subseteq> set (used x)"
    using rs_append.prems(2) by (cases "pc x") (auto simp: origin_inv_def leftover_of_def live_sent_def)
  with rs_append new_not_used [OF rs_append.hyps, of "Json j"] show ?case by (auto simp: once_inv_def)
next
  case (rs_handle x m ms b deliver k n)
  then show ?case
    using held_handle [OF rs_handle.prems(1) rs_handle.hyps(2)]
    by (cases "pc x") (auto simp: once_inv_def)
next
  case (rs_other b x)
  then show ?case by (simp add: once_inv_def held_def)
next
  case (rs_register x)
  then show ?case by (auto simp: once_inv_def leftover_of_def to_replay_def)
next
  case (rs_range x)
  then show ?case
    by (auto simp: once_inv_def leftover_of_def to_replay_def bus_at_pc_def origin_inv_def distinct_entries_after)
next
  case (rs_finish x leftover b)
  then show ?case
    using held_finish [OF rs_finish.prems(1) rs_finish.hyps] by (auto simp: once_inv_def leftover_of_def to_replay_def)
qed (auto simp: once_inv_def leftover_of_def to_replay_def)

lemma same_id_same_msg:
  "distinct (map bm_streamID us) \<Longrightarrow> m \<in> set us \<Longrightarrow> m' \<in> set us \<Longrightarrow> bm_streamID m = bm_streamID m' \<Longrightarrow> m = m'"
  by (auto simp: distinct_map dest: inj_onD)

lemma no_loss_step:
  assumes "race_step t c cur x x'" and "bus_at_pc t c x" and "origin_inv t c x" and "no_loss_inv t c cur x"
  shows "no_loss_inv t c cur x'"
  using assms
proof (induction rule: race_step.induct)
  case (rs_append x i j k)
  have "set (entries_after (drop k (stream x) @ [(i, Json j)]) cur)
      \<subseteq> insert (entry_msg (i, Json j)) (set (entries_after (stream x) cur))"
    by (auto simp: entries_after_alt dest: in_set_dropD)
  with rs_append.prems(3) show ?case by (auto simp: no_loss_inv_def)
next
  case (rs_trim x k)
  have "set (entries_after (drop k (stream x)) cur) \<subseteq> set (entries_after (stream x) cur)"
    by (auto simp: entries_after_alt dest: in_set_dropD)
  with rs_trim.prems(3) show ?case by (auto simp: no_loss_inv_def)
next
  case (rs_handle x m ms b deliver k n)
  then show ?case
    using held_handle [OF rs_handle.prems(1) rs_handle.hyps(2)]
    by (cases "pc x") (auto simp: no_loss_inv_def)
next
  case (rs_other b x)
  then show ?case by (simp add: no_loss_inv_def held_def)
next
  case (rs_finish x leftover b)
  have sent: "m \<in> fst ` set (sent x)" if "m \<in> set (held t c (rbus x))" "bm_streamID m \<in> replayed_ids (sent x)" for m
  proof -
    from that(2) obtain m' where m': "(m', True) \<in> set (sent x)" "bm_streamID m = bm_streamID m'"
      by (auto simp: replayed_ids_def)
    then have "m = m'"
      using rs_finish.prems(2) that(1)
      by (intro same_id_same_msg [of "used x"]) (auto simp: origin_inv_def image_subset_iff)
    with m' show ?thesis by force
  qed
  show ?case
    using rs_finish held_finish [OF rs_finish.prems(1) rs_finish.hyps] sent
    by (auto simp: no_loss_inv_def)
qed (auto simp: no_loss_inv_def)

lemma race_init_inv:
  assumes "race_init t c x"
  shows "bus_at_pc t c x \<and> origin_inv t c x \<and> once_inv t c x \<and> no_loss_inv t c cur x"
proof -
  have "held t c (rbus x) = []"
    using assms by (auto simp: race_init_def held_def bus_inv_def split: option.splits)
  with assms show ?thesis
    by (auto simp: race_init_def bus_at_pc_def origin_inv_def once_inv_def no_loss_inv_def leftover_of_def to_replay_def
        distinct_map)
qed

interpretation race_sys: inv_system "\<lambda>_. True" "\<lambda>(t, c, cur). race_init t c" "\<lambda>(t, c, cur). race_step t c cur"
  "\<lambda>(t, c, cur) x. bus_at_pc t c x \<and> origin_inv t c x \<and> once_inv t c x \<and> no_loss_inv t c cur x"
proof (unfold_locales, goal_cases)
  case (1 w x)
  then show ?case by (cases w) (simp add: race_init_inv)
next
  case (2 w x x')
  then show ?case by (cases w) (auto dest: bus_at_pc_step origin_step once_step no_loss_step)
qed

lemma race_inv:
  assumes "race_init t c x0" and "(race_step t c cur)\<^sup>*\<^sup>* x0 x"
  shows "bus_at_pc t c x \<and> origin_inv t c x \<and> once_inv t c x \<and> no_loss_inv t c cur x"
  using race_sys.reachable_inv [of "(t, c, cur)" x0 x] assms by simp

section \<open>What the subscriber receives\<close>

text \<open>
  No loss (C1). Whatever publishes, trims, announcements and subscriptions of others run between the
  parts of a subscribe with replay: once it has ended and the announcements have arrived, every
  message that the stream still holds after the cursor was sent to the subscriber.
\<close>

theorem replay_no_loss:
  assumes "race_init t c x0" and "(race_step t c cur)\<^sup>*\<^sup>* x0 x" and "pc x = Live" and "pend x = []" and "chan x = []"
  shows "set (entries_after (stream x) cur) \<subseteq> fst ` set (sent x)"
proof -
  note inv = race_inv [OF assms(1,2)]
  then have "held t c (rbus x) = []" using assms(3) by (simp add: bus_at_pc_def held_def)
  with inv assms(3-5) show ?thesis by (auto simp: no_loss_inv_def)
qed

text \<open>
  At most once each way (C17). In every interleaving a message is sent to the subscriber at most once as
  replay and at most once as live, and only messages that were written to the stream are sent.
\<close>

theorem replay_at_most_once_each_way:
  assumes "race_init t c x0" and "(race_step t c cur)\<^sup>*\<^sup>* x0 x"
  shows "distinct (replay_sent (sent x)) \<and> distinct (live_sent (sent x)) \<and> fst ` set (sent x) \<subseteq> set (used x)"
  using race_inv [OF assms] by (auto simp: once_inv_def origin_inv_def)

subsection \<open>Runs\<close>

definition m1 :: bufferedMsg where "m1 = entry_msg (''1-0'', Json JNull)"

definition m2 :: bufferedMsg where "m2 = entry_msg (''2-0'', Json JNull)"

text \<open>One message in the history; its announcement may be still to come.\<close>

definition race0 :: "bufferedMsg list \<Rightarrow> nat race" where
  "race0 ps = \<lparr>stream = [(''1-0'', Json JNull)], used = [m1], pend = ps, chan = [], rbus = New, pc = Before, sent = []\<rparr>"

lemma race0_init: "ps = [] \<or> ps = [m1] \<Longrightarrow> race_init ''t'' 3 (race0 ps)"
  by (auto simp: race_init_def race0_def New_inv m1_def)

lemma race_splits: "splitStreamID ''0-0'' = (0, 0)" "splitStreamID ''1-0'' = (1, 0)" "splitStreamID ''2-0'' = (2, 0)"
  using splitStreamID_stream_id [of 0 0] splitStreamID_stream_id [of 1 0] splitStreamID_stream_id [of 2 0]
  by (simp_all add: stream_id_def FormatUint.simps digit_char_eval max_int64_def)

text \<open>The subscribe from the beginning, with nothing in between, ends after sending the message as replay.\<close>

definition bus_registered :: "nat Bus" where "bus_registered = swr_register 3 ''t'' New"

definition bus_live :: "nat Bus" where "bus_live = snd (swr_finish 3 ''t'' (swr_mark 3 ''t'' m1 bus_registered))"

definition race1 :: "bufferedMsg list \<Rightarrow> nat race" where
  "race1 ps = (race0 ps)\<lparr>rbus := bus_live, sent := [(m1, True)], pc := Live\<rparr>"

text \<open>Nothing is announced or handled on the way.\<close>

lemma race0_quiet:
  "(\<lambda>x x'. race_step ''t'' 3 ''0-0'' x x' \<and> pend x' = ps \<and> chan x = [] \<and> chan x' = [])\<^sup>*\<^sup>* (race0 ps) (race1 ps)"
proof -
  define st where "st = (\<lambda>x x'. race_step ''t'' (3 :: nat) ''0-0'' x x' \<and> pend x' = ps \<and> chan x = [] \<and> chan x' = [])"
  let ?a = "(race0 ps)\<lparr>rbus := bus_registered, pc := Registered\<rparr>"
  let ?b = "?a\<lparr>pc := Replaying [m1]\<rparr>"
  let ?c = "?b\<lparr>rbus := swr_mark 3 ''t'' m1 bus_registered, sent := [(m1, True)], pc := Replaying []\<rparr>"
  let ?d = "?c\<lparr>rbus := bus_live, pc := Flushing []\<rparr>"
  have "st (race0 ps) ?a" using rs_register [of "race0 ps" "''t''" 3] by (simp add: st_def race0_def bus_registered_def)
  moreover have "st ?a ?b" using rs_range [of ?a "''t''" 3 "''0-0''"]
    by (simp add: st_def race0_def entries_after_alt race_splits pos_less_def m1_def)
  moreover have "st ?b ?c" using rs_replay [of ?b m1 "[]" "''t''" 3] by (simp add: st_def race0_def)
  moreover have "swr_finish 3 ''t'' (rbus ?c) = ([], bus_live)"
    by (simp add: bus_live_def swr_finish_def swr_mark_def update_replay_map bus_registered_def map_replay_register)
  then have "st ?c ?d" using rs_finish [of ?c 3 "''t''" "[]" bus_live] by (simp add: st_def race0_def)
  moreover have "st ?d (race1 ps)" using rs_live [of ?d "''t''" 3] by (simp add: st_def race1_def race0_def)
  ultimately have "st\<^sup>*\<^sup>* (race0 ps) (race1 ps)" by (meson converse_rtranclp_into_rtranclp r_into_rtranclp)
  then show ?thesis by (simp add: st_def)
qed

lemma race0_to_race1: "(race_step ''t'' 3 ''0-0'')\<^sup>*\<^sup>* (race0 ps) (race1 ps)"
  by (rule mono_rtranclp [rule_format, OF _ race0_quiet]) simp

theorem replay_no_loss_witness:
  "set (entries_after (stream (race1 [])) ''0-0'') \<subseteq> fst ` set (sent (race1 []))
   \<and> entries_after (stream (race1 [])) ''0-0'' = [m1]"
proof -
  have "pc (race1 []) = Live" "pend (race1 []) = []" "chan (race1 []) = []" by (simp_all add: race1_def race0_def)
  with replay_no_loss [OF race0_init race0_to_race1, of "[]"] show ?thesis
    by (simp add: race1_def race0_def entries_after_alt race_splits pos_less_def m1_def)
qed

theorem replay_at_most_once_each_way_witness:
  "distinct (replay_sent (sent (race1 [m1]))) \<and> replay_sent (sent (race1 [m1])) = [m1]"
  using replay_at_most_once_each_way [OF race0_init race0_to_race1, of "[m1]"]
  by (simp add: race1_def replay_sent_def)

text \<open>
  A duplicate. A message can be sent to the subscriber twice: when its publisher has written it to
  the stream but announces it only after the subscribe has ended, it was replayed from the
  stream, and the announcement is then sent as a live message, because the set of replayed IDs
  is gone.
\<close>

theorem replay_duplicate:
  "\<exists>x0 x m. race_init ''t'' (3 :: nat) x0 \<and> (race_step ''t'' 3 ''0-0'')\<^sup>*\<^sup>* x0 x
     \<and> (m, True) \<in> set (sent x) \<and> (m, False) \<in> set (sent x)"
proof -
  let ?st = "race_step ''t'' (3 :: nat) ''0-0''"
  let ?a = "race1 [m1]"
  let ?b = "?a\<lparr>pend := [], chan := [m1]\<rparr>"
  have subs: "topic_subs bus_live ''t'' = [3]" and rep: "map_of (replay bus_live) (3, ''t'') = None"
    by (simp_all add: bus_live_def swr_finish_def swr_mark_def bus_registered_def swr_register_def Let_def
        addLocalSubLocked_def New_def topic_subs_def update_replay_def)
  then have run: "decide_fanout (\<lambda>_. True) ''t'' m1 (topic_subs bus_live ''t'') bus_live [] 0 0 = (bus_live, [3], 0, 0)"
    by (simp add: is_buffering_def)
  let ?c = "?b\<lparr>chan := [], rbus := bus_live, sent := sent ?b @ [(m1, False)]\<rparr>"
  have "?st ?a ?b" using rs_announce [of ?a "[]" m1 "[]" "''t''" 3] by (simp add: race1_def race0_def)
  moreover have "?st ?b ?c"
    using rs_handle [of ?b m1 "[]" "''t''" bus_live "[3]" 0 0 3 "''0-0''"] run by (simp add: race1_def race0_def)
  ultimately have "?st\<^sup>*\<^sup>* (race0 [m1]) ?c"
    using race0_to_race1 [of "[m1]"] by (meson rtranclp.rtrancl_into_rtrancl)
  moreover have "(m1, True) \<in> set (sent ?c) \<and> (m1, False) \<in> set (sent ?c)" by (simp add: race1_def)
  ultimately show ?thesis using race0_init [of "[m1]"] by blast
qed

end
