(* ===== verification/StreamOrder.thy ===== *)
theory StreamOrder
  imports StreamId
begin

text \<open>
  Stream positions as a linearly ordered type. The two comparisons of the program, written
  separately in \<^verbatim>\<open>bus/bus.go\<close> and \<^verbatim>\<open>internal/redisx/client.go\<close>, both compute its order, and the order of the
  IDs that Redis assigns is the order of the positions they name.
\<close>

datatype stream_pos = Pos (pos_ms: int) (pos_seq: int)

instantiation stream_pos :: linorder
begin

definition less_stream_pos :: "stream_pos \<Rightarrow> stream_pos \<Rightarrow> bool" where
  "less_stream_pos p q \<longleftrightarrow> pos_less (pos_ms p, pos_seq p) (pos_ms q, pos_seq q)"

definition less_eq_stream_pos :: "stream_pos \<Rightarrow> stream_pos \<Rightarrow> bool" where
  "less_eq_stream_pos p q \<longleftrightarrow> p < q \<or> p = (q :: stream_pos)"

instance
proof
  fix x y z :: stream_pos
  show "x < y \<longleftrightarrow> x \<le> y \<and> \<not> y \<le> x"
    by (auto simp: less_eq_stream_pos_def less_stream_pos_def pos_less_def)
  show "x \<le> x" by (simp add: less_eq_stream_pos_def)
  show "x \<le> y \<Longrightarrow> y \<le> z \<Longrightarrow> x \<le> z"
    by (auto simp: less_eq_stream_pos_def less_stream_pos_def dest: pos_less_trans)
  show "x \<le> y \<Longrightarrow> y \<le> x \<Longrightarrow> x = y"
    by (auto simp: less_eq_stream_pos_def less_stream_pos_def pos_less_def)
  show "x \<le> y \<or> y \<le> x"
    by (cases x; cases y) (auto simp: less_eq_stream_pos_def less_stream_pos_def pos_less_def)
qed

end

definition pos_of :: "string \<Rightarrow> stream_pos" where
  "pos_of sid = (case splitStreamID sid of (m, q) \<Rightarrow> Pos m q)"

lemma pos_of_less: "pos_of a < pos_of b \<longleftrightarrow> pos_less (splitStreamID a) (splitStreamID b)"
  by (simp add: pos_of_def less_stream_pos_def split: prod.splits)

lemma pos_of_stream_id: "int m \<le> max_int64 \<Longrightarrow> int q \<le> max_int64 \<Longrightarrow> pos_of (stream_id m q) = Pos (int m) (int q)"
  by (simp add: pos_of_def splitStreamID_stream_id)

text \<open>
  One order of stream IDs (C36). The comparison the replay uses and the comparison the acknowledgement cursor
  uses agree on all strings: both are the linear order of the positions the strings name. On the
  IDs Redis assigns, equal positions are equal IDs.
\<close>

theorem one_stream_order:
  "compareStreamIDs a b = (if pos_of a < pos_of b then -1 else if pos_of b < pos_of a then 1 else 0)
   \<and> (StreamIDLess a b \<longleftrightarrow> compareStreamIDs a b < 0)
   \<and> (compareStreamIDs a b = 0 \<longleftrightarrow> pos_of a = pos_of b) \<and> compareStreamIDs b a = - compareStreamIDs a b
   \<and> (int m \<le> max_int64 \<and> int q \<le> max_int64 \<and> int m' \<le> max_int64 \<and> int q' \<le> max_int64 \<longrightarrow>
      (compareStreamIDs (stream_id m q) (stream_id m' q') = 0 \<longleftrightarrow> stream_id m q = stream_id m' q'))"
proof -
  have cmp: "compareStreamIDs a b = (if pos_of a < pos_of b then -1 else if pos_of b < pos_of a then 1 else 0)" for a b
    by (simp add: compareStreamIDs_cases pos_of_less)
  have eq: "compareStreamIDs a b = 0 \<longleftrightarrow> pos_of a = pos_of b" for a b by (auto simp: cmp)
  have "stream_id m q = stream_id m' q'" if "pos_of (stream_id m q) = pos_of (stream_id m' q')"
    "int m \<le> max_int64" "int q \<le> max_int64" "int m' \<le> max_int64" "int q' \<le> max_int64"
    using that by (simp add: pos_of_stream_id)
  then have "int m \<le> max_int64 \<and> int q \<le> max_int64 \<and> int m' \<le> max_int64 \<and> int q' \<le> max_int64 \<longrightarrow>
      (compareStreamIDs (stream_id m q) (stream_id m' q') = 0 \<longleftrightarrow> stream_id m q = stream_id m' q')" by (auto simp: eq)
  moreover have "compareStreamIDs b a = - compareStreamIDs a b" by (auto simp: cmp)
  moreover have "StreamIDLess a b \<longleftrightarrow> compareStreamIDs a b < 0" by (simp add: StreamIDLess_pos compareStreamIDs_neg_iff)
  ultimately show ?thesis using cmp eq by blast
qed

theorem one_stream_order_witness:
  "compareStreamIDs (stream_id 5 1) (stream_id 5 1) = 0 \<and> (StreamIDLess ''5-1'' ''7-0'' \<longleftrightarrow> compareStreamIDs ''5-1'' ''7-0'' < 0)"
  using one_stream_order [of "''5-1''" "''7-0''" 5 1 5 1] by (simp add: max_int64_def)

end
