(* ===== verification/Resume.thy ===== *)
theory Resume
  imports ReplayRace StreamOrder Client
begin

text \<open>
  Resuming from the last received message. A client remembers the stream ID of a message it has
  processed, or acknowledges it, and passes it as \<^verbatim>\<open>since\<close> when it subscribes again. That is safe
  exactly as far as no older message is still to come. \<open>ordered_step\<close> restricts the interleavings of
  \<open>ReplayRace\<close> to those where announcements go out in the order of the stream and the listener
  does not run while a subscribe flushes its buffer; under it the received messages never have a
  gap. The program guarantees neither, and a run without them loses an acknowledged client a message.
\<close>

section \<open>Interleavings in order\<close>

definition mpos :: "bufferedMsg \<Rightarrow> stream_pos" where
  "mpos m = pos_of (bm_streamID m)"

abbreviation rising :: "bufferedMsg list \<Rightarrow> bool" where
  "rising ms \<equiv> sorted_wrt (\<lambda>m n. mpos m < mpos n) ms"

lemma entry_msg_id [simp]: "bm_streamID (entry_msg e) = fst e"
  by (simp add: entry_msg_def)

lemma mpos_entry_msg: "mpos (entry_msg e) = pos_of (fst e)"
  by (simp add: mpos_def)

lemma entries_after_pos: "entries_after es cur = filter (\<lambda>m. pos_of cur < mpos m) (map entry_msg es)"
  by (simp add: entries_after_alt filter_map comp_def mpos_entry_msg pos_of_less)

lemma rising_distinct_pos: "rising ms \<Longrightarrow> m \<in> set ms \<Longrightarrow> n \<in> set ms \<Longrightarrow> mpos m = mpos n \<Longrightarrow> m = n"
  by (induction ms) auto

text \<open>The announcements on their way, the next one to be handled first.\<close>

definition in_flight :: "'c race \<Rightarrow> bufferedMsg list" where
  "in_flight x = chan x @ rev (pend x)"

definition is_flushing :: "replay_pc \<Rightarrow> bool" where
  "is_flushing p \<longleftrightarrow> (case p of Flushing ms \<Rightarrow> True | _ \<Rightarrow> False)"

inductive ordered_step :: "string \<Rightarrow> 'c \<Rightarrow> string \<Rightarrow> 'c race \<Rightarrow> 'c race \<Rightarrow> bool" for t c cur where
  "race_step t c cur x x' \<Longrightarrow> rising (in_flight x') \<Longrightarrow>
    (is_flushing (pc x) \<longrightarrow> \<not> length (chan x') < length (chan x)) \<Longrightarrow> ordered_step t c cur x x'"

inductive_cases ordered_stepE: "ordered_step t c cur x x'"

definition ordered_init :: "string \<Rightarrow> 'c \<Rightarrow> 'c race \<Rightarrow> bool" where
  "ordered_init t c x \<longleftrightarrow> race_init t c x \<and> rising (rev (used x)) \<and> rising (map entry_msg (stream x)) \<and> rising (in_flight x)"

section \<open>No gaps\<close>

text \<open>The announced messages that wait for the subscriber before those in flight.\<close>

fun waiting_at :: "replay_pc \<Rightarrow> bufferedMsg list \<Rightarrow> bufferedMsg list" where
  "waiting_at (Flushing ms) hs = ms"
| "waiting_at _ hs = hs"

abbreviation waiting :: "string \<Rightarrow> 'c \<Rightarrow> 'c race \<Rightarrow> bufferedMsg list" where
  "waiting t c x \<equiv> waiting_at (pc x) (held t c (rbus x))"

abbreviation retained :: "string \<Rightarrow> 'c race \<Rightarrow> bufferedMsg set" where
  "retained cur x \<equiv> set (entries_after (stream x) cur)"

definition gap_free :: "string \<Rightarrow> 'c race \<Rightarrow> bool" where
  "gap_free cur x \<longleftrightarrow> (\<forall>m' \<in> retained cur x. m' \<notin> fst ` set (sent x) \<longrightarrow> (\<forall>m \<in> fst ` set (sent x). mpos m < mpos m'))"

definition lines_inv :: "string \<Rightarrow> 'c \<Rightarrow> string \<Rightarrow> 'c race \<Rightarrow> bool" where
  "lines_inv t c cur x \<longleftrightarrow> rising (map entry_msg (stream x)) \<and> (pc x \<noteq> Before \<longrightarrow> rising (waiting t c x @ in_flight x))
     \<and> rising (to_replay (pc x))
     \<and> (\<forall>m' \<in> retained cur x. \<forall>m \<in> set (to_replay (pc x)). m' \<notin> fst ` set (sent x) \<union> set (to_replay (pc x)) \<longrightarrow> mpos m < mpos m')"

text \<open>What is in the system lies below a message that is only now written.\<close>

lemma used_below_new:
  assumes "\<forall>u \<in> set (used x). pos_less (splitStreamID (bm_streamID u)) (splitStreamID i)" and "set ms \<subseteq> set (used x)"
  shows "\<forall>m \<in> set ms. mpos m < mpos (entry_msg (i, b))"
  using assms by (auto simp: mpos_entry_msg mpos_def pos_of_less)

lemma retained_append:
  "retained cur (x\<lparr>stream := drop k (stream x) @ [(i, b)], used := us, pend := ps\<rparr>)
    \<subseteq> insert (entry_msg (i, b)) (retained cur x)"
  by (auto simp: entries_after_pos dest: in_set_dropD)

lemma retained_drop: "set (entries_after (drop k es) cur) \<subseteq> set (entries_after es cur)"
  by (auto simp: entries_after_pos dest: in_set_dropD)

lemma sorted_wrt_map_drop: "sorted_wrt P (map f xs) \<Longrightarrow> sorted_wrt P (map f (drop k xs))"
  by (simp add: sorted_wrt_drop flip: drop_map)

lemma rising_announce:
  assumes "rising (ws @ cs @ rev (ps @ m # qs))" and "rising (cs @ [m] @ rev (ps @ qs))"
  shows "rising (ws @ cs @ [m] @ rev (ps @ qs))"
  using assms by (auto simp: sorted_wrt_append)

definition resume_inv :: "string \<Rightarrow> 'c \<Rightarrow> string \<Rightarrow> 'c race \<Rightarrow> bool" where
  "resume_inv t c cur x \<longleftrightarrow> bus_at_pc t c x \<and> origin_inv t c x \<and> once_inv t c x \<and> no_loss_inv t c cur x
     \<and> lines_inv t c cur x \<and> gap_free cur x"

text \<open>A message that is only now written comes after everything that is in the system.\<close>

lemma lines_append:
  assumes new: "\<forall>u \<in> set (used x). pos_less (splitStreamID (bm_streamID u)) (splitStreamID i)" and inv: "resume_inv t c cur x"
    and x': "x' = x\<lparr>stream := drop k (stream x) @ [(i, b)], used := entry_msg (i, b) # used x, pend := entry_msg (i, b) # pend x\<rparr>"
  shows "lines_inv t c cur x' \<and> gap_free cur x'"
proof -
  let ?m = "entry_msg (i, b)"
  have sub: "set (map entry_msg (stream x)) \<union> set (waiting t c x @ in_flight x @ to_replay (pc x)) \<union> fst ` set (sent x) \<subseteq> set (used x)"
    using inv by (cases "pc x") (auto simp: resume_inv_def origin_inv_def in_flight_def to_replay_def)
  note below = used_below_new [OF new, where b = b]
  have b: "\<forall>m \<in> set (map entry_msg (drop k (stream x))). mpos m < mpos ?m"
    using sub below [of "map entry_msg (stream x)"] by (auto dest: in_set_dropD)
  have w: "\<forall>m \<in> set (waiting t c x @ in_flight x). mpos m < mpos ?m" "\<forall>m \<in> set (to_replay (pc x)). mpos m < mpos ?m"
    using sub by (intro below; auto)+
  have s: "\<forall>m \<in> fst ` set (sent x). mpos m < mpos ?m" using sub below [of "map fst (sent x)"] by auto
  have r: "retained cur x' \<subseteq> insert ?m (retained cur x)" unfolding x' by (rule retained_append)
  have "in_flight x' = in_flight x @ [?m]" by (simp add: x' in_flight_def)
  moreover have "rising (map entry_msg (drop k (stream x)))"
    using inv sorted_wrt_map_drop by (auto simp: resume_inv_def lines_inv_def)
  moreover have "gap_free cur x'" using inv r s unfolding gap_free_def resume_inv_def by (simp add: x') blast
  ultimately show ?thesis using inv r b w by (auto simp: x' resume_inv_def lines_inv_def sorted_wrt_append)
qed

text \<open>After the replay, the next message to go out is the first of those that wait or are in flight.\<close>

lemma lines_out:
  assumes inv: "resume_inv t c cur x" and pc: "pc x \<noteq> Before" "pc x \<noteq> Registered" "to_replay (pc x) = []"
    and line: "held t c (rbus x) = []" "waiting t c x @ in_flight x = a # rest"
    and x': "stream x' = stream x" "sent x' = sent x @ [(a, b)]" "to_replay (pc x') = []" "waiting t c x' @ in_flight x' = rest"
  shows "lines_inv t c cur x' \<and> gap_free cur x'"
proof -
  have up: "rising (a # rest)" using inv pc(1) line(2) by (simp add: resume_inv_def lines_inv_def)
  have "m' \<in> fst ` set (sent x) \<or> m' \<in> set (a # rest)" if "m' \<in> retained cur x" for m'
  proof -
    have "m' \<in> set (pend x @ chan x @ todo (pc x)) \<union> fst ` set (sent x)"
      using inv pc(1,2) line(1) that by (auto simp: resume_inv_def no_loss_inv_def)
    moreover have "set (pend x @ chan x @ todo (pc x)) = set (a # rest)"
      using pc(3) line unfolding line(2) [symmetric] by (cases "pc x") (auto simp: in_flight_def to_replay_def)
    ultimately show ?thesis by blast
  qed
  with up inv x' have "gap_free cur x'" by (auto simp: resume_inv_def gap_free_def)
  with up inv x' show ?thesis by (simp add: resume_inv_def lines_inv_def)
qed

lemma lines_handle:
  assumes inv: "resume_inv t c cur x" and run: "decide_fanout (\<lambda>_. True) t m (topic_subs (rbus x) t) (rbus x) [] 0 0 = (b, deliver, k, n)"
    and ch: "chan x = m # ms" and quiet: "\<not> is_flushing (pc x)"
    and x': "x' = x\<lparr>chan := ms, rbus := b, sent := sent x @ (if c \<in> set deliver then [(m, False)] else [])\<rparr>"
  shows "lines_inv t c cur x' \<and> gap_free cur x'"
proof (cases "pc x")
  case Live
  have "bus_at_pc t c x" using inv by (simp add: resume_inv_def)
  from held_handle [OF this run] Live have "c \<in> set deliver" "held t c b = []" "held t c (rbus x) = []" by simp_all
  with Live ch show ?thesis
    by (intro lines_out [OF inv, where a = m and rest = "ms @ rev (pend x)" and b = False]) (simp_all add: x' in_flight_def to_replay_def)
qed (use inv run held_handle [OF _ run] ch quiet in \<open>auto simp: x' is_flushing_def resume_inv_def lines_inv_def gap_free_def in_flight_def\<close>)

lemma lines_step:
  assumes "race_step t c cur x x'" and "resume_inv t c cur x" and "rising (in_flight x')"
    and "is_flushing (pc x) \<longrightarrow> \<not> length (chan x') < length (chan x)"
  shows "lines_inv t c cur x' \<and> gap_free cur x'"
  using assms
proof (induction rule: race_step.induct)
  case (rs_append x i j k)
  then show ?case by (intro lines_append [OF rs_append.hyps]) simp_all
next
  case (rs_trim x k)
  have "rising (map entry_msg (drop k (stream x)))"
    using rs_trim.prems(1) sorted_wrt_map_drop by (auto simp: resume_inv_def lines_inv_def)
  with rs_trim.prems(1) retained_drop [of k "stream x" cur] show ?case
    by (auto simp: resume_inv_def lines_inv_def gap_free_def in_flight_def)
next
  case (rs_announce x ps m qs)
  then have "rising (waiting t c x @ chan x @ [m] @ rev (ps @ qs))" if "pc x \<noteq> Before"
    using that rising_announce [of "waiting t c x" "chan x" ps m qs] by (simp add: resume_inv_def lines_inv_def in_flight_def)
  with rs_announce.prems(1) show ?case by (auto simp: resume_inv_def lines_inv_def gap_free_def in_flight_def)
next
  case (rs_handle x m ms b deliver k n)
  then show ?case by (intro lines_handle [OF _ rs_handle.hyps(2,1)]) simp_all
next
  case (rs_other b x)
  then show ?case by (simp add: resume_inv_def lines_inv_def gap_free_def in_flight_def held_def)
next
  case (rs_range x)
  have "rising (entries_after (stream x) cur)"
    using rs_range.prems(1) by (simp add: resume_inv_def lines_inv_def entries_after_pos sorted_wrt_filter)
  with rs_range show ?case
    by (auto simp: resume_inv_def lines_inv_def gap_free_def in_flight_def to_replay_def bus_at_pc_def)
next
  case (rs_finish x leftover b)
  then have at: "bus_at_pc t c x" by (simp add: resume_inv_def)
  from held_finish [OF at rs_finish.hyps] rs_finish show ?case
    by (auto simp: resume_inv_def lines_inv_def gap_free_def in_flight_def to_replay_def sorted_wrt_append sorted_wrt_filter)
next
  case (rs_flush x m ms)
  then have "held t c (rbus x) = []" by (simp add: resume_inv_def bus_at_pc_def held_def)
  with rs_flush show ?case
    by (intro lines_out [OF rs_flush.prems(1), where a = m and rest = "ms @ in_flight x" and b = False])
      (simp_all add: to_replay_def in_flight_def)
next
  case (rs_live x)
  then have "held t c (rbus x) = []" by (simp add: resume_inv_def bus_at_pc_def held_def)
  with rs_live show ?case by (simp add: resume_inv_def lines_inv_def gap_free_def in_flight_def to_replay_def)
qed (auto simp: resume_inv_def lines_inv_def gap_free_def in_flight_def to_replay_def)

lemma resume_step: "ordered_step t c cur x x' \<Longrightarrow> resume_inv t c cur x \<Longrightarrow> resume_inv t c cur x'"
  using lines_step [of t c cur x x'] bus_at_pc_step [of t c cur x x'] origin_step [of t c cur x x'] once_step [of t c cur x x']
    no_loss_step [of t c cur x x']
  by (auto simp: resume_inv_def elim: ordered_stepE)

lemma ordered_init_inv: "ordered_init t c x \<Longrightarrow> resume_inv t c cur x"
  using race_init_inv [of t c x cur]
  by (auto simp: resume_inv_def ordered_init_def race_init_def lines_inv_def gap_free_def to_replay_def)

interpretation ordered: inv_system "\<lambda>_. True" "\<lambda>(t, c, cur). ordered_init t c" "\<lambda>(t, c, cur). ordered_step t c cur"
  "\<lambda>(t, c, cur). resume_inv t c cur"
  by unfold_locales (auto intro: ordered_init_inv resume_step)

section \<open>Where a client can resume\<close>

text \<open>
  Resuming without a gap (C4). As long as messages are announced in the order of the stream and the
  listener does not fan one out between the end of a subscribe's buffering and the end of its flush:
  whichever message a subscriber has
  received, as replay or live, every retained message after its first cursor was sent to it as
  well or lies behind that message, where a subscribe with that message's ID as \<^verbatim>\<open>since\<close> finds it.
\<close>

theorem resume_without_gap:
  assumes "ordered_init t c x0" and "(ordered_step t c cur)\<^sup>*\<^sup>* x0 x" and "m \<in> fst ` set (sent x)"
  shows "set (entries_after (stream x) cur) \<subseteq> fst ` set (sent x) \<union> set (entries_after (stream x) (bm_streamID m))"
proof
  fix m' assume m': "m' \<in> set (entries_after (stream x) cur)"
  have "gap_free cur x" using ordered.reachable_inv [of "(t, c, cur)" x0 x] assms by (simp add: resume_inv_def)
  with m' assms(3) have "m' \<in> fst ` set (sent x) \<or> mpos m < mpos m'" by (auto simp: gap_free_def)
  with m' show "m' \<in> fst ` set (sent x) \<union> set (entries_after (stream x) (bm_streamID m))"
    by (auto simp: entries_after_pos mpos_def)
qed

text \<open>One message replayed, the next one just written: resuming from the first finds the second.\<close>

definition race2 :: "nat race" where
  "race2 = (race1 [])\<lparr>stream := [(''1-0'', Json JNull), (''2-0'', Json JNull)], used := [m2, m1], pend := [m2]\<rparr>"

lemma race_positions: "pos_of ''0-0'' = Pos 0 0" "pos_of ''1-0'' = Pos 1 0" "pos_of ''2-0'' = Pos 2 0"
  by (simp_all add: pos_of_def race_splits)

lemma mpos_demo: "mpos m1 = Pos 1 0" "mpos m2 = Pos 2 0"
  by (simp_all add: m1_def m2_def mpos_entry_msg race_positions)

lemma pos_demo_less: "Pos a 0 < Pos b 0 \<longleftrightarrow> a < b"
  by (simp add: less_stream_pos_def pos_less_def)

theorem resume_without_gap_witness:
  "set (entries_after (stream race2) ''0-0'') = {m1, m2} \<and> m2 \<notin> fst ` set (sent race2)
   \<and> m2 \<in> set (entries_after (stream race2) ''1-0'')"
proof -
  have init: "ordered_init ''t'' 3 (race0 [])"
    using race0_init [of "[]"] by (simp add: ordered_init_def in_flight_def race0_def)
  have "(ordered_step ''t'' 3 ''0-0'')\<^sup>*\<^sup>* (race0 []) (race1 [])"
    by (rule mono_rtranclp [rule_format, OF _ race0_quiet]) (auto simp: in_flight_def intro: ordered_step.intros)
  moreover have "race_step ''t'' 3 ''0-0'' (race1 []) race2"
    using rs_append [of "race1 []" "''2-0''" "''t''" 3 "''0-0''" JNull 0]
    by (simp add: race2_def race1_def race0_def race_splits pos_less_def m1_def m2_def)
  then have "ordered_step ''t'' 3 ''0-0'' (race1 []) race2"
    by (rule ordered_step.intros) (simp_all add: in_flight_def race2_def race1_def race0_def)
  ultimately have run: "(ordered_step ''t'' 3 ''0-0'')\<^sup>*\<^sup>* (race0 []) race2" by (rule rtranclp.rtrancl_into_rtrancl)
  have sent: "fst ` set (sent race2) = {m1}" by (simp add: race2_def race1_def)
  have all: "set (entries_after (stream race2) ''0-0'') = {m1, m2}"
    by (auto simp: race2_def entries_after_pos race_positions m1_def m2_def mpos_entry_msg pos_demo_less)
  have "m1 \<noteq> m2" using mpos_demo by auto
  with resume_without_gap [OF init run, of m1] sent all show ?thesis by (auto simp: m1_def)
qed

section \<open>A message lost to an acknowledgement\<close>

lemma subscribe_nothing:
  assumes "pc x = Before" and "entries_after (stream x) cur = []"
  shows "(race_step t c cur)\<^sup>*\<^sup>* x (x\<lparr>rbus := snd (swr_finish c t (swr_register c t (rbus x))), pc := Live\<rparr>)"
proof -
  let ?b = "swr_register c t (rbus x)"
  let ?a = "x\<lparr>rbus := ?b, pc := Registered\<rparr>"
  let ?d = "?a\<lparr>pc := Replaying []\<rparr>"
  let ?e = "?d\<lparr>rbus := snd (swr_finish c t ?b), pc := Flushing []\<rparr>"
  have "race_step t c cur x ?a" by (rule rs_register [OF assms(1)])
  moreover have "race_step t c cur ?a ?d" using rs_range [of ?a t c cur] assms(2) by simp
  moreover have "swr_finish c t ?b = ([], snd (swr_finish c t ?b))" by (simp add: swr_finish_def map_replay_register)
  then have "race_step t c cur ?d ?e" using rs_finish [of ?d c t "[]" "snd (swr_finish c t ?b)" cur] by simp
  moreover have "race_step t c cur ?e (x\<lparr>rbus := snd (swr_finish c t ?b), pc := Live\<rparr>)"
    using rs_live [of ?e t c cur] by simp
  ultimately show ?thesis by (meson converse_rtranclp_into_rtranclp r_into_rtranclp)
qed

definition bus_sub :: "nat Bus" where "bus_sub = snd (swr_finish 3 ''t'' (swr_register 3 ''t'' New))"

lemma bus_sub_tables: "topic_subs bus_sub ''t'' = [3]" "map_of (replay bus_sub) (3, ''t'') = None" "topicSubs bus_sub = [(''t'', [3])]"
  by (simp_all add: bus_sub_def swr_finish_def swr_register_def Let_def addLocalSubLocked_def New_def topic_subs_def)

text \<open>The subscriber is live on an empty topic; two messages are written and the second is announced and sent first.\<close>

definition overtake0 :: "nat race" where
  "overtake0 = \<lparr>stream = [], used = [], pend = [], chan = [], rbus = New, pc = Before, sent = []\<rparr>"

definition overtaken :: "nat race" where
  "overtaken = \<lparr>stream = [(''1-0'', Json JNull), (''2-0'', Json JNull)], used = [m2, m1], pend = [m1], chan = [],
     rbus = bus_sub, pc = Live, sent = [(m2, False)]\<rparr>"

lemma overtake0_run: "(race_step ''t'' 3 ''0-0'')\<^sup>*\<^sup>* overtake0 overtaken"
proof -
  let ?st = "race_step ''t'' (3 :: nat) ''0-0''"
  let ?a = "overtake0\<lparr>rbus := bus_sub, pc := Live\<rparr>"
  let ?b = "?a\<lparr>stream := [(''1-0'', Json JNull)], used := [m1], pend := [m1]\<rparr>"
  let ?c = "?b\<lparr>stream := [(''1-0'', Json JNull), (''2-0'', Json JNull)], used := [m2, m1], pend := [m2, m1]\<rparr>"
  let ?d = "?c\<lparr>pend := [m1], chan := [m2]\<rparr>"
  have "?st\<^sup>*\<^sup>* overtake0 ?a"
    using subscribe_nothing [of overtake0 "''0-0''" "''t''" 3] by (simp add: overtake0_def entries_after_pos bus_sub_def)
  moreover have "?st ?a ?b" using rs_append [of ?a "''1-0''" "''t''" 3 "''0-0''" JNull 0] by (simp add: overtake0_def m1_def)
  moreover have "?st ?b ?c" using rs_append [of ?b "''2-0''" "''t''" 3 "''0-0''" JNull 0]
    by (simp add: overtake0_def m1_def m2_def race_splits pos_less_def)
  moreover have "?st ?c ?d" using rs_announce [of ?c "[]" m2 "[m1]" "''t''" 3 "''0-0''"] by (simp add: overtake0_def)
  moreover have "decide_fanout (\<lambda>_. True) ''t'' m2 (topic_subs bus_sub ''t'') bus_sub [] 0 0 = (bus_sub, [3], 0, 0)"
    using bus_sub_tables by (simp add: is_buffering_def)
  then have "?st ?d overtaken"
    using rs_handle [of ?d m2 "[]" "''t''" bus_sub "[3]" 0 0 3 "''0-0''"] by (simp add: overtake0_def overtaken_def)
  ultimately show ?thesis by (meson rtranclp.rtrancl_into_rtrancl)
qed

text \<open>The connection ends; the first message is announced to nobody; the client subscribes from the second.\<close>

definition reconnect :: "nat race \<Rightarrow> nat race" where
  "reconnect x = x\<lparr>rbus := RemoveSubscriberAll 3 (rbus x), pc := Before, sent := []\<rparr>"

definition resumed :: "nat race" where
  "resumed = (let b = RemoveSubscriberAll 3 bus_sub in
     (reconnect overtaken)\<lparr>pend := [], rbus := snd (swr_finish 3 ''t'' (swr_register 3 ''t'' b)), pc := Live\<rparr>)"

lemma reconnect_run: "(race_step ''t'' 3 ''2-0'')\<^sup>*\<^sup>* (reconnect overtaken) resumed"
proof -
  let ?st = "race_step ''t'' (3 :: nat) ''2-0''" and ?b = "RemoveSubscriberAll 3 bus_sub"
  let ?a = "(reconnect overtaken)\<lparr>pend := [], chan := [m1]\<rparr>"
  let ?d = "(reconnect overtaken)\<lparr>pend := []\<rparr>"
  have none: "topic_subs ?b ''t'' = []" by (simp add: RemoveSubscriberAll_def bus_sub_tables topic_subs_def)
  have "?st (reconnect overtaken) ?a"
    using rs_announce [of "reconnect overtaken" "[]" m1 "[]" "''t''" 3 "''2-0''"] by (simp add: reconnect_def overtaken_def)
  moreover have "?st ?a ?d"
    using rs_handle [of ?a m1 "[]" "''t''" ?b "[]" 0 0 3 "''2-0''"] none by (simp add: reconnect_def overtaken_def)
  moreover have "entries_after (stream ?d) ''2-0'' = []"
    by (simp add: reconnect_def overtaken_def entries_after_pos mpos_entry_msg race_positions pos_demo_less)
  then have "?st\<^sup>*\<^sup>* ?d resumed"
    using subscribe_nothing [of ?d "''2-0''" "''t''" 3] by (simp add: resumed_def reconnect_def overtaken_def)
  ultimately show ?thesis by (meson converse_rtranclp_into_rtranclp)
qed

text \<open>
  A run in which an acknowledged client loses a message. Two publishers write to a topic; the second one
  announces first. A live subscriber is sent the second message, acknowledges it and loses its connection
  before the first is announced. Resuming from the acknowledged position after that, it is not sent the
  first message either, although the stream still holds it, nothing is in flight any more and both subscribes
  ran to their end.
\<close>

theorem acknowledged_client_loses_message:
  "race_init ''t'' 3 overtake0 \<and> (race_step ''t'' 3 ''0-0'')\<^sup>*\<^sup>* overtake0 overtaken \<and> sent overtaken = [(m2, False)]
   \<and> fst (AckCursor ref_redis ''ann'' ''t'' (snd (SetAckCursor ref_redis ''ann'' ''t'' (bm_streamID m2) 0 no_data))) = Inr ''2-0''
   \<and> (race_step ''t'' 3 ''2-0'')\<^sup>*\<^sup>* (reconnect overtaken) resumed
   \<and> pc resumed = Live \<and> pend resumed = [] \<and> chan resumed = []
   \<and> m1 \<in> set (entries_after (stream resumed) ''0-0'') \<and> m1 \<notin> fst ` set (sent overtaken @ sent resumed)"
proof -
  have "race_init ''t'' 3 overtake0" by (simp add: race_init_def overtake0_def New_inv)
  moreover have "fst (AckCursor ref_redis ''ann'' ''t'' (snd (SetAckCursor ref_redis ''ann'' ''t'' (bm_streamID m2) 0 no_data))) = Inr ''2-0''"
    by (simp add: AckCursor_def SetAckCursor_def SetAckCursor_between_def ackCursorKey_def m2_def no_data_def Let_def
        ref_redis_def ref_typed_def ref_view_def ref_put_def str_key_def str_at_def)
  moreover have "m1 \<in> set (entries_after (stream resumed) ''0-0'')"
    by (auto simp: resumed_def reconnect_def overtaken_def entries_after_pos race_positions m1_def mpos_entry_msg pos_demo_less)
  moreover have "m1 \<noteq> m2" using mpos_demo by auto
  ultimately show ?thesis
    using overtake0_run reconnect_run by (simp add: resumed_def reconnect_def overtaken_def)
qed

text \<open>
  Overtaking on one instance. Announcements in the order of the stream are not enough: the buffered
  messages are sent after the bus lock is released, so the listener can send a newer message while
  an older one is still to be flushed.
\<close>

definition flush0 :: "nat race" where
  "flush0 = overtake0\<lparr>rbus := swr_register 3 ''t'' New, pc := Replaying []\<rparr>"

definition flush1 :: "nat race" where
  "flush1 = \<lparr>stream = [(''1-0'', Json JNull)], used = [m1], pend = [], chan = [], rbus = bus_sub, pc = Flushing [m1], sent = []\<rparr>"

lemma flush0_run: "(race_step ''t'' 3 ''0-0'')\<^sup>*\<^sup>* overtake0 flush0"
proof -
  let ?a = "overtake0\<lparr>rbus := swr_register 3 ''t'' New, pc := Registered\<rparr>"
  have "race_step ''t'' 3 ''0-0'' overtake0 ?a" using rs_register [of overtake0 "''t''" 3] by (simp add: overtake0_def)
  moreover have "race_step ''t'' 3 ''0-0'' ?a flush0"
    using rs_range [of ?a "''t''" 3 "''0-0''"] by (simp add: flush0_def overtake0_def entries_after_pos)
  ultimately show ?thesis by (meson converse_rtranclp_into_rtranclp r_into_rtranclp)
qed

lemma flush1_run: "(race_step ''t'' 3 ''0-0'')\<^sup>*\<^sup>* flush0 flush1"
proof -
  let ?st = "race_step ''t'' (3 :: nat) ''0-0''" and ?b = "swr_register (3 :: nat) ''t'' New"
  define b1 where "b1 = update_replay 3 ''t'' (\<lambda>rs. rs\<lparr>buf := buf rs @ [m1]\<rparr>) ?b"
  let ?a = "flush0\<lparr>stream := [(''1-0'', Json JNull)], used := [m1], pend := [m1]\<rparr>"
  let ?c = "?a\<lparr>pend := [], chan := [m1]\<rparr>"
  let ?d = "?c\<lparr>chan := [], rbus := b1\<rparr>"
  have "?st flush0 ?a" using rs_append [of flush0 "''1-0''" "''t''" 3 "''0-0''" JNull 0] by (simp add: flush0_def overtake0_def m1_def)
  moreover have "?st ?a ?c" using rs_announce [of ?a "[]" m1 "[]" "''t''" 3 "''0-0''"] by (simp add: flush0_def overtake0_def)
  moreover have "decide_fanout (\<lambda>_. True) ''t'' m1 (topic_subs ?b ''t'') ?b [] 0 0 = (b1, [], 1, 0)"
    by (simp add: b1_def is_buffering_def map_replay_register)
      (simp add: swr_register_def topic_subs_def addLocalSubLocked_def New_def Let_def is_buffering_def)
  then have "?st ?c ?d"
    using rs_handle [of ?c m1 "[]" "''t''" b1 "[]" 1 0 3 "''0-0''"] by (simp add: flush0_def overtake0_def)
  moreover have "swr_finish 3 ''t'' b1 = ([m1], bus_sub)"
    by (simp add: b1_def bus_sub_def swr_finish_def swr_register_def update_replay_def New_def addLocalSubLocked_def topic_subs_def Let_def)
  then have "?st ?d flush1"
    using rs_finish [of ?d 3 "''t''" "[m1]" bus_sub "''0-0''"] by (simp add: flush1_def flush0_def overtake0_def)
  ultimately show ?thesis by (meson converse_rtranclp_into_rtranclp r_into_rtranclp)
qed

lemma flush_overtaken:
  "\<exists>x. (race_step ''t'' 3 ''0-0'')\<^sup>*\<^sup>* overtake0 x \<and> sent x = [(m2, False)] \<and> pc x = Flushing [m1] \<and> mpos m1 < mpos m2"
proof -
  let ?st = "race_step ''t'' (3 :: nat) ''0-0''"
  let ?a = "flush1\<lparr>stream := [(''1-0'', Json JNull), (''2-0'', Json JNull)], used := [m2, m1], pend := [m2]\<rparr>"
  let ?b = "?a\<lparr>pend := [], chan := [m2]\<rparr>"
  let ?c = "?b\<lparr>chan := [], sent := [(m2, False)]\<rparr>"
  have "?st flush1 ?a" using rs_append [of flush1 "''2-0''" "''t''" 3 "''0-0''" JNull 0]
    by (simp add: flush1_def m1_def m2_def race_splits pos_less_def)
  moreover have "?st ?a ?b" using rs_announce [of ?a "[]" m2 "[]" "''t''" 3 "''0-0''"] by (simp add: flush1_def)
  moreover have "decide_fanout (\<lambda>_. True) ''t'' m2 (topic_subs bus_sub ''t'') bus_sub [] 0 0 = (bus_sub, [3], 0, 0)"
    using bus_sub_tables by (simp add: is_buffering_def)
  then have "?st ?b ?c" using rs_handle [of ?b m2 "[]" "''t''" bus_sub "[3]" 0 0 3 "''0-0''"] by (simp add: flush1_def)
  ultimately have "?st\<^sup>*\<^sup>* overtake0 ?c" using flush0_run flush1_run
    by (meson rtranclp.rtrancl_into_rtrancl rtranclp_trans)
  moreover have "sent ?c = [(m2, False)]" "pc ?c = Flushing [m1]" "mpos m1 < mpos m2"
    by (simp_all add: flush1_def mpos_demo pos_demo_less)
  ultimately show ?thesis by blast
qed

end
