(* ===== verification/Acks.thy ===== *)
theory Acks
  imports DispatchProps
begin

text \<open>
  An acknowledgement and the subscribe that resumes from it, from handler to handler:
  \<^verbatim>\<open>handleAck\<close> stores the position of a user in a topic, and a later subscribe of the same user with
  \<^verbatim>\<open>since\<close> set to \<^verbatim>\<open>ack\<close>, on any connection, replays what lies behind it.
\<close>

section \<open>Keys\<close>

lemma ack_overlap: "''ack:'' @ w @ '':'' @ t \<noteq> w @ '':subscribedTopics''"
proof (induction w rule: length_induct)
  case (1 w)
  show ?case
  proof
    assume eq: "''ack:'' @ w @ '':'' @ t = w @ '':subscribedTopics''"
    then obtain u where w: "w = ''ack:'' @ u"
      by (cases w; cases "tl w"; cases "tl (tl w)"; cases "tl (tl (tl w))") auto
    with eq have "''ack:'' @ u @ '':'' @ t = u @ '':subscribedTopics''" by simp
    with 1 w show False by simp
  qed
qed

lemma ack_key_distinct:
  "ackCursorKey uk t \<noteq> subscribed_key uk" "ackCursorKey uk t \<noteq> topic_key t'" "ackCursorKey uk t \<noteq> lockKey t' LockSubscribe"
  "ackCursorKey uk t \<noteq> streamKeyPrefix @ t'"
  using ack_overlap [of uk t]
  by (simp_all add: ackCursorKey_def subscribed_key_def topic_key_def lockKey_def LockSubscribe_def prefix_defs)

lemma topic_key_not_stream: "topic_key t \<noteq> streamKeyPrefix @ t"
proof
  assume "topic_key t = streamKeyPrefix @ t"
  then have "length (topic_key t) = length (streamKeyPrefix @ t)" by simp
  then show False by (simp add: topic_key_def prefix_defs)
qed

section \<open>The two operations on a server that answers\<close>

lemma SetAckCursor_stores:
  assumes doc: "documented False R v" and key: "str_key (v s) (ackCursorKey uk t)"
    and prior: "\<forall>cur. ack_at (v s) uk t = Some cur \<and> cur \<noteq> [] \<longrightarrow> StreamIDLess cur sid"
  shows "fst (SetAckCursor R uk t sid ttl s) = Inr ()
    \<and> v (snd (SetAckCursor R uk t sid ttl s)) = put (ackCursorKey uk t) (Some (VStr sid (ttl_of ttl))) (v s)"
proof -
  let ?k = "ackCursorKey uk t"
  obtain g s1 where get: "rGet R ?k s = (g, s1)" by fastforce
  have g: "g = (case str_at (v s) ?k of None \<Rightarrow> Inl RedisNil | Some y \<Rightarrow> Inr y)" "v s1 = v s"
    using obeys_sureD [OF doc_rGet [OF doc, of ?k], of s] get key by (simp_all add: doc_Get_def typed_def)
  obtain p s2 where set: "rSet R ?k sid ttl s1 = (p, s2)" by fastforce
  have "p = Inr ()" "v s2 = put ?k (Some (VStr sid (ttl_of ttl))) (v s)"
    using obeys_sureD [OF doc_rSet [OF doc, of ?k sid ttl], of s1] set g(2) by (simp_all add: doc_Set_def)
  with get g set prior show ?thesis
    by (auto simp: SetAckCursor_def SetAckCursor_between_def ack_at_def Let_def split: option.splits)
qed

lemma AckCursor_reads:
  assumes doc: "documented False R v" and cur: "ack_at (v s) uk t = Some sid"
  shows "fst (AckCursor R uk t s) = Inr sid \<and> v (snd (AckCursor R uk t s)) = v s"
proof -
  let ?k = "ackCursorKey uk t"
  obtain g s1 where get: "rGet R ?k s = (g, s1)" by fastforce
  have "str_key (v s) ?k" using cur by (auto simp: ack_at_def str_at_def str_key_def split: option.splits rval.splits)
  then have "g = Inr sid" "v s1 = v s"
    using obeys_sureD [OF doc_rGet [OF doc, of ?k], of s] get cur by (simp_all add: doc_Get_def typed_def ack_at_def)
  with get show ?thesis by (simp add: AckCursor_def)
qed

lemma AddTopicSubscription_sure:
  assumes doc: "documented False R v" and keys: "set_key (v s) (topic_key t)" "set_key (v s) (subscribed_key uk)"
  shows "fst (AddTopicSubscription R uk t s) = Inr ()
    \<and> (\<forall>q. q \<noteq> topic_key t \<and> q \<noteq> subscribed_key uk \<longrightarrow> keyspace (v (snd (AddTopicSubscription R uk t s))) q = keyspace (v s) q)"
proof -
  obtain r1 s1 where a1: "rSAdd R (topic_key t) uk s = (r1, s1)" by fastforce
  obtain r2 s2 where a2: "rSAdd R (subscribed_key uk) t s1 = (r2, s2)" by fastforce
  have one: "r1 = Inr ()" "set_key (v s1) (topic_key t)" "\<forall>q. q \<noteq> topic_key t \<longrightarrow> keyspace (v s1) q = keyspace (v s) q"
    using obeys_sureD [OF doc_rSAdd [OF doc, of "topic_key t" uk], of s] a1 doc_SAdd_in [OF _ keys(1)] by auto
  have "set_key (v s1) (subscribed_key uk)"
    using keys(2) one(2,3) by (cases "subscribed_key uk = topic_key t") (simp_all add: set_key_def)
  with obeys_sureD [OF doc_rSAdd [OF doc, of "subscribed_key uk" t], of s1] a2
  have two: "r2 = Inr ()" "\<forall>q. q \<noteq> subscribed_key uk \<longrightarrow> keyspace (v s2) q = keyspace (v s1) q"
    using doc_SAdd_in by auto
  from a1 a2 one two show ?thesis by (simp add: AddTopicSubscription_def)
qed

section \<open>The two handlers\<close>

lemma authorize_allowed:
  assumes "fst (authorize D c a t x) = None"
  shows "authorize D c a t x = (None, note_authz a ''allowed'' x)"
  using assms by (auto simp: authorize_def split: option.splits if_splits)

lemma note_authz_core [simp]: "core (note_authz a d x) = core x" "user_of (note_authz a d x) c = user_of x c"
  by (simp_all add: note_authz_def user_of_def the_conn_def)

lemma handleAck_stores:
  assumes doc: "documented False (d_RDB D) v" and allowed: "fst (authorize D c ActionSubscribe (Topic env) x) = None"
    and key: "str_key (v (rds (core x))) (ackCursorKey (user_of x c) (Topic env))"
    and prior: "\<forall>cur. ack_at (v (rds (core x))) (user_of x c) (Topic env) = Some cur \<and> cur \<noteq> [] \<longrightarrow> StreamIDLess cur (StreamID env)"
  shows "fst (handleAck D c env x) = Inr (''Acknowledged '' @ StreamID env @ '' on topic '' @ Topic env)
    \<and> v (rds (core (snd (handleAck D c env x))))
        = put (ackCursorKey (user_of x c) (Topic env)) (Some (VStr (StreamID env) (ttl_of (AckCursorTTL D)))) (v (rds (core x)))
    \<and> world (core (snd (handleAck D c env x))) = world (core x)"
  using authorize_allowed [OF allowed] SetAckCursor_stores [OF doc key prior, of "AckCursorTTL D"]
  by (simp add: handleAck_def redis_do_eq split: sum.splits)

text \<open>What a subscribe has to find to be accepted: the topic is open to the user and the keys hold the types the server put there.\<close>

definition subscribable :: "'s deps \<Rightarrow> ('s \<Rightarrow> rdb) \<Rightarrow> cref \<Rightarrow> string \<Rightarrow> 's app \<Rightarrow> bool" where
  "subscribable D v c t x \<longleftrightarrow>
     (let db = v (rds (core x)); uk = user_of x c in
      fst (authorize D c ActionSubscribe t x) = None
      \<and> str_key db (lockKey t LockSubscribe) \<and> lock_owner db t LockSubscribe \<in> {None, Some uk}
      \<and> set_key db (topic_key t) \<and> set_key db (subscribed_key uk))"

lemma handleSubscribe_from_ack:
  assumes doc: "documented False (d_RDB D) v" and ok: "subscribable D v c (Topic env) x"
    and since: "Since env \<noteq> None" "SinceToString (d_floatInt D) (Since env) = Inr SinceAck"
    and cur: "ack_at (v (rds (core x))) (user_of x c) (Topic env) = Some cursor" and pat: "streamIDPattern cursor"
    and es: "keyspace (v (rds (core x))) (streamKeyPrefix @ Topic env) = Some (VStream es)"
  shows "\<exists>y. handleSubscribe D c env x = subscribe_since D c (Topic env) cursor y \<and> bus (core y) = bus (core x)
    \<and> world (core y) = world (core x) \<and> keyspace (v (rds (core y))) (streamKeyPrefix @ Topic env) = Some (VStream es)"
proof -
  let ?t = "Topic env" and ?uk = "user_of x c"
  let ?s1 = "snd (IsTopicLockedByOther (d_RDB D) ?t LockSubscribe ?uk (rds (core x)))"
  let ?s2 = "snd (AddTopicSubscription (d_RDB D) ?uk ?t ?s1)"
  let ?s3 = "snd (AckCursor (d_RDB D) ?uk ?t ?s2)"
  from ok have allowed: "fst (authorize D c ActionSubscribe ?t x) = None"
    and lk: "str_key (v (rds (core x))) (lockKey ?t LockSubscribe)" "lock_owner (v (rds (core x))) ?t LockSubscribe \<in> {None, Some ?uk}"
    and sk: "set_key (v (rds (core x))) (topic_key ?t)" "set_key (v (rds (core x))) (subscribed_key ?uk)"
    by (simp_all add: subscribable_def Let_def)
  note lock = lock_check_free [OF doc lk]
  have apart: "streamKeyPrefix @ ?t \<noteq> topic_key ?t" "streamKeyPrefix @ ?t \<noteq> subscribed_key ?uk"
    using topic_key_not_stream [of ?t] sk(2) es by (auto simp: set_key_def)
  have sub: "fst (AddTopicSubscription (d_RDB D) ?uk ?t ?s1) = Inr ()" "keyspace (v ?s2) (streamKeyPrefix @ ?t) = Some (VStream es)"
    "ack_at (v ?s2) ?uk ?t = Some cursor"
    using AddTopicSubscription_sure [OF doc, of ?s1 ?t ?uk] sk es cur apart lock ack_key_distinct [of ?uk ?t]
    by (simp_all add: ack_at_def str_at_def)
  note ack = AckCursor_reads [OF doc sub(3)]
  from pat have "cursor \<noteq> []" by (auto simp: streamIDPattern_def)
  moreover from since(1) obtain j where "Since env = Some j" by blast
  ultimately have "handleSubscribe D c env x
      = subscribe_since D c ?t cursor (set_rds ?s3 (set_rds ?s2 (set_rds ?s1 (note_authz ActionSubscribe ''allowed'' x))))"
    using since(2) lock sub(1) ack authorize_allowed [OF allowed] by (simp add: handleSubscribe_def redis_do_eq Let_def)
  with sub(2) ack show ?thesis by fastforce
qed

text \<open>The history no longer reaches back to the position, so that messages between them are gone.\<close>

definition replay_gap :: "(string \<times> blob) list \<Rightarrow> string \<Rightarrow> bool" where
  "replay_gap es cursor \<longleftrightarrow> 0 < fst (splitStreamID cursor) \<and> es \<noteq> [] \<and> compareStreamIDs cursor (fst (hd es)) < 0"

definition replayed :: "'s deps \<Rightarrow> string \<Rightarrow> (string \<times> blob) list \<Rightarrow> string \<Rightarrow> Conn \<Rightarrow> Conn" where
  "replayed D t es cursor cn =
     (let sent = fold (\<lambda>m. Send (d_marshal D (EncodePublish t (bm_data m) (bm_streamID m) True))) (entries_after es cursor) cn in
      if replay_gap es cursor then send_now D (EncodeReplayTruncated t (fst (hd es))) sent else sent)"

lemma subscribe_since_effect:
  assumes doc: "documented False (d_RDB D) v" and pat: "streamIDPattern cursor"
    and es: "keyspace (v (rds (core x))) (streamKeyPrefix @ t) = Some (VStream es)"
  shows "let (r, x') = subscribe_since D c t cursor x in
    r = Inr (subscribed_ok t) \<and> the_conn x' c = replayed D t es cursor (the_conn x c)
    \<and> (\<forall>d. d \<noteq> c \<longrightarrow> the_conn x' d = the_conn x d) \<and> c \<in> set (topic_subs (bus (core x')) t)"
proof -
  obtain r y where run: "SubscribeWithReplay (d_timeParse D) (bus_of D) c t cursor (core x) = (r, y)" by fastforce
  have env: "be_pub (bus_of D) = Some (d_RDB D)" "be_subs (bus_of D) = hub_subscribers (d_marshal D)"
    by (simp_all add: bus_of_def)
  have key: "stream_key (v (rds (core x))) (streamKeyPrefix @ t)" and at: "stream_at (v (rds (core x))) (streamKeyPrefix @ t) = es"
    using es by (simp_all add: stream_key_def stream_at_def)
  from pat have "parseSinceCursor (d_timeParse D) cursor = Inr cursor" by (auto simp: parseSinceCursor_def streamIDPattern_def)
  from SubscribeWithReplay_effect [OF doc env key this pat run] run show ?thesis
    by (simp add: at Let_def subscribe_since_def core_do_def the_conn_def reply_def replayed_def replay_gap_def)
qed

section \<open>From the acknowledgement to the resumed subscription\<close>

text \<open>
  (C5) A client that acknowledges a message and comes back gets exactly what it has not acknowledged.
  After a successful ack of a position on one connection, a subscribe of the same user with the
  position \<^verbatim>\<open>ack\<close>, on any connection and in any later state in which the stored position was not moved
  or expired, succeeds, queues for the connection, as replayed messages and in order, every entry of the
  history of the topic behind the acknowledged one, tells the client when the history no longer
  reaches back that far, registers the connection with the topic and leaves every other connection alone.
\<close>

theorem ack_then_resume:
  assumes doc: "documented False (d_RDB D) v"
    and ack: "fst (authorize D c ActionSubscribe (Topic env) x) = None"
      "str_key (v (rds (core x))) (ackCursorKey (user_of x c) (Topic env))"
      "\<forall>cur. ack_at (v (rds (core x))) (user_of x c) (Topic env) = Some cur \<and> cur \<noteq> [] \<longrightarrow> StreamIDLess cur (StreamID env)"
    and pat: "streamIDPattern (StreamID env)"
    and later: "ack_at (v (rds (core y))) (user_of x c) (Topic env)
      = ack_at (v (rds (core (snd (handleAck D c env x))))) (user_of x c) (Topic env)"
    and same: "user_of y d = user_of x c" "Topic env' = Topic env"
    and since: "Since env' \<noteq> None" "SinceToString (d_floatInt D) (Since env') = Inr SinceAck"
    and ok: "subscribable D v d (Topic env) y"
    and es: "keyspace (v (rds (core y))) (streamKeyPrefix @ Topic env) = Some (VStream es)"
  shows "fst (handleAck D c env x) = Inr (''Acknowledged '' @ StreamID env @ '' on topic '' @ Topic env)
    \<and> (let (r, y') = handleSubscribe D d env' y in
        r = Inr (subscribed_ok (Topic env)) \<and> the_conn y' d = replayed D (Topic env) es (StreamID env) (the_conn y d)
        \<and> (\<forall>e. e \<noteq> d \<longrightarrow> the_conn y' e = the_conn y e) \<and> d \<in> set (topic_subs (bus (core y')) (Topic env)))"
proof -
  note stored = handleAck_stores [OF doc ack]
  have "ack_at (v (rds (core y))) (user_of y d) (Topic env') = Some (StreamID env)"
    using stored later same by (simp add: ack_at_def str_at_def)
  from handleSubscribe_from_ack [OF doc _ since this pat, of es] ok es same obtain z where
    z: "handleSubscribe D d env' y = subscribe_since D d (Topic env) (StreamID env) z" "world (core z) = world (core y)"
      "keyspace (v (rds (core z))) (streamKeyPrefix @ Topic env) = Some (VStream es)" by auto
  with subscribe_since_effect [OF doc pat z(3), of d] stored show ?thesis by (simp add: the_conn_def split: prod.splits)
qed

text \<open>A client that has seen the first of three messages acknowledges it and subscribes again.\<close>

definition demo_ack :: Envelope where "demo_ack = demo_publish\<lparr>Type := ''ack'', Data := None, StreamID := ''5-0''\<rparr>"
definition demo_resume :: Envelope where "demo_resume = demo_subscribe\<lparr>Since := Some (JStr ''ack'')\<rparr>"
definition history_app :: "ref_state app" where "history_app = demo_app\<lparr>core := demo_history\<rparr>"

theorem ack_then_resume_witness:
  "let y = snd (handleAck open_deps 3 demo_ack history_app) in
    sendCh (the_conn (snd (handleSubscribe open_deps 3 demo_resume y)) 3) = [text_frame ''x'', text_frame ''x'']"
proof -
  let ?x = history_app and ?h = "[(''5-0'', Json (JStr ''a'')), (''5-1'', Json (JStr ''b'')), (''7-0'', Json (JStr ''c''))]"
  let ?y = "snd (handleAck open_deps 3 demo_ack ?x)"
  have doc: "documented False (d_RDB open_deps) ref_view" by (simp add: open_deps_def demo_deps_def ref_redis_documented)
  have t: "Topic demo_ack = ''t''" "StreamID demo_ack = ''5-0''" "Topic demo_resume = ''t''" "Since demo_resume = Some (JStr ''ack'')"
    by (simp_all add: demo_ack_def demo_resume_def demo_subscribe_def demo_publish_def)
  have user: "user_of ?x 3 = ''ann''" and w: "world (core ?x) = demo_world"
    by (simp_all add: user_of_def the_conn_def history_app_def demo_history_def demo_inst_def demo_world_def NewConn_def demo_cfg_def)
  have keys: "entries (rds (core ?x)) = [(''topic:stream:t'', VStream ?h)]"
    by (simp add: history_app_def demo_history_def)
  have allowed: "fst (authorize open_deps 3 ActionSubscribe ''t'' z) = None" for z
    by (simp add: authorize_def open_deps_def demo_deps_def)
  have free: "str_key (ref_view (rds (core ?x))) (ackCursorKey ''ann'' ''t'')" "ack_at (ref_view (rds (core ?x))) ''ann'' ''t'' = None"
    by (simp_all add: str_key_def ack_at_def str_at_def keys ackCursorKey_def prefix_defs)
  have ack: "fst (authorize open_deps 3 ActionSubscribe (Topic demo_ack) ?x) = None"
    "str_key (ref_view (rds (core ?x))) (ackCursorKey (user_of ?x 3) (Topic demo_ack))"
    "\<forall>cur. ack_at (ref_view (rds (core ?x))) (user_of ?x 3) (Topic demo_ack) = Some cur \<and> cur \<noteq> [] \<longrightarrow> StreamIDLess cur (StreamID demo_ack)"
    using allowed free by (simp_all add: t user)
  have pat: "streamIDPattern (StreamID demo_ack)"
    using streamIDPattern_stream_id [of 5 0] by (simp add: t stream_id_def FormatUint.simps digit_char_eval)
  note after = handleAck_stores [OF doc ack, unfolded t user]
  have y: "user_of ?y 3 = ''ann''" "the_conn ?y 3 = heap demo_world 3"
    using after user w by (simp_all add: user_of_def the_conn_def)
  have "keyspace (ref_view (rds (core ?y))) = (keyspace (ref_view (rds (core ?x))))(ackCursorKey ''ann'' ''t'' \<mapsto> VStr ''5-0'' (ttl_of (AckCursorTTL open_deps)))"
    using after by (simp only: keyspace_put)
  then have keys': "map_of (entries (rds (core ?y))) = [''topic:stream:t'' \<mapsto> VStream ?h, ''ack:ann:t'' \<mapsto> VStr ''5-0'' (ttl_of (AckCursorTTL open_deps))]"
    by (simp add: keys ackCursorKey_def prefix_defs)
  have ok: "subscribable open_deps ref_view 3 (Topic demo_ack) ?y"
    using allowed by (simp add: subscribable_def t y keys' str_key_def set_key_def lock_owner_def str_at_def
        ackCursorKey_def lockKey_def LockSubscribe_def topic_key_def subscribed_key_def prefix_defs)
  have es: "keyspace (ref_view (rds (core ?y))) (streamKeyPrefix @ Topic demo_ack) = Some (VStream ?h)"
    by (simp add: t keys' prefix_defs)
  have since: "Since demo_resume \<noteq> None" "SinceToString (d_floatInt open_deps) (Since demo_resume) = Inr SinceAck"
    by (simp_all add: t SinceToString_def SinceAck_def)
  have two: "sendCh (replayed open_deps ''t'' ?h ''5-0'' (heap demo_world 3)) = [text_frame ''x'', text_frame ''x'']"
    by (simp add: replayed_def replay_gap_def entries_after_def demo_splits pos_less_def compareStreamIDs_neg_iff
        open_deps_def demo_deps_def demo_world_def conn_eval)
  from ack_then_resume [OF doc ack pat refl _ _ since ok es] two show ?thesis
    by (simp add: t y user case_prod_beta)
qed

end
