(* ===== verification/EndToEnd.thy ===== *)
theory EndToEnd
  imports ServerRun
begin

text \<open>
  A message from the socket of its publisher to the socket of a subscriber of another instance:
  the frame passes the limiter, the validation, the authorizer and the lock check, is appended to
  the topic's stream and announced, and the announcement is fanned out to the queue, and by the
  writer to the wire, of the subscriber. The instances share nothing but Redis.
\<close>

section \<open>Keys a frame does not touch\<close>

definition only_key :: "string \<Rightarrow> rdb \<Rightarrow> rdb \<Rightarrow> bool" where
  "only_key k d d' \<longleftrightarrow> published d' = published d \<and> (\<forall>k'. k' \<noteq> k \<longrightarrow> keyspace d' k' = keyspace d k')"

lemma only_key_refl [simp]: "only_key k d d"
  by (simp add: only_key_def)

lemma only_key_trans: "only_key k d d' \<Longrightarrow> only_key k d' d'' \<Longrightarrow> only_key k d d''"
  by (simp add: only_key_def)

lemma only_key_put [simp]: "only_key k d (put k x d)" "only_key k d (put_zset k z d)"
  by (auto simp: only_key_def put_zset_def)

lemma only_key_cmds:
  assumes doc: "documented False R v"
  shows "only_key k (v s) (v (snd (rZRemRangeByScore R k hi s)))" "only_key k (v s) (v (snd (rZCard R k s)))"
    "only_key k (v s) (v (snd (rZAdd R k sc m s)))" "only_key k (v s) (v (snd (rPExpire R k t s)))"
  using obeys_sureD [OF doc_rZRemRangeByScore [OF doc, of k hi], of s] obeys_sureD [OF doc_rZCard [OF doc, of k], of s]
    obeys_sureD [OF doc_rZAdd [OF doc, of k sc m], of s] obeys_sureD [OF doc_rPExpire [OF doc, of k t], of s]
  by (auto simp: doc_ZRemRangeByScore_def doc_ZCard_def doc_ZAdd_def doc_PExpire_def typed_def split: if_splits)

lemma rate_script_only_key:
  assumes doc: "documented False R v"
  shows "only_key k (v s) (v (snd (rate_script R k now window limit m s)))"
proof -
  obtain r1 s1 where c1: "rZRemRangeByScore R k (now - window) s = (r1, s1)" by fastforce
  obtain r2 s2 where c2: "rZCard R k s1 = (r2, s2)" by fastforce
  obtain r3 s3 where c3: "rZAdd R k now m s2 = (r3, s3)" by fastforce
  obtain r4 s4 where c4: "rPExpire R k window s3 = (r4, s4)" by fastforce
  have "only_key k (v s) (v s1)" "only_key k (v s1) (v s2)" "only_key k (v s2) (v s3)" "only_key k (v s3) (v s4)"
    using only_key_cmds [OF doc, of k] c1 c2 c3 c4 by (metis snd_conv)+
  then show ?thesis by (auto simp: rate_script_def c1 c2 c3 c4 split: sum.splits intro: only_key_trans)
qed

lemma limiter_only_key:
  assumes doc: "documented False (d_RDB D) v"
  shows "only_key (rate_key ''msg'' (user_of x c)) (v (rds (core x))) (v (snd (limiter D c x)))"
  using rate_script_only_key [OF doc] eval_sureD(2) [OF doc_rEval [OF doc]]
  by (simp add: limiter_def Allow_def split: prod.splits sum.splits) (metis snd_conv)

lemma not_rate_key: "streamKeyPrefix @ t \<noteq> rate_key b u" "lockKey t LockPublish \<noteq> rate_key b u"
  by (simp_all add: rate_key_def prefix_defs lockKey_def LockPublish_def)

section \<open>The publisher's side\<close>

text \<open>Redis is ready for a publish: the topic's stream accepts entries and nobody else holds its publish lock.\<close>

definition publishable :: "rdb \<Rightarrow> string \<Rightarrow> string \<Rightarrow> bool" where
  "publishable d t uk \<longleftrightarrow> stream_ready d (streamKeyPrefix @ t) \<and> str_key d (lockKey t LockPublish)
     \<and> lock_owner d t LockPublish \<in> {None, Some uk}"

lemma publishable_only_key:
  assumes "only_key (rate_key b u) d d'"
  shows "publishable d' t uk = publishable d t uk"
proof -
  have "keyspace d' (streamKeyPrefix @ t) = keyspace d (streamKeyPrefix @ t)"
    "keyspace d' (lockKey t LockPublish) = keyspace d (lockKey t LockPublish)"
    using assms not_rate_key by (simp_all add: only_key_def)
  then show ?thesis
    by (simp add: publishable_def stream_ready_def stream_key_def stream_at_def str_key_def lock_owner_def str_at_def)
qed

lemma handlePublish_ok:
  assumes doc: "documented False (d_RDB D) v"
    and az: "\<forall>az. d_Authorizer D = Some az \<longrightarrow>
      az \<lparr>req_UserKey = user_of x c, req_Action = ActionPublish, req_Topic = Topic env, req_Claims = d_claims D c\<rparr> = None"
    and ready: "publishable (v (rds (core x))) (Topic env) (user_of x c)"
    and rc: "fst (judge (judging (d_bus_cfg D)) (Topic env) (Data env)) = Inr rc"
  shows "\<exists>sid y x1 x2. handlePublish D c env x = (Inr (''Successfully published to topic '' @ Topic env), x2)
    \<and> v (rds y) = v (rds (core x)) \<and> core x2 = x1 \<and> world x1 = world (core x)
    \<and> PublishTopic (bus_of D) (Topic env) (Data env) (if Report env then conn_id (the_conn x c) else []) y = (Inr sid, x1)"
proof -
  let ?t = "Topic env" and ?rt = "if Report env then conn_id (the_conn x c) else []"
  have a: "authorize D c ActionPublish ?t x = (None, note_authz ActionPublish ''allowed'' x)"
    using az by (cases "d_Authorizer D") (simp_all add: authorize_def)
  let ?lock = "IsTopicLockedByOther (d_RDB D) ?t LockPublish (user_of x c) (rds (core x))"
  let ?x2 = "set_rds (snd ?lock) (note_authz ActionPublish ''allowed'' x)"
  have l: "redis_do (IsTopicLockedByOther (d_RDB D) ?t LockPublish (user_of x c)) (note_authz ActionPublish ''allowed'' x) = (Inr False, ?x2)"
    and vl: "v (snd ?lock) = v (rds (core x))" using lock_check_free [OF doc, of "rds (core x)" ?t LockPublish "user_of x c"] ready
    by (simp_all add: redis_do_eq publishable_def)
  have "be_pub (bus_of D) = Some (d_RDB D)" "fst (judge (judging (be_cfg (bus_of D))) ?t (Data env)) = Inr rc"
    "stream_ready (v (rds (core ?x2))) (streamKeyPrefix @ ?t)"
    using rc ready vl by (simp_all add: bus_of_def publishable_def)
  from PublishTopic_succeeds [OF doc this, of ?rt] obtain sid x1
    where p: "PublishTopic (bus_of D) ?t (Data env) ?rt (core ?x2) = (Inr sid, x1)" by blast
  have "world x1 = world (core ?x2)"
    using p by (auto simp: PublishTopic_def Let_def split: prod.splits option.splits sum.splits)
  moreover have "handlePublish D c env x = (Inr (''Successfully published to topic '' @ ?t), ?x2\<lparr>core := x1\<rparr>)"
    using a l p by (simp add: handlePublish_def core_do_def Let_def)
  ultimately show ?thesis using p vl
    by (intro exI [of _ sid] exI [of _ "core ?x2"] exI [of _ x1] exI [of _ "?x2\<lparr>core := x1\<rparr>"]) simp
qed

section \<open>The subscriber's side\<close>

text \<open>A connection that takes another message of \<open>n\<close> bytes.\<close>

definition takes :: "int \<Rightarrow> Conn \<Rightarrow> bool" where
  "takes n cn \<longleftrightarrow> conn_inv cn \<and> \<not> isClosed cn \<and> \<not> drained cn \<and> room cn \<and> bufBytes cn + n \<le> maxBuf cn"

lemma runWriter_empties: "\<not> drained c \<Longrightarrow> closes (sendCh c) = 0 \<Longrightarrow> sendCh (runWriter all_ok c) = []"
proof (induction "length (sendCh c)" arbitrary: c rule: less_induct)
  case less
  show ?case
  proof (cases "writer_step all_ok c")
    case None
    with less.prems show ?thesis
      by (auto simp: runWriter.simps [of _ c] writer_step_def Let_def split: list.splits frameKind.splits)
  next
    case (Some c')
    with less.prems have "\<not> drained c' \<and> closes (sendCh c') = 0"
      by (auto simp: writer_step_def Let_def split: list.splits frameKind.splits)
    with less.hyps [OF writer_step_shorter [OF Some]] Some show ?thesis by (simp add: runWriter.simps [of _ c])
  qed
qed

lemma Send_reaches_wire:
  assumes "takes (int (length msg)) cn"
  shows "wire (runWriter all_ok (Send msg cn)) = accepted cn @ [text_frame msg]"
proof -
  let ?cn = "Send msg cn"
  have s: "SendReporting msg cn = (True, ?cn)" "sendCh ?cn = sendCh cn @ [text_frame msg]" "wire ?cn = wire cn" "drained ?cn = drained cn"
    using assms by (simp_all add: takes_def Send_def SendReporting_def enqueue_def Let_def)
  have "closes (sendCh ?cn) = 0" using assms s(2) by (simp add: takes_def conn_inv_def text_frame_def)
  then have "sendCh (runWriter all_ok ?cn) = []" using runWriter_empties assms s(4) by (simp add: takes_def)
  then have "wire (runWriter all_ok ?cn) = accepted ?cn" using runWriter_accepted [of ?cn] by (simp add: accepted_def)
  also have "\<dots> = accepted cn @ [text_frame msg]" by (simp add: accepted_def s norm_close_def text_frame_def)
  finally show ?thesis .
qed

section \<open>From socket to socket\<close>

text \<open>
  A published message arrives (C3). When a publish frame is accepted on one instance (limiter, validation,
  authorizer and lock allow it, Redis answers), the publisher gets a success frame, the message is
  the newest entry of the topic's stream, and exactly one announcement goes out; on any instance
  that receives it, the writer of a live subscriber the judge did not exclude puts the message on
  the wire, with its stream ID, after everything that was accepted for that subscriber before.
\<close>

theorem publish_reaches_socket:
  assumes doc: "documented False (d_RDB D) v"
    and ok: "unmarshal_Envelope rawFrame = Some env" "fst (limiter D c x) = Inr True" "validate_frame D env = Inr ()"
    and plain: "d_Middleware D = []" "Lookup (d_Registry D) (Type env) = None" and ty: "Type env = TypePublish"
    and az: "\<forall>az. d_Authorizer D = Some az \<longrightarrow>
      az \<lparr>req_UserKey = user_of x c, req_Action = ActionPublish, req_Topic = Topic env, req_Claims = d_claims D c\<rparr> = None"
    and ready: "publishable (v (rds (core x))) (Topic env) (user_of x c)"
    and rc: "fst (judge (judging (d_bus_cfg D)) (Topic env) (Data env)) = Inr rc"
    and inv: "bus_inv (bus y)" and sub: "d \<in> set (topic_subs (bus y) (Topic env))" "\<not> is_buffering (bus y) d (Topic env)"
    and chosen: "\<forall>ids. rc = Some ids \<longrightarrow> conn_id (heap (world y) d) \<in> set ids"
    and live: "\<forall>sid. takes (int (length (d_marshal E (EncodePublish (Topic env) (Some (marshal_raw (Data env))) sid False)))) (heap (world y) d)"
  shows "\<exists>sid ch pl x'. Dispatch D c rawFrame x = reply D c (EncodeSuccess (ReqID env) (''Successfully published to topic '' @ Topic env)) x'
    \<and> last (stream_at (v (rds (core x'))) (streamKeyPrefix @ Topic env)) = (sid, Json (marshal_raw (Data env)))
    \<and> published (v (rds (core x'))) = published (v (rds (core x))) @ [(ch, pl)]
    \<and> wire (runWriter all_ok (heap (world (bus_dispatch (bus_of E) ch pl y)) d))
      = accepted (heap (world y) d) @ [text_frame (d_marshal E (EncodePublish (Topic env) (Some (marshal_raw (Data env))) sid False))]"
proof -
  let ?t = "Topic env" and ?x = "after_limiter D c env x" and ?rt = "if Report env then conn_id (the_conn x c) else []"
  note lim = limiter_only_key [OF doc, of x c]
  have u: "user_of ?x c = user_of x c" "the_conn ?x c = the_conn x c" by (simp_all add: user_of_def the_conn_def)
  have ready': "publishable (v (rds (core ?x))) ?t (user_of ?x c)"
    using ready publishable_only_key [OF lim] by (simp add: u)
  have az': "\<forall>az. d_Authorizer D = Some az \<longrightarrow>
      az \<lparr>req_UserKey = user_of ?x c, req_Action = ActionPublish, req_Topic = ?t, req_Claims = d_claims D c\<rparr> = None"
    using az u by simp
  obtain sid z x1 x2 where h: "handlePublish D c env ?x = (Inr (''Successfully published to topic '' @ ?t), x2)"
    and z: "v (rds z) = v (rds (core ?x))" "core x2 = x1" and p: "PublishTopic (bus_of D) ?t (Data env) ?rt z = (Inr sid, x1)"
    using handlePublish_ok [OF doc az' ready' rc] unfolding u by blast
  have dsp: "Dispatch D c rawFrame x = reply D c (EncodeSuccess (ReqID env) (''Successfully published to topic '' @ ?t)) x2"
    using Dispatch_builtin [OF ok plain] h ty by (simp add: builtin_def Type_defs finish_def)
  let ?p = "\<lparr>wp_StreamID = sid, wp_Data = Data env, wp_ReportTo = ?rt, wp_Recipients = rc\<rparr>"
  have "stream_ready (v (rds z)) (streamKeyPrefix @ ?t)" using ready' z by (simp add: publishable_def)
  note eff = PublishTopic_effect [OF doc _ this _ p, of rc]
  have pub: "published (v (rds x1)) = published (v (rds (core x))) @ [(topicChannelPrefix @ ?t, marshal_wireTopic ?p)]"
    and str: "last (stream_at (v (rds x1)) (streamKeyPrefix @ ?t)) = (sid, Json (marshal_raw (Data env)))"
    using eff rc z lim by (auto simp: bus_of_def only_key_def)
  have "heap (world (bus_dispatch (bus_of E) (topicChannelPrefix @ ?t) (marshal_wireTopic ?p) y)) d =
      Send (d_marshal E (EncodePublish ?t (Some (marshal_raw (Data env))) sid False)) (heap (world y) d)"
    using handleTopic_fanout [OF inv _ wireTopic_roundtrip [of ?p], of "bus_of E" "d_marshal E" ?t d ?t] sub chosen
    by (auto simp: dispatch_topic bus_of_def split: option.splits)
  then have "wire (runWriter all_ok (heap (world (bus_dispatch (bus_of E) (topicChannelPrefix @ ?t) (marshal_wireTopic ?p) y)) d))
      = accepted (heap (world y) d) @ [text_frame (d_marshal E (EncodePublish ?t (Some (marshal_raw (Data env))) sid False))]"
    using Send_reaches_wire live by simp
  with dsp pub str z show ?thesis by blast
qed

theorem publish_reaches_socket_witness:
  "\<exists>ch pl x'. Dispatch open_deps 3 demo_frame demo_app = reply open_deps 3 (EncodeSuccess ''r1'' ''Successfully published to topic t'') x'
    \<and> published (ref_view (rds (core x'))) = [(ch, pl)]
    \<and> wire (runWriter all_ok (heap (world (bus_dispatch (bus_of open_deps) ch pl demo_sub_inst)) 4)) = [text_frame ''x'']"
proof -
  have doc: "documented False (d_RDB open_deps) ref_view" by (simp add: open_deps_def demo_deps_def ref_redis_documented)
  have lim: "fst (limiter open_deps 3 demo_app) = Inr True"
    using demo_limiter [of 3] by (simp add: limiter_def open_deps_def)
  have "validate_frame open_deps demo_publish = validate_frame demo_deps demo_publish" by (simp add: validate_frame_def open_deps_def)
  then have val: "validate_frame open_deps demo_publish = Inr ()" by (simp add: demo_valid)
  have ty: "Type demo_publish = TypePublish" "Topic demo_publish = ''t''" "ReqID demo_publish = ''r1''"
    by (simp_all add: demo_publish_def Type_defs)
  have plain: "d_Middleware open_deps = []" "Lookup (d_Registry open_deps) v = None" "d_Authorizer open_deps = None" for v
    by (simp_all add: open_deps_def demo_deps_def Lookup_def)
  have none: "keyspace (ref_view (rds (core demo_app))) k = None" "published (ref_view (rds (core demo_app))) = []" for k
    by (simp_all add: demo_app_def demo_inst_def ref_view_def)
  then have ready: "publishable (ref_view (rds (core demo_app))) (Topic demo_publish) (user_of demo_app 3)"
    by (simp add: publishable_def stream_ready_def lock_owner_def key_defs)
  have rc: "fst (judge (judging (d_bus_cfg open_deps)) (Topic demo_publish) (Data demo_publish)) = Inr None"
    by (simp add: open_deps_def demo_deps_def demo_env_def demo_cfg_bus_def judge_def)
  have sub: "4 \<in> set (topic_subs (bus demo_sub_inst) (Topic demo_publish))" "\<not> is_buffering (bus demo_sub_inst) 4 (Topic demo_publish)"
    by (simp_all add: bus_eval is_buffering_def ty)
  have m: "d_marshal open_deps j = ''x''" for j by (simp add: open_deps_def demo_deps_def)
  have cn: "heap (world demo_sub_inst) 4 = NewConn (FormatUint 4) (demo_cfg\<lparr>cfg_ID := []\<rparr>)"
    by (simp add: demo_sub_inst_def demo_inst_def demo_world_def)
  have live: "takes 1 (heap (world demo_sub_inst) 4)" "accepted (heap (world demo_sub_inst) 4) = []"
    unfolding cn by (simp_all add: takes_def NewConn_inv) (simp_all add: NewConn_def demo_cfg_def room_def accepted_def)
  show ?thesis
    using publish_reaches_socket [OF doc demo_frame_env lim val plain(1,2) ty(1) _ ready rc demo_sub_inv sub, of open_deps]
      plain(3) live none(2) by (auto simp: m ty)
qed

end
