(* ===== verification/ConnMetrics.thy ===== *)
theory ConnMetrics
  imports ServerRun
begin

text \<open>
  The connection metrics of an instance: \<^verbatim>\<open>NewConn\<close> and the tail of \<^verbatim>\<open>Conn.Run\<close> in
  \<^verbatim>\<open>internal/connection/hub.go\<close> keep a gauge of the open connections, the reasons of the closed ones and
  their durations. \<open>metered_step\<close> runs them beside the steps of the instance.
\<close>

section \<open>The counters of a connection's life\<close>

record conn_metrics =
  ConnectionsActive :: int
  ClosedReasons :: "string list"
  ConnectionDuration :: "int list"

definition opened :: "conn_metrics \<Rightarrow> conn_metrics" where
  "opened m = m\<lparr>ConnectionsActive := ConnectionsActive m + 1\<rparr>"

text \<open>\<open>openedAt\<close> and \<open>now\<close> are readings of the clock.\<close>

definition Run_metrics :: "string \<Rightarrow> int \<Rightarrow> int \<Rightarrow> conn_metrics \<Rightarrow> conn_metrics" where
  "Run_metrics reason openedAt now m =
     m\<lparr>ConnectionsActive := ConnectionsActive m - 1, ClosedReasons := ClosedReasons m @ [reason],
       ConnectionDuration := ConnectionDuration m @ [now - openedAt]\<rparr>"

text \<open>The end of \<^verbatim>\<open>Run\<close>: it closes the connection, counts it and calls \<^verbatim>\<open>onDone\<close>.\<close>

definition Run_end :: "'s deps \<Rightarrow> cref \<Rightarrow> bool \<Rightarrow> int \<Rightarrow> int \<Rightarrow> 's app \<times> conn_metrics \<Rightarrow> 's app \<times> conn_metrics" where
  "Run_end D c readErr openedAt now p =
     (case p of (x, m) \<Rightarrow>
        (serve_close D c readErr x,
         Run_metrics (closeReason (Run_teardown readErr (the_conn x c))) openedAt now m))"

text \<open>\<^verbatim>\<open>Conn.WaitDrained\<close>: when both cases are ready, \<open>pick\<close> is the choice of the \<^verbatim>\<open>select\<close>; nothing while it blocks.\<close>

definition Conn_WaitDrained :: "bool \<Rightarrow> bool \<Rightarrow> Conn \<Rightarrow> bool option" where
  "Conn_WaitDrained pick ctxDone cn =
     (if drained cn \<and> (\<not> ctxDone \<or> pick) then Some True else if ctxDone then Some False else None)"

lemma Conn_WaitDrained_sound: "Conn_WaitDrained pick ctxDone cn = Some True \<Longrightarrow> drained cn"
  by (auto simp: Conn_WaitDrained_def split: if_splits)

section \<open>An instance with its metrics\<close>

inductive metered_step :: "'s app \<times> conn_metrics \<Rightarrow> 's app \<times> conn_metrics \<Rightarrow> bool" where
  mt_connect: "plain_deps D \<Longrightarrow> c \<notin> set (Snapshot (world (core x))) \<Longrightarrow>
    metered_step (x, m) (serve_open cfg D connID c res x, opened m)"
| mt_frame: "plain_deps D \<Longrightarrow> c \<in> set (Snapshot (world (core x))) \<Longrightarrow> metered_step (x, m) (Dispatch D c rawFrame x, m)"
| mt_close: "plain_deps D \<Longrightarrow> c \<in> set (Snapshot (world (core x))) \<Longrightarrow>
    metered_step (x, m) (Run_end D c readErr openedAt now (x, m))"
| mt_message: "metered_step (x, m) (x\<lparr>core := bus_dispatch (bus_of D) ch pl (core x)\<rparr>, m)"
| mt_conn: "conn_step alive (the_conn x c) cn \<Longrightarrow> metered_step (x, m) (conn_do c (\<lambda>_. cn) x, m)"
| mt_redis: "metered_step (x, m) (set_rds s x, m)"

inductive_cases metered_stepE: "metered_step p q"

lemma metered_server: "metered_step p q \<Longrightarrow> server_step (fst p) (fst q)"
  by (induction rule: metered_step.induct) (auto simp: Run_end_def intro: server_step.intros)

definition metered_inv :: "'s app \<times> conn_metrics \<Rightarrow> bool" where
  "metered_inv p \<longleftrightarrow> server_inv (fst p)
     \<and> ConnectionsActive (snd p) = int (card (set (Snapshot (world (core (fst p))))))
     \<and> length (ClosedReasons (snd p)) = length (ConnectionDuration (snd p))"

lemma metered_step_inv:
  assumes "metered_step p q" and "metered_inv p"
  shows "metered_inv q"
proof -
  have inv: "server_inv (fst p)" "server_inv (fst q)"
    using assms server_step_inv [OF metered_server [OF assms(1)]] by (simp_all add: metered_inv_def)
  then have h: "hub_inv (world (core (fst p)))" "bus_inv (bus (core (fst p)))" by (simp_all add: server_inv_def)
  from assms(1) show ?thesis
  proof cases
    case (mt_connect D c x m cfg connID res)
    then have "OnConnect D = None" by (simp add: plain_deps_def)
    from serve_open_spec(2) [OF this] mt_connect h inv assms(2) show ?thesis
      by (simp add: metered_inv_def opened_def)
  next
    case (mt_frame D c x m rawFrame)
    then have "kept c (core x) (core (Dispatch D c rawFrame x))" by (intro kept_Dispatch) (simp_all add: plain_deps_def)
    from kept_hub(2) [OF this] mt_frame inv assms(2) show ?thesis by (simp add: metered_inv_def)
  next
    case (mt_close D c x m readErr openedAt now)
    then have d: "OnDisconnect D = None" by (simp add: plain_deps_def)
    have "card (set (Snapshot (world (core x))) - {c}) + 1 = card (set (Snapshot (world (core x))))"
      using mt_close card_Suc_Diff1 [of "set (Snapshot (world (core x)))" c] by simp
    with serve_close_spec(2) [OF d, of x c readErr] mt_close h inv assms(2) show ?thesis
      by (simp add: metered_inv_def Run_end_def Run_metrics_def)
  next
    case (mt_message x m D ch pl)
    have "users (world (bus_dispatch (bus_of D) ch pl (core x))) = users (world (core x))"
      using only_sends_frame(4) [OF bus_dispatch_sends [of "bus_of D" "d_marshal D"]] by (simp add: bus_of_def)
    with mt_message inv assms(2) show ?thesis by (simp add: metered_inv_def Snapshot_def)
  next
    case (mt_conn alive x c cn m)
    with inv assms(2) show ?thesis by (simp add: metered_inv_def Snapshot_def conn_do_def Let_def)
  next
    case (mt_redis x m s)
    with inv assms(2) show ?thesis by (simp add: metered_inv_def)
  qed
qed

definition metered_start :: "'s app \<times> conn_metrics \<Rightarrow> bool" where
  "metered_start p \<longleftrightarrow> server_start (fst p) \<and> snd p = \<lparr>ConnectionsActive = 0, ClosedReasons = [], ConnectionDuration = []\<rparr>"

interpretation metered: inv_system "\<lambda>_. True" "\<lambda>_. metered_start" "\<lambda>_. metered_step" "\<lambda>_. metered_inv"
proof unfold_locales
  fix p :: "'s app \<times> conn_metrics"
  assume "metered_start p"
  then show "metered_inv p"
    using server_start_inv [of "fst p"] by (auto simp: metered_start_def metered_inv_def server_start_def Snapshot_def)
qed (rule metered_step_inv)

text \<open>
  The gauge of open connections. Through every interleaving of the life of an instance, the gauge of
  active connections is the number of sockets registered in the hub, so it is never negative and is
  zero when the last socket is gone, and every close has been counted once with its duration.
\<close>

theorem active_gauge_exact:
  assumes run: "metered_step\<^sup>*\<^sup>* (x0, m0) (x, m)" and start: "server_start x0"
    and zero: "m0 = \<lparr>ConnectionsActive = 0, ClosedReasons = [], ConnectionDuration = []\<rparr>"
  shows "ConnectionsActive m = int (card (set (Snapshot (world (core x))))) \<and> 0 \<le> ConnectionsActive m
    \<and> length (ClosedReasons m) = length (ConnectionDuration m)"
proof -
  from start have "metered_start (x0, m0)" by (simp add: metered_start_def zero)
  from metered.reachable_inv [OF _ this run] have "metered_inv (x, m)" by blast
  then show ?thesis by (simp add: metered_inv_def)
qed

theorem active_gauge_exact_witness:
  "ConnectionsActive (opened \<lparr>ConnectionsActive = 0, ClosedReasons = [], ConnectionDuration = []\<rparr>)
   = int (card (set (Snapshot (world (core (serve_open origin_cfg open_deps ''id'' 3 demo_ann demo_app))))))"
proof -
  let ?m0 = "\<lparr>ConnectionsActive = 0, ClosedReasons = [], ConnectionDuration = []\<rparr>"
  have "3 \<notin> set (Snapshot (world (core demo_app)))" by (simp add: demo_app_def demo_inst_def demo_world_def Snapshot_def)
  from r_into_rtranclp [of metered_step, OF mt_connect [OF open_plain this, where m = ?m0 and cfg = origin_cfg and connID = "''id''" and res = demo_ann]]
  show ?thesis using active_gauge_exact [OF _ demo_app_start refl] by blast
qed

end
