(* ===== verification/Logger.thy ===== *)
theory Logger
  imports Protocol
begin

text \<open>
  The redacting logger: \<^verbatim>\<open>internal/logger/logger.go\<close>, and \<^verbatim>\<open>JobData.LogValue\<close> of
  \<^verbatim>\<open>protocol/protocol.go\<close>, which exposes a job to it. A \<^verbatim>\<open>slog.Value\<close> is a plain value, a group
  or a \<^verbatim>\<open>LogValuer\<close> with the value its method returns.
\<close>

section \<open>Values of package slog\<close>

datatype slogval =
    LogPlain json
  | LogGroup "(string \<times> slogval) list"
  | LogValuer slogval

type_synonym attr = "string \<times> slogval"

text \<open>\<^verbatim>\<open>Value.Resolve\<close> calls \<^verbatim>\<open>LogValue\<close> at most 100 times, then gives up with an error value.\<close>

fun resolve :: "nat \<Rightarrow> slogval \<Rightarrow> slogval" where
  "resolve 0 v = LogPlain (JStr ''LogValue called too many times'')"
| "resolve (Suc n) (LogValuer v) = resolve n v"
| "resolve (Suc n) v = v"

definition Resolve :: "slogval \<Rightarrow> slogval" where
  "Resolve v = resolve 100 v"

lemma resolve_size: "size (resolve n v) \<le> size v"
  by (induction n v rule: resolve.induct) auto

lemma Resolve_size: "size (Resolve v) \<le> size v"
  by (simp add: Resolve_def resolve_size)

lemma resolve_not_valuer: "resolve n v \<noteq> LogValuer w"
  by (induction n v rule: resolve.induct) auto

lemma Resolve_not_valuer [simp]: "Resolve v \<noteq> LogValuer w"
  by (simp add: Resolve_def resolve_not_valuer)

section \<open>The redacting handler\<close>

definition RedactedValue :: string where "RedactedValue = ''[REDACTED]''"

definition sensitive :: "string \<Rightarrow> bool" where
  "sensitive key =
     (let k = ToLower key in
      HasSuffix k ''password'' \<or> HasSuffix k ''token'' \<or> HasSuffix k ''authorization'' \<or> HasSuffix k ''secret'')"

function redactAttr :: "string \<Rightarrow> slogval \<Rightarrow> attr" where
  "redactAttr key v =
     (case Resolve v of
        LogGroup gs \<Rightarrow> (key, LogGroup (map (\<lambda>g. redactAttr (fst g) (snd g)) gs))
      | w \<Rightarrow> if sensitive key then (key, LogPlain (JStr RedactedValue)) else (key, w))"
  by pat_completeness auto

lemma group_member_size:
  assumes "Resolve v = LogGroup gs" and "g \<in> set gs"
  shows "size (snd g) < size v"
proof -
  from assms(2) have "size (snd g) < size (LogGroup gs)"
    by (induction gs) (auto simp: less_Suc_eq_le)
  with assms(1) Resolve_size [of v] show ?thesis by simp
qed

termination redactAttr
  by (relation "measure (size \<circ> snd)") (auto dest: group_member_size)

declare redactAttr.simps [simp del]

text \<open>
  The inner \<^verbatim>\<open>slog.JSONHandler\<close>: its level, the open groups, and the attributes bound to it with
  the groups that were open then. A record is written as its bound attributes and its own.
\<close>

record JSONHandler =
  h_level :: int
  h_groups :: "string list"
  h_bound :: "(string list \<times> attr) list"

definition inner_WithAttrs :: "attr list \<Rightarrow> JSONHandler \<Rightarrow> JSONHandler" where
  "inner_WithAttrs as h = h\<lparr>h_bound := h_bound h @ map (Pair (h_groups h)) as\<rparr>"

definition inner_WithGroup :: "string \<Rightarrow> JSONHandler \<Rightarrow> JSONHandler" where
  "inner_WithGroup name h = (if name = [] then h else h\<lparr>h_groups := h_groups h @ [name]\<rparr>)"

definition inner_Handle :: "attr list \<Rightarrow> JSONHandler \<Rightarrow> (string list \<times> attr) list" where
  "inner_Handle as h = h_bound h @ map (Pair (h_groups h)) as"

definition Enabled :: "JSONHandler \<Rightarrow> int \<Rightarrow> bool" where
  "Enabled h l \<longleftrightarrow> h_level h \<le> l"

definition redact :: "attr \<Rightarrow> attr" where
  "redact a = redactAttr (fst a) (snd a)"

definition Handle :: "attr list \<Rightarrow> JSONHandler \<Rightarrow> (string list \<times> attr) list" where
  "Handle as h = inner_Handle (map redact as) h"

definition WithAttrs :: "attr list \<Rightarrow> JSONHandler \<Rightarrow> JSONHandler" where
  "WithAttrs as h = inner_WithAttrs (map redact as) h"

definition WithGroup :: "string \<Rightarrow> JSONHandler \<Rightarrow> JSONHandler" where
  "WithGroup name h = inner_WithGroup name h"

definition NewLogger :: "string \<Rightarrow> JSONHandler" where
  "NewLogger level =
     (let l = ToLower level;
          lvl = (if l = ''debug'' then -4 else if l = ''warn'' then 4 else if l = ''error'' then 8 else 0)
      in WithAttrs [(''service'', LogPlain (JStr ''websocket-server''))] \<lparr>h_level = lvl, h_groups = [], h_bound = []\<rparr>)"

section \<open>Jobs in the log\<close>

definition log_str :: "string \<Rightarrow> string \<Rightarrow> attr" where
  "log_str k v = (k, LogPlain (JStr v))"

definition LogValue :: "JobData \<Rightarrow> slogval" where
  "LogValue j = LogGroup
     ([log_str ''jobId'' (jd_JobID j), log_str ''apiEndpoint'' (APIEndpoint j), log_str ''method'' (Method j),
       log_str ''executeAt'' (ExecuteAt j), (''headers'', LogGroup (map (\<lambda>(k, v). log_str k v) (Headers j)))]
      @ (if ValidUntil j \<noteq> [] then [log_str ''validUntil'' (ValidUntil j)] else [])
      @ (if Interval j \<noteq> 0 then [(''interval'', LogPlain (json_int (Interval j)))] else []))"

text \<open>A job passed to the logger: a \<^verbatim>\<open>slog.LogValuer\<close>.\<close>

definition job_attr :: "string \<Rightarrow> JobData \<Rightarrow> attr" where
  "job_attr key j = (key, LogValuer (LogValue j))"

section \<open>What reaches the output\<close>

text \<open>
  The plain values that a written attribute shows, each with the keys that lead to it: the handler
  resolves a value as \<^verbatim>\<open>redactAttr\<close> does and descends into groups. The path of a value starts with
  the groups that were open when its attribute was bound.
\<close>

function leaves :: "string list \<Rightarrow> slogval \<Rightarrow> (string list \<times> json) list" where
  "leaves path v =
     (case Resolve v of
        LogPlain j \<Rightarrow> [(path, j)]
      | LogGroup gs \<Rightarrow> concat (map (\<lambda>g. leaves (path @ [fst g]) (snd g)) gs)
      | LogValuer w \<Rightarrow> [])"
  by pat_completeness auto
termination leaves
  by (relation "measure (size \<circ> snd)") (auto dest: group_member_size)

declare leaves.simps [simp del]

definition shown :: "string list \<times> attr \<Rightarrow> (string list \<times> json) list" where
  "shown pa = leaves (fst pa @ [fst (snd pa)]) (snd (snd pa))"

definition written :: "(string list \<times> attr) list \<Rightarrow> (string list \<times> json) list" where
  "written ps = concat (map shown ps)"

definition redacted :: "string list \<times> json \<Rightarrow> string list \<times> json" where
  "redacted kj = (fst kj, JStr RedactedValue)"

text \<open>What the handler does: it looks at the last key of a path only.\<close>

definition censor :: "string list \<times> json \<Rightarrow> string list \<times> json" where
  "censor kj = (if sensitive (last (fst kj)) then redacted kj else kj)"

lemma resolve_plain [simp]: "Resolve (LogPlain j) = LogPlain j" "Resolve (LogGroup gs) = LogGroup gs"
  by (simp_all add: Resolve_def numeral_eq_Suc)

lemma redactAttr_key [simp]: "fst (redactAttr key v) = key"
  by (simp add: redactAttr.simps split: slogval.split)

lemma leaves_redactAttr: "leaves (path @ [key]) (snd (redactAttr key v)) = map censor (leaves (path @ [key]) v)"
proof (induction "size v" arbitrary: path key v rule: less_induct)
  case less
  show ?case
  proof (cases "Resolve v")
    case (LogGroup gs)
    then have "\<forall>g \<in> set gs. leaves ((path @ [key]) @ [fst g]) (snd (redactAttr (fst g) (snd g)))
        = map censor (leaves ((path @ [key]) @ [fst g]) (snd g))"
      using less group_member_size by blast
    with LogGroup show ?thesis
      by (simp add: redactAttr.simps [of key v] leaves.simps [of "path @ [key]" v]
        leaves.simps [of _ "LogGroup gs'" for gs'] map_concat comp_def cong: map_cong)
  qed (simp_all add: redactAttr.simps [of key v] leaves.simps [of "path @ [key]" v] censor_def redacted_def
      leaves.simps [of "path @ [key]" "LogPlain j" for j])
qed

lemma written_redact: "written (map (Pair p) (map redact as)) = map censor (written (map (Pair p) as))"
  by (simp add: written_def shown_def redact_def leaves_redactAttr map_concat comp_def)

text \<open>What is promised: a value is redacted when any key on its path names a secret.\<close>

definition scrub :: "string list \<times> json \<Rightarrow> string list \<times> json" where
  "scrub kj = (if \<exists>k \<in> set (fst kj). sensitive k then redacted kj else kj)"

text \<open>No group in the attribute, under the given open groups, is named after a secret.\<close>

definition harmless_groups :: "string list \<Rightarrow> attr \<Rightarrow> bool" where
  "harmless_groups p a \<longleftrightarrow> (\<forall>kj \<in> set (shown (p, a)). \<forall>k \<in> set (butlast (fst kj)). \<not> sensitive k)"

lemma censor_scrub:
  assumes "\<forall>a \<in> set as. harmless_groups p a"
  shows "map censor (written (map (Pair p) as)) = map scrub (written (map (Pair p) as))"
proof (rule map_cong [OF refl])
  fix kj assume "kj \<in> set (written (map (Pair p) as))"
  then obtain a where a: "a \<in> set as" "kj \<in> set (shown (p, a))" by (auto simp: written_def)
  have "fst x \<noteq> []" if "x \<in> set (leaves path v)" "path \<noteq> []" for x path v
    using that
  proof (induction path v arbitrary: x rule: leaves.induct)
    case (1 path v)
    show ?case
    proof (cases "Resolve v")
      case (LogGroup gs)
      with "1.prems" obtain g where g: "g \<in> set gs" "x \<in> set (leaves (path @ [fst g]) (snd g))"
        by (auto simp: leaves.simps [of path v])
      from "1.IH" [OF LogGroup g] show ?thesis by simp
    qed (use "1.prems" in \<open>auto simp: leaves.simps [of path v]\<close>)
  qed
  with a(2) have "fst kj \<noteq> []" by (simp add: shown_def)
  then have "set (fst kj) = insert (last (fst kj)) (set (butlast (fst kj)))"
    by (metis append_butlast_last_id list.simps(15) set_append Un_insert_right sup_bot_right empty_set)
  moreover have "\<forall>k \<in> set (butlast (fst kj)). \<not> sensitive k" using a assms by (auto simp: harmless_groups_def)
  ultimately show "censor kj = scrub kj" by (auto simp: censor_def scrub_def)
qed

text \<open>The handlers an application derives from the logger without naming a group after a secret.\<close>

inductive derived :: "string \<Rightarrow> JSONHandler \<Rightarrow> bool" for level where
  derived_New: "derived level (NewLogger level)"
| derived_With: "derived level h \<Longrightarrow> \<forall>a \<in> set as. harmless_groups (h_groups h) a \<Longrightarrow> derived level (WithAttrs as h)"
| derived_Group: "derived level h \<Longrightarrow> derived level (WithGroup name h)"

lemma written_WithAttrs:
  "written (h_bound (WithAttrs as h)) = written (h_bound h) @ map censor (written (map (Pair (h_groups h)) as))"
  by (simp add: WithAttrs_def inner_WithAttrs_def written_redact [symmetric]) (simp add: written_def)

lemma service_key: "\<not> sensitive ''service''"
  by code_simp

lemma bound_scrubbed: "derived level h \<Longrightarrow> map scrub (written (h_bound h)) = written (h_bound h)"
proof (induction rule: derived.induct)
  case derived_New
  show ?case
    by (simp add: NewLogger_def Let_def written_WithAttrs) (simp add: written_def shown_def leaves.simps censor_def scrub_def service_key)
next
  case (derived_With h as)
  then show ?case by (simp add: written_WithAttrs censor_scrub comp_def) (simp add: scrub_def redacted_def)
next
  case (derived_Group h name)
  then show ?case by (simp add: WithGroup_def inner_WithGroup_def)
qed

lemma derived_level: "derived level h \<Longrightarrow> h_level h = h_level (NewLogger level)"
  by (induction rule: derived.induct)
    (auto simp: NewLogger_def Let_def WithAttrs_def inner_WithAttrs_def WithGroup_def inner_WithGroup_def)

text \<open>
  Values of sensitive keys are redacted (C33). Let no group around a bound or logged attribute be named
  after a secret; the handler looks only at the key of a value itself. Then whatever is bound to
  the logger on the way, a record that it writes shows \<open>[REDACTED]\<close> for every value with a
  key on its path that ends in password, token, authorization or secret, in any case, however deeply groups
  and \<^verbatim>\<open>LogValuer\<close>s nest it; every other plain value of the record is written as it is, under
  the same keys and in the same order.
\<close>

theorem sensitive_values_redacted:
  assumes "derived level h" and "\<forall>a \<in> set as. harmless_groups (h_groups h) a"
  shows "written (Handle as h) = written (h_bound h) @ map scrub (written (map (Pair (h_groups h)) as))
    \<and> (\<forall>(path, j) \<in> set (written (Handle as h)). (\<exists>k \<in> set path. sensitive k) \<longrightarrow> j = JStr ''[REDACTED]'')"
proof -
  have w: "written (Handle as h) = written (h_bound h) @ map scrub (written (map (Pair (h_groups h)) as))"
    using censor_scrub [OF assms(2)]
    by (simp add: Handle_def inner_Handle_def written_redact [symmetric]) (simp add: written_def)
  have "map scrub (written (Handle as h)) = written (Handle as h)"
    unfolding w using bound_scrubbed [OF assms(1)] by (simp add: comp_def) (simp add: scrub_def redacted_def)
  then have "\<forall>kj \<in> set (written (Handle as h)). scrub kj = kj" by (metis map_eq_conv map_idI list.map_ident)
  then have "\<forall>(path, j) \<in> set (written (Handle as h)). (\<exists>k \<in> set path. sensitive k) \<longrightarrow> j = JStr RedactedValue"
    by (fastforce simp: scrub_def redacted_def split: if_splits)
  with w show ?thesis by (simp add: RedactedValue_def)
qed

definition header_job :: JobData where
  "header_job = \<lparr>jd_JobID = ''j1'', APIEndpoint = ''http://a'', Method = ''GET'',
     Headers = [(''X-Auth-Token'', ''t0p''), (''Accept'', ''*'')], Payload = None, RetryPolicy = None,
     ExecuteAt = ''now'', ValidUntil = [], Interval = 0\<rparr>"

lemma demo_keys:
  "\<not> sensitive ''jobId''" "\<not> sensitive ''apiEndpoint''" "\<not> sensitive ''method''" "\<not> sensitive ''req''" "\<not> sensitive ''job''"
  "\<not> sensitive ''executeAt''" "\<not> sensitive ''headers''" "sensitive ''X-Auth-Token''" "\<not> sensitive ''Accept''"
  by code_simp+

theorem sensitive_values_redacted_witness:
  "written (Handle [job_attr ''job'' header_job] (WithGroup ''req'' (NewLogger ''info''))) = [([''service''], JStr ''websocket-server''),
     ([''req'', ''job'', ''jobId''], JStr ''j1''), ([''req'', ''job'', ''apiEndpoint''], JStr ''http://a''),
     ([''req'', ''job'', ''method''], JStr ''GET''), ([''req'', ''job'', ''executeAt''], JStr ''now''),
     ([''req'', ''job'', ''headers'', ''X-Auth-Token''], JStr ''[REDACTED]''), ([''req'', ''job'', ''headers'', ''Accept''], JStr ''*'')]"
proof -
  let ?h = "WithGroup ''req'' (NewLogger ''info'')"
  have d: "derived ''info'' ?h" by (intro derived.intros)
  have g: "h_groups ?h = [''req'']"
    by (simp add: WithGroup_def inner_WithGroup_def NewLogger_def Let_def WithAttrs_def inner_WithAttrs_def)
  have b: "written (h_bound ?h) = [([''service''], JStr ''websocket-server'')]"
    by (simp add: WithGroup_def inner_WithGroup_def NewLogger_def Let_def written_WithAttrs)
      (simp add: written_def shown_def leaves.simps censor_def service_key)
  have sh: "shown ([''req''], job_attr ''job'' header_job) = [
     ([''req'', ''job'', ''jobId''], JStr ''j1''), ([''req'', ''job'', ''apiEndpoint''], JStr ''http://a''),
     ([''req'', ''job'', ''method''], JStr ''GET''), ([''req'', ''job'', ''executeAt''], JStr ''now''),
     ([''req'', ''job'', ''headers'', ''X-Auth-Token''], JStr ''t0p''), ([''req'', ''job'', ''headers'', ''Accept''], JStr ''*'')]"
    by (simp add: job_attr_def shown_def leaves.simps Resolve_def numeral_eq_Suc LogValue_def header_job_def log_str_def)
  have "\<forall>a \<in> set [job_attr ''job'' header_job]. harmless_groups (h_groups ?h) a"
    by (simp add: g harmless_groups_def sh demo_keys)
  from sensitive_values_redacted [OF d this] have "written (Handle [job_attr ''job'' header_job] ?h)
      = written (h_bound ?h) @ map scrub (shown ([''req''], job_attr ''job'' header_job))"
    by (simp add: g written_def)
  then show ?thesis unfolding b sh by (simp add: scrub_def redacted_def demo_keys RedactedValue_def)
qed

text \<open>
  The key of a group is not looked at: the members of a group are redacted by their own keys only,
  so a group named after a secret is written out.
\<close>

lemma sensitive_group_written:
  "redactAttr key (LogGroup [(k, LogPlain j)]) = (key, LogGroup [(k, LogPlain (if sensitive k then JStr RedactedValue else j))])"
  by (simp add: redactAttr.simps)

end
