(* ===== verification/RedisHook.thy ===== *)
theory RedisHook
  imports Redis
begin

text \<open>
  The instrumentation of the Redis client: \<^verbatim>\<open>metrics/redishook.go\<close>. A hook wraps the execution of a
  command, or of a pipeline of commands; the state of the wrapped execution carries the two
  collectors, as the labels they were observed with.
\<close>

record hook_metrics =
  RedisDuration :: "string list"
  RedisErrors :: "string list"

definition observe :: "string \<Rightarrow> goerr option \<Rightarrow> hook_metrics \<Rightarrow> hook_metrics" where
  "observe name err m =
     (let m1 = m\<lparr>RedisDuration := RedisDuration m @ [name]\<rparr> in
      case err of
        None \<Rightarrow> m1
      | Some e \<Rightarrow> if errors_Is e RedisNil then m1 else m1\<lparr>RedisErrors := RedisErrors m1 @ [name]\<rparr>)"

definition err_of :: "'a result \<Rightarrow> goerr option" where
  "err_of r = (case r of Inl e \<Rightarrow> Some e | Inr _ \<Rightarrow> None)"

definition ProcessHook :: "('s, 'a) cmd \<Rightarrow> string \<Rightarrow> ('s \<times> hook_metrics, 'a) cmd" where
  "ProcessHook run name sm =
     (case run (fst sm) of (r, s1) \<Rightarrow> (r, s1, observe name (err_of r) (snd sm)))"

text \<open>A pipeline sets an error of its own on every command, beside the error of the call.\<close>

definition ProcessPipelineHook ::
  "('s \<Rightarrow> (goerr option \<times> goerr option list) \<times> 's) \<Rightarrow> string list \<Rightarrow> 's \<times> hook_metrics
    \<Rightarrow> (goerr option \<times> goerr option list) \<times> 's \<times> hook_metrics" where
  "ProcessPipelineHook run names sm =
     (case run (fst sm) of
        ((err, errs), s1) \<Rightarrow> ((err, errs), s1, fold (\<lambda>(n, e). observe n e) (zip names errs) (snd sm)))"

lemma observe_counts:
  "RedisDuration (observe n e m) = RedisDuration m @ [n]"
  "RedisErrors (observe n e m) = RedisErrors m @ (if (\<exists>x. e = Some x \<and> \<not> errors_Is x RedisNil) then [n] else [])"
  by (auto simp: observe_def Let_def split: option.splits)

lemma fold_observe:
  "RedisDuration (fold (\<lambda>(n, e). observe n e) ps m) = RedisDuration m @ map fst ps"
  "RedisErrors (fold (\<lambda>(n, e). observe n e) ps m)
     = RedisErrors m @ map fst (filter (\<lambda>p. \<exists>x. snd p = Some x \<and> \<not> errors_Is x RedisNil) ps)"
  by (induction ps arbitrary: m) (auto simp: observe_counts)

text \<open>
  The hook is transparent: command and pipeline return what they return without it, on the same
  state. It times every command once, and counts an error for exactly the commands that failed
  with something other than a miss.
\<close>

theorem redis_hook_transparent:
  "(case run s of (r, s1) \<Rightarrow> \<exists>m1. ProcessHook run name (s, m) = (r, s1, m1)
      \<and> RedisDuration m1 = RedisDuration m @ [name]
      \<and> RedisErrors m1 = RedisErrors m @ (case r of Inl e \<Rightarrow> if errors_Is e RedisNil then [] else [name] | Inr _ \<Rightarrow> []))
   \<and> (case pipe s of ((err, errs), s1) \<Rightarrow> \<exists>m1. ProcessPipelineHook pipe names (s, m) = ((err, errs), s1, m1)
      \<and> RedisDuration m1 = RedisDuration m @ map fst (zip names errs)
      \<and> RedisErrors m1 = RedisErrors m
          @ map fst (filter (\<lambda>p. \<exists>x. snd p = Some x \<and> \<not> errors_Is x RedisNil) (zip names errs)))"
  by (auto simp: ProcessHook_def ProcessPipelineHook_def observe_counts err_of_def fold_observe split: prod.splits sum.splits)

end
