(* ===== verification/Outbound.thy ===== *)
theory Outbound
  imports Protocol
begin

text \<open>
  The outbound side of \<^verbatim>\<open>protocol/protocol.go\<close> as a client sees it: the frame types and the frames as one
  datatype, with its rendering by the encoders of the protocol. The theorem shows that a client
  that decodes the fields by name, as \<^verbatim>\<open>encoding/json\<close> does, gets back the frame that was sent.
\<close>

section \<open>Frame types\<close>

definition OutSuccess :: string where "OutSuccess = ''success''"
definition OutError :: string where "OutError = ''error''"
definition OutPublishDelivery :: string where "OutPublishDelivery = ''publish''"
definition OutReplayTruncated :: string where "OutReplayTruncated = ''replayTruncated''"
definition OutBroadcastMsg :: string where "OutBroadcastMsg = ''message''"
definition OutPresence :: string where "OutPresence = ''presence''"
definition OutSubscriptions :: string where "OutSubscriptions = ''subscriptions''"
definition OutDeliveryReport :: string where "OutDeliveryReport = ''deliveryReport''"

lemmas Out_defs = OutSuccess_def OutError_def OutPublishDelivery_def OutReplayTruncated_def OutBroadcastMsg_def
  OutPresence_def OutSubscriptions_def OutDeliveryReport_def

section \<open>Frames\<close>

text \<open>The frame structs with their fields; the type is the constructor.\<close>

datatype outbound =
    FSuccess (f_reqID: string) (f_message: string)
  | FError (f_reqID: string) (f_message: string)
  | FPublish (f_topic: string) (f_data: json) (f_streamID: string) (f_replay: bool)
  | FReplayTruncated (f_topic: string) (f_oldest: string)
  | FBroadcast (f_data: json)
  | FPresence (f_reqID: string) (f_topic: string) (f_subscribers: "string list") (f_count: int)
  | FSubscriptions (f_reqID: string) (f_topics: "string list")
  | FDeliveryReport (f_topic: string) (f_streamID: string) (f_instance: string) (f_delivered: int) (f_dropped: int) (f_filtered: int)

fun encode_out :: "outbound \<Rightarrow> json" where
  "encode_out (FSuccess r m) = EncodeSuccess r m"
| "encode_out (FError r m) = EncodeError r m"
| "encode_out (FPublish t d sid rp) = EncodePublish t (Some d) sid rp"
| "encode_out (FReplayTruncated t old) = EncodeReplayTruncated t old"
| "encode_out (FBroadcast d) = EncodeBroadcast (Some d)"
| "encode_out (FPresence r t subs n) = EncodePresence r t subs"
| "encode_out (FSubscriptions r ts) = EncodeSubscriptions r ts"
| "encode_out (FDeliveryReport t sid inst de dr fi) = EncodeDeliveryReport t sid inst de dr fi"

section \<open>A client\<close>

definition str_field :: "(string \<times> json) list \<Rightarrow> string \<Rightarrow> string" where
  "str_field kvs k = (case dec_string (matching k kvs) [] of None \<Rightarrow> [] | Some s \<Rightarrow> s)"

definition int_field :: "(string \<times> json) list \<Rightarrow> string \<Rightarrow> int" where
  "int_field kvs k = (case dec_int (matching k kvs) 0 of None \<Rightarrow> 0 | Some n \<Rightarrow> n)"

definition list_field :: "(string \<times> json) list \<Rightarrow> string \<Rightarrow> string list" where
  "list_field kvs k = (case dec_strings (matching k kvs) None of Some (Some xs) \<Rightarrow> xs | _ \<Rightarrow> [])"

definition raw_field :: "(string \<times> json) list \<Rightarrow> string \<Rightarrow> json" where
  "raw_field kvs k = (case dec_raw (matching k kvs) of None \<Rightarrow> JNull | Some j \<Rightarrow> j)"

definition decode_out :: "json \<Rightarrow> outbound option" where
  "decode_out j =
     (case j of
        JObj kvs \<Rightarrow>
          let s = str_field kvs; ty = s ''type'' in
          if ty = OutSuccess then Some (FSuccess (s ''reqID'') (s ''message''))
          else if ty = OutError then Some (FError (s ''reqID'') (s ''message''))
          else if ty = OutPublishDelivery then
            Some (FPublish (s ''topic'') (raw_field kvs ''data'') (s ''streamId'') (dec_bool (matching ''replay'' kvs) False = Some True))
          else if ty = OutReplayTruncated then Some (FReplayTruncated (s ''topic'') (s ''oldestAvailable''))
          else if ty = OutBroadcastMsg then Some (FBroadcast (raw_field kvs ''data''))
          else if ty = OutPresence then 
            Some (FPresence (s ''reqID'') (s ''topic'') (list_field kvs ''subscribers'') (int_field kvs ''count''))
          else if ty = OutSubscriptions then Some (FSubscriptions (s ''reqID'') (list_field kvs ''topics''))
          else if ty = OutDeliveryReport then
            Some (FDeliveryReport (s ''topic'') (s ''streamId'') (s ''instance'') (int_field kvs ''delivered'')
              (int_field kvs ''dropped'') (int_field kvs ''filtered''))
          else None
      | _ \<Rightarrow> None)"

definition count_ok :: "int \<Rightarrow> bool" where
  "count_ok n \<longleftrightarrow> 0 \<le> n \<and> n \<le> max_int64"

fun counts_ok :: "outbound \<Rightarrow> bool" where
  "counts_ok (FDeliveryReport t sid inst de dr fi) \<longleftrightarrow> count_ok de \<and> count_ok dr \<and> count_ok fi"
| "counts_ok (FPresence r t subs n) \<longleftrightarrow> n = int (length subs) \<and> count_ok n"
| "counts_ok f \<longleftrightarrow> True"

lemmas field_defs = str_field_def int_field_def list_field_def raw_field_def

lemma dec_count: "count_ok n \<Longrightarrow> dec_int [json_int n] 0 = Some n"
  unfolding count_ok_def by (intro dec_int_json) simp_all

lemma dec_strs: "dec_strings [json_strings (Some xs)] None = Some (Some xs)"
  by (rule dec_strings_json)

text \<open>
  A client reads back what the server sent (C37). The type of a frame tells the eight kinds apart, and
  every field of a frame, optional ones and lists included, is recovered from its JSON by name:
  different frames never look the same on the wire.
\<close>

theorem outbound_roundtrip:
  assumes "counts_ok f"
  shows "decode_out (encode_out f) = Some f"
proof (cases f)
  case (FDeliveryReport t sid inst de dr fi)
  with assms have "dec_int [json_int de] 0 = Some de" "dec_int [json_int dr] 0 = Some dr" "dec_int [json_int fi] 0 = Some fi"
    by (simp_all only: counts_ok.simps dec_count)
  then show ?thesis
    unfolding FDeliveryReport by (simp del: dec_int.simps(2) add: decode_out_def EncodeDeliveryReport_def field_defs Out_defs ToLower_def lower_char_def Let_def)
next
  case (FPresence r t subs n)
  with assms have n: "n = int (length subs)" "count_ok (int (length subs))" by auto
  from n(1) dec_count [OF n(2)] show ?thesis
    unfolding FPresence by (auto simp del: dec_int.simps(2) simp: decode_out_def EncodePresence_def field_defs field_unless_def Out_defs
        ToLower_def lower_char_def json_strings_def Let_def)
qed (auto simp: decode_out_def EncodeSuccess_def EncodeError_def EncodePublish_def EncodeReplayTruncated_def EncodeBroadcast_def
  EncodeSubscriptions_def field_defs field_unless_def Out_defs ToLower_def lower_char_def dec_raw_def marshal_raw_def
  json_strings_def Let_def)

theorem outbound_roundtrip_witness:
  "decode_out (encode_out (FDeliveryReport ''t'' ''1-0'' ''i1'' 2 1 0)) = Some (FDeliveryReport ''t'' ''1-0'' ''i1'' 2 1 0)"
  by (rule outbound_roundtrip) (simp add: count_ok_def max_int64_def)

end
