(* ===== verification/Metrics.thy ===== *)
theory Metrics
  imports Prelude
begin

text \<open>
  The collectors of \<^verbatim>\<open>metrics/metrics.go\<close> and their registration. The Prometheus library is the
  parameter \<open>prom\<close>: its registry \<open>'r\<close> and \<^verbatim>\<open>Register\<close>, with the names a registry holds as the view of
  its documentation. The theorem shows that \<^verbatim>\<open>New\<close> does not panic, on a registry of its own, and which
  labels the exported series can have.
\<close>

section \<open>Collectors\<close>

text \<open>\<^verbatim>\<open>prometheus.ExponentialBuckets(start, factor, count)\<close>, with \<open>start\<close> in units of \<open>10 ^ -5\<close>.\<close>

datatype buckets = ExponentialBuckets nat nat nat

datatype metric_kind =
    Gauge
  | Counter
  | CounterVec "string list"
  | Histogram buckets
  | HistogramVec buckets "string list"
  | External "string list"

record collector =
  co_Name :: string
  co_Help :: string
  co_Kind :: metric_kind

fun labels_of :: "metric_kind \<Rightarrow> string list" where
  "labels_of (CounterVec ls) = ls"
| "labels_of (HistogramVec b ls) = ls"
| "labels_of k = []"

text \<open>The names a collector describes; the collectors of the library describe several.\<close>

definition co_names :: "collector \<Rightarrow> string list" where
  "co_names c = (case co_Kind c of External ns \<Rightarrow> ns | _ \<Rightarrow> [co_Name c])"

record 'r prom =
  prom_NewRegistry :: 'r
  prom_Register :: "collector \<Rightarrow> 'r \<Rightarrow> goerr option \<times> 'r"

definition MustRegister :: "'r prom \<Rightarrow> collector \<Rightarrow> 'r \<Rightarrow> 'r result" where
  "MustRegister P c r = (case prom_Register P c r of (Some e, r1) \<Rightarrow> Inl (Panic (Error e)) | (None, r1) \<Rightarrow> Inr r1)"

text \<open>The collectors the methods of \<^verbatim>\<open>factory\<close> build; each method then registers its collector and returns it.\<close>

definition factory_gauge :: "string \<Rightarrow> string \<Rightarrow> collector" where
  "factory_gauge name help = \<lparr>co_Name = name, co_Help = help, co_Kind = Gauge\<rparr>"

definition factory_counter :: "string \<Rightarrow> string \<Rightarrow> collector" where
  "factory_counter name help = \<lparr>co_Name = name, co_Help = help, co_Kind = Counter\<rparr>"

definition factory_counterVec :: "string \<Rightarrow> string \<Rightarrow> string list \<Rightarrow> collector" where
  "factory_counterVec name help labels = \<lparr>co_Name = name, co_Help = help, co_Kind = CounterVec labels\<rparr>"

definition factory_histogram :: "string \<Rightarrow> string \<Rightarrow> buckets \<Rightarrow> collector" where
  "factory_histogram name help b = \<lparr>co_Name = name, co_Help = help, co_Kind = Histogram b\<rparr>"

definition factory_histogramVec :: "string \<Rightarrow> string \<Rightarrow> buckets \<Rightarrow> string list \<Rightarrow> collector" where
  "factory_histogramVec name help b labels = \<lparr>co_Name = name, co_Help = help, co_Kind = HistogramVec b labels\<rparr>"

fun run_factory :: "'r prom \<Rightarrow> collector list \<Rightarrow> 'r \<Rightarrow> (collector list \<times> 'r) result" where
  "run_factory P [] r = Inr ([], r)"
| "run_factory P (c # cs) r =
     (case MustRegister P c r of
        Inl e \<Rightarrow> Inl e
      | Inr r1 \<Rightarrow> (case run_factory P cs r1 of Inl e \<Rightarrow> Inl e | Inr (cs', r2) \<Rightarrow> Inr (c # cs', r2)))"

section \<open>New\<close>

text \<open>The fields of \<^verbatim>\<open>Metrics\<close> in the order in which they are built.\<close>

definition connection_collectors :: "collector list" where
  "connection_collectors =
    [factory_gauge ''ws_connections_active'' ''Websocket connections currently open on this instance.'',
     factory_counterVec ''ws_connections_total'' ''Upgrade attempts by outcome.'' [''result''],
     factory_counterVec ''ws_connections_closed_total'' ''Closed connections by reason.'' [''reason''],
     factory_histogram ''ws_connection_duration_seconds'' ''How long connections stayed open.'' (ExponentialBuckets 100000 4 9),
     factory_counterVec ''ws_frames_received_total'' ''Inbound frames by protocol message type.'' [''type''],
     factory_counter ''ws_frames_sent_total'' ''Frames handed to a connection's writer.'',
     factory_counterVec ''ws_frames_dropped_total'' ''Frames dropped rather than queued, by reason.'' [''reason'']]"

definition bus_collectors :: "collector list" where
  "bus_collectors =
    [factory_counter ''bus_publish_total'' ''Messages appended to a topic stream and announced.'',
     factory_histogram ''bus_fanout_subscribers'' ''Local subscribers delivered to per published message.'' (ExponentialBuckets 100000 4 8),
     factory_histogram ''bus_fanout_duration_seconds'' ''Time to decide and enqueue one message's fan-out.'' (ExponentialBuckets 1 4 9),
     factory_counter ''bus_fanout_buffered_total'' ''Messages buffered because a subscriber was mid-replay.'',
     factory_counter ''bus_fanout_filtered_total'' ''Local subscribers skipped because a Judge excluded them.'',
     factory_histogram ''bus_judge_duration_seconds'' ''Time spent in one Judge call on the publish path.'' (ExponentialBuckets 100 4 9),
     factory_counterVec ''bus_judge_calls_total'' ''Judge calls by outcome.'' [''outcome''],
     factory_gauge ''bus_local_subscriptions'' ''Topic subscriptions held by this instance.'',
     factory_counter ''bus_replay_messages_total'' ''Historical messages sent to replaying subscribers.'',
     factory_histogram ''bus_replay_duration_seconds'' ''Time to drain a subscriber's replay backlog.'' (ExponentialBuckets 100 4 8),
     factory_counter ''bus_replay_truncated_total'' ''Replays that began after the oldest retained entry.'']"

definition service_collectors :: "collector list" where
  "service_collectors =
    [factory_histogramVec ''redis_command_duration_seconds'' ''Redis command latency.'' (ExponentialBuckets 10 4 9) [''command''],
     factory_counterVec ''redis_command_errors_total'' ''Redis commands returning an error (redis.Nil excluded).'' [''command''],
     factory_counterVec ''ratelimit_decisions_total'' ''Rate-limit checks by bucket and outcome.'' [''bucket'', ''decision''],
     factory_counterVec ''authz_decisions_total'' ''Per-topic authorization checks by action and outcome.'' [''action'', ''decision''],
     factory_counterVec ''scheduler_jobs_executed_total'' ''Scheduled jobs run by outcome.'' [''result''],
     factory_histogram ''scheduler_job_duration_seconds'' ''Outbound scheduled request duration.'' (ExponentialBuckets 100 4 8),
     factory_gauge ''scheduler_queue_depth'' ''Jobs currently in the scheduler sorted set.'',
     factory_counter ''scheduler_claim_lost_total'' ''Due jobs another instance claimed first.'']"

definition own_collectors :: "collector list" where
  "own_collectors = connection_collectors @ bus_collectors @ service_collectors"

text \<open>\<open>goc\<close> and \<open>proc\<close> are the collectors of the library for the runtime and the process.\<close>

definition metrics_New :: "'r prom \<Rightarrow> collector \<Rightarrow> collector \<Rightarrow> (collector list \<times> 'r) result" where
  "metrics_New P goc proc =
     (case run_factory P own_collectors (prom_NewRegistry P) of
        Inl e \<Rightarrow> Inl e
      | Inr (cs, r1) \<Rightarrow>
          (case MustRegister P goc r1 of
             Inl e \<Rightarrow> Inl e
           | Inr r2 \<Rightarrow> (case MustRegister P proc r2 of Inl e \<Rightarrow> Inl e | Inr r3 \<Rightarrow> Inr (cs, r3))))"

section \<open>What the library documents\<close>

definition name_char :: "char \<Rightarrow> bool" where
  "name_char c \<longleftrightarrow> (let n = of_char c :: nat in (97 \<le> n \<and> n \<le> 122) \<or> (65 \<le> n \<and> n \<le> 90) \<or> n = 95)"

text \<open>A metric name, and a label name, which must not be reserved.\<close>

definition valid_name :: "string \<Rightarrow> bool" where
  "valid_name s \<longleftrightarrow> s \<noteq> [] \<and> (name_char (hd s) \<or> hd s = CHR '':'') \<and> list_all (\<lambda>c. name_char c \<or> is_digit c \<or> c = CHR '':'') s"

definition valid_label :: "string \<Rightarrow> bool" where
  "valid_label s \<longleftrightarrow> s \<noteq> [] \<and> name_char (hd s) \<and> list_all (\<lambda>c. name_char c \<or> is_digit c) s \<and> \<not> HasPrefix s ''__'' \<and> s \<noteq> ''le''"

definition valid_buckets :: "metric_kind \<Rightarrow> bool" where
  "valid_buckets k = (case k of
     Histogram (ExponentialBuckets st fa n) \<Rightarrow> 0 < st \<and> 1 < fa \<and> 1 \<le> n
   | HistogramVec (ExponentialBuckets st fa n) ls \<Rightarrow> 0 < st \<and> 1 < fa \<and> 1 \<le> n
   | _ \<Rightarrow> True)"

definition valid_collector :: "collector \<Rightarrow> bool" where
  "valid_collector c \<longleftrightarrow> list_all valid_name (co_names c) \<and> distinct (co_names c) \<and> list_all valid_label (labels_of (co_Kind c))
     \<and> distinct (labels_of (co_Kind c)) \<and> valid_buckets (co_Kind c)"

text \<open>A new registry is empty; a valid collector with new names is registered, one with a name in use is refused.\<close>

definition doc_prom :: "'r prom \<Rightarrow> ('r \<Rightarrow> string set) \<Rightarrow> bool" where
  "doc_prom P names \<longleftrightarrow> names (prom_NewRegistry P) = {}
     \<and> (\<forall>c r. valid_collector c \<and> set (co_names c) \<inter> names r = {} \<longrightarrow>
          fst (prom_Register P c r) = None \<and> names (snd (prom_Register P c r)) = names r \<union> set (co_names c))
     \<and> (\<forall>c r. set (co_names c) \<inter> names r \<noteq> {} \<longrightarrow> fst (prom_Register P c r) \<noteq> None)"

lemma MustRegister_ok:
  assumes "doc_prom P names" "valid_collector c" "set (co_names c) \<inter> names r = {}"
  shows "\<exists>r'. MustRegister P c r = Inr r' \<and> names r' = names r \<union> set (co_names c)"
proof -
  from assms have "fst (prom_Register P c r) = None" "names (snd (prom_Register P c r)) = names r \<union> set (co_names c)"
    unfolding doc_prom_def by blast+
  then show ?thesis by (cases "prom_Register P c r") (simp add: MustRegister_def)
qed

lemma run_factory_ok:
  assumes doc: "doc_prom P names" and "list_all valid_collector cs" and "distinct (concat (map co_names cs))"
    and "set (concat (map co_names cs)) \<inter> names r = {}"
  shows "\<exists>r'. run_factory P cs r = Inr (cs, r') \<and> names r' = names r \<union> set (concat (map co_names cs))"
  using assms(2-4)
proof (induction cs arbitrary: r)
  case Nil
  then show ?case by simp
next
  case (Cons c cs)
  have "set (co_names c) \<inter> names r = {}" using Cons.prems(3) by auto
  from MustRegister_ok [OF doc _ this] Cons.prems(1) obtain r1
    where r1: "MustRegister P c r = Inr r1" "names r1 = names r \<union> set (co_names c)" by auto
  have "set (concat (map co_names cs)) \<inter> names r1 = {}" using Cons.prems(2,3) r1(2) by auto
  with Cons.IH [of r1] Cons.prems obtain r2
    where "run_factory P cs r1 = Inr (cs, r2)" "names r2 = names r1 \<union> set (concat (map co_names cs))" by auto
  with r1 show ?case by auto
qed

lemmas collector_defs = own_collectors_def connection_collectors_def bus_collectors_def service_collectors_def
  factory_gauge_def factory_counter_def factory_counterVec_def factory_histogram_def factory_histogramVec_def

lemma own_names: "concat (map co_names own_collectors) =
  [''ws_connections_active'', ''ws_connections_total'', ''ws_connections_closed_total'', ''ws_connection_duration_seconds'',
   ''ws_frames_received_total'', ''ws_frames_sent_total'', ''ws_frames_dropped_total'', ''bus_publish_total'', ''bus_fanout_subscribers'',
   ''bus_fanout_duration_seconds'', ''bus_fanout_buffered_total'', ''bus_fanout_filtered_total'', ''bus_judge_duration_seconds'',
   ''bus_judge_calls_total'', ''bus_local_subscriptions'', ''bus_replay_messages_total'', ''bus_replay_duration_seconds'',
   ''bus_replay_truncated_total'', ''redis_command_duration_seconds'', ''redis_command_errors_total'', ''ratelimit_decisions_total'',
   ''authz_decisions_total'', ''scheduler_jobs_executed_total'', ''scheduler_job_duration_seconds'', ''scheduler_queue_depth'',
   ''scheduler_claim_lost_total'']"
  by (simp add: collector_defs co_names_def)

lemma own_distinct: "distinct (concat (map co_names own_collectors))"
  unfolding own_names by simp

lemma own_labels: "list_all (\<lambda>c. set (labels_of (co_Kind c)) \<subseteq>
    {''result'', ''reason'', ''type'', ''outcome'', ''command'', ''bucket'', ''decision'', ''action''}) own_collectors"
  by (simp add: collector_defs)

lemma name_char_letters [simp]:
  "name_char (CHR ''a'')" "name_char (CHR ''b'')" "name_char (CHR ''c'')" "name_char (CHR ''d'')" "name_char (CHR ''e'')" "name_char (CHR ''f'')" "name_char (CHR ''g'')" "name_char (CHR ''h'')"
  "name_char (CHR ''i'')" "name_char (CHR ''j'')" "name_char (CHR ''k'')" "name_char (CHR ''l'')" "name_char (CHR ''m'')" "name_char (CHR ''n'')" "name_char (CHR ''o'')" "name_char (CHR ''p'')"
  "name_char (CHR ''q'')" "name_char (CHR ''r'')" "name_char (CHR ''s'')" "name_char (CHR ''t'')" "name_char (CHR ''u'')" "name_char (CHR ''v'')" "name_char (CHR ''w'')" "name_char (CHR ''x'')"
  "name_char (CHR ''y'')" "name_char (CHR ''z'')" "name_char (CHR ''_'')"
  by (simp_all add: name_char_def)

lemma own_valid: "list_all valid_collector own_collectors"
  by (simp add: collector_defs valid_collector_def co_names_def valid_name_def valid_label_def valid_buckets_def HasPrefix_def)

text \<open>
  The collectors register. With the registry of the library as documented, \<^verbatim>\<open>New\<close> panics on no
  name, label or bucket: it returns all its collectors, and the registry, which is its own, holds
  exactly their names and those of the runtime and process collectors. No series is labelled by a
  topic, a user or another value a client chooses: the labels are a closed set of eight.
\<close>

theorem metrics_New_registers:
  assumes doc: "doc_prom P names" and ext: "valid_collector goc" "valid_collector proc"
    and pre: "\<forall>n \<in> set (co_names goc). HasPrefix n ''go_''" "\<forall>n \<in> set (co_names proc). HasPrefix n ''process_''"
  shows "\<exists>r. metrics_New P goc proc = Inr (own_collectors, r)
    \<and> names r = set (map co_Name own_collectors) \<union> set (co_names goc) \<union> set (co_names proc)
    \<and> (\<forall>c \<in> set own_collectors. set (labels_of (co_Kind c)) \<subseteq>
        {''result'', ''reason'', ''type'', ''outcome'', ''command'', ''bucket'', ''decision'', ''action''})"
proof -
  have empty: "names (prom_NewRegistry P) = {}" using doc by (simp add: doc_prom_def)
  obtain r1 where r1: "run_factory P own_collectors (prom_NewRegistry P) = Inr (own_collectors, r1)"
    "names r1 = set (concat (map co_names own_collectors))"
    using run_factory_ok [OF doc own_valid own_distinct, of "prom_NewRegistry P"] empty by auto
  have no: "\<not> HasPrefix n ''go_'' \<and> \<not> HasPrefix n ''process_''" if "n \<in> set (concat (map co_names own_collectors))" for n
    using that unfolding own_names by (auto simp: HasPrefix_def)
  then have "set (co_names goc) \<inter> names r1 = {}" using pre(1) r1(2) by blast
  from MustRegister_ok [OF doc ext(1) this] obtain r2 where r2: "MustRegister P goc r1 = Inr r2" "names r2 = names r1 \<union> set (co_names goc)" by blast
  have "\<not> (HasPrefix n ''go_'' \<and> HasPrefix n ''process_'')" for n by (auto simp: HasPrefix_iff)
  then have "set (co_names proc) \<inter> names r2 = {}" using pre r1(2) r2(2) no by blast
  from MustRegister_ok [OF doc ext(2) this] obtain r3 where r3: "MustRegister P proc r2 = Inr r3" "names r3 = names r2 \<union> set (co_names proc)" by blast
  have "set (map co_Name own_collectors) = set (concat (map co_names own_collectors))"
    unfolding own_names by (simp add: collector_defs)
  moreover have "metrics_New P goc proc = Inr (own_collectors, r3)" using r1 r2 r3 by (simp add: metrics_New_def)
  ultimately show ?thesis using r1(2) r2(2) r3(2) own_labels by (intro exI [of _ r3] conjI) (simp_all add: list_all_iff)
qed

definition list_registry :: "string list prom" where
  "list_registry = \<lparr>prom_NewRegistry = [],
     prom_Register = (\<lambda>c r. if valid_collector c \<and> set (co_names c) \<inter> set r = {} then (None, r @ co_names c)
       else (Some (Err ''duplicate metrics collector registration attempted''), r))\<rparr>"

lemma list_registry_doc: "doc_prom list_registry set"
  by (auto simp: doc_prom_def list_registry_def)

definition demo_go :: collector where
  "demo_go = \<lparr>co_Name = [], co_Help = [], co_Kind = External [''go_goroutines'']\<rparr>"

definition demo_process :: collector where
  "demo_process = \<lparr>co_Name = [], co_Help = [], co_Kind = External [''process_open_fds'']\<rparr>"

theorem metrics_New_registers_witness:
  "\<exists>r. metrics_New list_registry demo_go demo_process = Inr (own_collectors, r) \<and> ''go_goroutines'' \<in> set r"
proof -
  have "valid_collector demo_go" "valid_collector demo_process"
    by (simp_all add: demo_go_def demo_process_def valid_collector_def co_names_def valid_name_def valid_buckets_def)
  moreover have "co_names demo_go = [''go_goroutines'']" "co_names demo_process = [''process_open_fds'']"
    by (simp_all add: demo_go_def demo_process_def co_names_def)
  ultimately show ?thesis
    using metrics_New_registers [OF list_registry_doc, of demo_go demo_process] by (auto simp: HasPrefix_def)
qed

end
