(* ===== verification/Floats.thy ===== *)
theory Floats
  imports Prelude "HOL-Library.Log_Nat"
begin

text \<open>
  What the load tools use of \<^verbatim>\<open>float64\<close>: the conversion of an integer, the product of a constant of
  at most one with an integer, its truncation, and \<^verbatim>\<open>%.2f\<close>. A rounded result has 53 significant bits, is
  the nearest to the exact one, and the even one of two that are as near. All values are
  non-negative and far from the bounds of the exponent.
\<close>

section \<open>Rounding\<close>

text \<open>\<open>a / m\<close> rounded to an integer, half to even.\<close>

definition half_even :: "nat \<Rightarrow> nat \<Rightarrow> nat" where
  "half_even a m =
     (let q = a div m; r = a mod m in
      if 2 * r < m then q else if m < 2 * r then q + 1 else if even q then q else q + 1)"

lemma half_even_le:
  assumes "0 < m" and "a \<le> k * m"
  shows "half_even a m \<le> k"
proof -
  have a: "a = a div m * m + a mod m" by simp
  show ?thesis
  proof (cases "a mod m = 0")
    case True
    with assms have "a div m \<le> k" by (metis div_le_mono nonzero_mult_div_cancel_right less_not_refl)
    with True assms(1) show ?thesis by (simp add: half_even_def)
  next
    case False
    with assms a have "a div m * m < k * m" by linarith
    then have "a div m < k" by simp
    then show ?thesis by (simp add: half_even_def Let_def)
  qed
qed

lemma half_even_exact: "0 < m \<Longrightarrow> half_even (k * m) m = k"
  by (simp add: half_even_def)

lemma half_even_ge: "0 < m \<Longrightarrow> k * m \<le> a \<Longrightarrow> k \<le> half_even a m"
  using div_le_mono [of "k * m" a m] by (simp add: half_even_def Let_def)

lemma half_even_mono:
  assumes "0 < m" and "a \<le> b"
  shows "half_even a m \<le> half_even b m"
proof (cases "a div m = b div m")
  case True
  then have "a mod m \<le> b mod m" using assms(2) by (metis add_le_cancel_left div_mult_mod_eq)
  then show ?thesis unfolding half_even_def True Let_def by auto
next
  case False
  with assms have lt: "a div m < b div m" using div_le_mono [OF assms(2), of m] by simp
  have "half_even a m \<le> a div m + 1" by (simp add: half_even_def Let_def)
  also have "\<dots> \<le> half_even b m" using lt by (simp add: half_even_def Let_def)
  finally show ?thesis .
qed

text \<open>The number of low bits that do not fit, and the nearest number with 53 bits.\<close>

definition excess :: "nat \<Rightarrow> nat" where
  "excess a = floorlog 2 a - 53"

definition round53 :: "nat \<Rightarrow> nat" where
  "round53 a = half_even a (2 ^ excess a) * 2 ^ excess a"

lemma round53_exact: "a < 2 ^ 53 \<Longrightarrow> round53 a = a"
proof -
  assume "a < 2 ^ 53"
  then have "floorlog 2 a \<le> 53" by (simp add: floorlog_le_iff)
  then show ?thesis by (simp add: round53_def excess_def half_even_def)
qed

lemma excess_mono: "a \<le> b \<Longrightarrow> excess a \<le> excess b"
  by (simp add: excess_def diff_le_mono floorlog_mono)

text \<open>No representable number is crossed by rounding.\<close>

lemma round53_le:
  assumes "a \<le> k * 2 ^ s" and "excess a \<le> s"
  shows "round53 a \<le> k * 2 ^ s"
proof -
  let ?d = "excess a"
  have p: "(2::nat) ^ s = 2 ^ (s - ?d) * 2 ^ ?d" using assms(2) by (simp flip: power_add)
  with assms(1) have "a \<le> (k * 2 ^ (s - ?d)) * 2 ^ ?d" by (simp add: mult.assoc)
  then have "half_even a (2 ^ ?d) \<le> k * 2 ^ (s - ?d)" by (intro half_even_le) simp_all
  then show ?thesis unfolding round53_def p by (metis mult.assoc mult_le_mono1)
qed

lemma round53_top: "round53 a \<le> 2 ^ (excess a + 53)"
proof -
  have "floorlog 2 a \<le> excess a + 53" by (simp add: excess_def)
  then have "a < 2 ^ (excess a + 53)" by (simp add: floorlog_le_iff)
  then have "a \<le> 2 ^ 53 * 2 ^ excess a" by (simp add: power_add mult.commute)
  from round53_le [OF this] show ?thesis by (simp add: power_add mult.commute)
qed

lemma round53_mono:
  assumes "a \<le> b"
  shows "round53 a \<le> round53 b"
proof (cases "excess a = excess b")
  case True
  with half_even_mono [of "2 ^ excess b" a b] assms show ?thesis by (simp add: round53_def)
next
  case False
  with excess_mono [OF assms] have lt: "excess a < excess b" by simp
  then have b: "53 < floorlog 2 b" by (simp add: excess_def)
  then have "b \<noteq> 0" using floorlog_eq_zero_iff [of 2 b] by auto
  then have "2 ^ (floorlog 2 b - 1) \<le> b" using floorlog_bounds [of b 2] by simp
  moreover have "floorlog 2 b - 1 = 52 + excess b" using b by (simp add: excess_def)
  ultimately have "2 ^ 52 * 2 ^ excess b \<le> b" by (simp add: power_add)
  then have "2 ^ 52 \<le> half_even b (2 ^ excess b)" by (intro half_even_ge) simp_all
  then have "2 ^ (52 + excess b) \<le> round53 b" by (simp add: round53_def power_add)
  moreover have "(2::nat) ^ (excess a + 53) \<le> 2 ^ (52 + excess b)" using lt by (intro power_increasing) simp_all
  ultimately show ?thesis using round53_top [of a] by linarith
qed

section \<open>The product with a constant and its truncation\<close>

text \<open>\<^verbatim>\<open>int(q * float64(x))\<close> for the constant \<open>q = m / 2 ^ 53\<close>.\<close>

definition trunc_mul :: "nat \<Rightarrow> nat \<Rightarrow> nat" where
  "trunc_mul m x = round53 (m * round53 x) div 2 ^ 53"

lemma trunc_mul_le:
  assumes "m \<le> 2 ^ 53" and "x < 2 ^ 53"
  shows "trunc_mul m x \<le> x"
proof -
  have le: "m * x \<le> x * 2 ^ 53" using assms(1) by simp
  also have "\<dots> < 2 ^ 106" using assms(2) by simp
  finally have "floorlog 2 (m * x) \<le> 106" by (simp add: floorlog_le_iff)
  then have "excess (m * x) \<le> 53" by (simp add: excess_def)
  from round53_le [OF le this] have "round53 (m * x) \<le> x * 2 ^ 53" .
  then have "round53 (m * x) div 2 ^ 53 \<le> x * 2 ^ 53 div 2 ^ 53" by (rule div_le_mono)
  then show ?thesis using round53_exact [OF assms(2)] by (simp add: trunc_mul_def)
qed

lemma trunc_mul_mono: "m \<le> m' \<Longrightarrow> trunc_mul m x \<le> trunc_mul m' x"
  unfolding trunc_mul_def by (intro div_le_mono round53_mono) simp

lemma trunc_mul_one:
  assumes "x < 2 ^ 53"
  shows "trunc_mul (2 ^ 53) x = x"
proof -
  have "2 ^ 53 * x < 2 ^ 106" using assms by simp
  then have "floorlog 2 (2 ^ 53 * x) \<le> 106" by (simp add: floorlog_le_iff)
  then have d: "excess (2 ^ 53 * x) \<le> 53" by (simp add: excess_def)
  define d where "d = excess (2 ^ 53 * x)"
  have "(2::nat) ^ 53 = 2 ^ (53 - d) * 2 ^ d"
    using d unfolding d_def by (simp only: power_add [symmetric] le_add_diff_inverse2)
  then have p: "2 ^ 53 * x = (2 ^ (53 - d) * x) * 2 ^ d" by (metis mult.assoc mult.commute)
  have "round53 (2 ^ 53 * x) = 2 ^ 53 * x"
    unfolding round53_def d_def [symmetric] unfolding p by (simp only: half_even_exact zero_less_power zero_less_numeral)
  then show ?thesis by (simp add: trunc_mul_def round53_exact [OF assms])
qed

section \<open>Two decimals\<close>

text \<open>\<^verbatim>\<open>fmt.Sprintf("%.2f", float64(n)/(1<<k))\<close>.\<close>

definition two_decimals :: "nat \<Rightarrow> nat \<Rightarrow> string" where
  "two_decimals n k =
     (let c = half_even (100 * round53 n) (2 ^ k) in
      FormatUint (c div 100) @ ''.'' @ FormatUint (c mod 100 div 10) @ FormatUint (c mod 10))"

end
