(* ===== verification/Fanout.thy ===== *)
theory Fanout
  imports Wsserver Floats "HOL-Library.List_Lexorder" "HOL-Library.Char_ord" "HOL-Library.Word" "HOL-Library.Signed_Division" "HOL-Library.Multiset"
begin

text \<open>
  The fan-out measurement: \<^verbatim>\<open>cmd/wsfanout/main.go\<close>. It starts instances that share one Redis, gives
  each of them the subscribers of a part of the topics, publishes round-robin and compares what the
  instances handled with what was meant for them. A run is a function of what the servers, the
  sockets and Redis answer, to the error it returns and the list of its effects; deferred calls run
  in the reverse order of their \<^verbatim>\<open>defer\<close>, on every way out.
\<close>

section \<open>Topics and their owners\<close>

text \<open>\<^verbatim>\<open>fmt.Sprintf("topic-%03d", i)\<close>.\<close>

definition pad3 :: "string \<Rightarrow> string" where
  "pad3 s = replicate (3 - length s) (CHR ''0'') @ s"

definition topicName :: "nat \<Rightarrow> string" where
  "topicName i = ''topic-'' @ pad3 (FormatUint i)"

definition topicNames :: "nat \<Rightarrow> string list" where
  "topicNames nTopics = map topicName [0..<nTopics]"

text \<open>The topics of instance \<open>i\<close> of \<open>n\<close>; the last one takes the remainder.\<close>

definition inst_topics :: "nat \<Rightarrow> nat \<Rightarrow> nat \<Rightarrow> string list" where
  "inst_topics n nTopics i =
     (let per = nTopics div n; lo = i * per; hi = (if i = n - 1 then nTopics else lo + per) in
      take (hi - lo) (drop lo (topicNames nTopics)))"

text \<open>\<^verbatim>\<open>fmt.Sscanf\<close> with \<^verbatim>\<open>%d\<close>: blanks are skipped, and without digits or out of range the target keeps its zero.\<close>

definition scan_int :: "string \<Rightarrow> int" where
  "scan_int s =
     (let s1 = dropWhile is_space s;
          sign = (if s1 \<noteq> [] \<and> (hd s1 = CHR ''-'' \<or> hd s1 = CHR ''+'') then [hd s1] else []);
          ds = takeWhile is_digit (drop (length sign) s1)
      in case ParseInt (sign @ ds) of (i, None) \<Rightarrow> i | _ \<Rightarrow> 0)"

definition scan_uint :: "string \<Rightarrow> 64 word" where
  "scan_uint s =
     (case ParseUint (takeWhile is_digit (dropWhile is_space s)) of (i, None) \<Rightarrow> of_nat i | _ \<Rightarrow> 0)"

definition topic_index :: "string \<Rightarrow> int" where
  "topic_index topic = (if HasPrefix topic ''topic-'' then scan_int (drop 6 topic) else 0)"

text \<open>Go's division truncates towards zero, as \<open>sdiv\<close> and \<open>smod\<close> do.\<close>

definition messagesForTopic :: "string \<Rightarrow> int \<Rightarrow> int \<Rightarrow> int" where
  "messagesForTopic topic nTopics nMessages =
     (let idx = topic_index topic; full = nMessages sdiv nTopics in
      if idx < nMessages smod nTopics then full + 1 else full)"

section \<open>Starting an instance\<close>

definition startInstance_opts :: "'e \<Rightarrow> string \<Rightarrow> string \<Rightarrow> 'e Options" where
  "startInstance_opts ext name redisAddr =
     \<lparr>ListenAddr = '':0'', opt_MetricsAddr = [], opt_RedisAddrs = [redisAddr], opt_RedisPassword = [], opt_RedisMasterName = [],
      opt_Verifier = None, JWTSecret = [], JWTAudience = [], JWTIssuer = [], opt_PresenceTopic = [], opt_Authorizer = None,
      opt_Ext = ext, opt_LogLevel = [], opt_EnableCompression = False, opt_AllowedOrigins = [], opt_TLSCertPath = [],
      opt_TLSKeyPath = [], IdleTimeout = 0, opt_MaxPayloadBytes = 0, opt_MaxBufferedBytes = 64 * 2 ^ 20,
      opt_MaxConsecutiveDrops = -1, opt_StreamMaxLength = 0, opt_StreamTTL = 0, opt_AckCursorTTL = 0,
      MessagesPerSec = 1000000, JobsPerMin = 0, opt_SchedulerAllowedHosts = [], opt_ReadinessTimeout = 0,
      opt_ShutdownTimeout = 0, opt_InstanceID = name\<rparr>"

text \<open>The measurement is out of the way of the limits: no rate limit it can reach, and no eviction.\<close>

lemma startInstance_config:
  assumes "name \<noteq> []"
  shows "\<exists>cfg. toConfig uuid (startInstance_opts ext name redisAddr) = Inr cfg \<and> WebSocketPort cfg = 0 \<and> RedisAddrs cfg = [redisAddr]
    \<and> RateLimitMessagesPerSec cfg = 1000000 \<and> conf_MaxConsecutiveDrops cfg = 0 \<and> conf_MaxBufferedBytes cfg = 64 * 2 ^ 20
    \<and> conf_InstanceID cfg = name \<and> AuthJWTSecret cfg = []"
proof -
  have "'':0'' = '':'' @ FormatInt 0" by (simp add: FormatInt_def FormatUint.simps digit_char_eval)
  then have "listen_port '':0'' = Inr 0" using listen_port_FormatInt [of 0] by (simp add: max_int64_def)
  with assms show ?thesis
    by (simp add: toConfig_def startInstance_opts_def and_then_def orInt64_def orInt_def eviction_drops_def)
qed

section \<open>A run\<close>

text \<open>
  The outcomes of starting a server with its options, of a dial to the address of an instance under a
  user key, and of the writes of a subscribe frame and of a message.
\<close>

record fan_env =
  fe_New :: "unit Options \<Rightarrow> goerr option"
  fe_dial :: "string \<Rightarrow> string \<Rightarrow> goerr option"
  fe_subscribe :: "string \<Rightarrow> string \<Rightarrow> goerr option"
  fe_publish :: "nat \<Rightarrow> goerr option"

datatype fan_effect =
    Started string "string list"
  | Cancelled string
  | Dialled string string
  | SentSubscribe string string
  | Closed string
  | SentPublish string nat bool

definition fan_dial :: "fan_env \<Rightarrow> string \<Rightarrow> string \<Rightarrow> goerr option \<times> fan_effect list" where
  "fan_dial E inst uk = (case fe_dial E inst uk of Some e \<Rightarrow> (Some e, []) | None \<Rightarrow> (None, [Dialled inst uk]))"

text \<open>A socket whose subscribe frame cannot be written is closed at once.\<close>

definition dialAndSubscribe :: "fan_env \<Rightarrow> string \<Rightarrow> string \<Rightarrow> string \<Rightarrow> goerr option \<times> fan_effect list" where
  "dialAndSubscribe E inst uk topic =
     (case fan_dial E inst uk of
        (Some e, tr) \<Rightarrow> (Some e, tr)
      | (None, tr) \<Rightarrow>
          (case fe_subscribe E uk topic of
             Some e \<Rightarrow> (Some e, tr @ [Closed uk])
           | None \<Rightarrow> (None, tr @ [SentSubscribe uk topic])))"

definition startInstance :: "fan_env \<Rightarrow> string \<Rightarrow> string \<Rightarrow> string list \<Rightarrow> goerr option \<times> fan_effect list" where
  "startInstance E redisAddr name topics =
     (case fe_New E (startInstance_opts () name redisAddr) of
        Some e \<Rightarrow> (Some (Wrap (''start '' @ name @ '': '') e []), [])
      | None \<Rightarrow> (None, [Started name topics]))"

text \<open>The instances that were started are collected for the deferred shutdown.\<close>

fun start_all :: "fan_env \<Rightarrow> string \<Rightarrow> (string \<times> string list) list \<Rightarrow> goerr option \<times> (string \<times> string list) list \<times> fan_effect list" where
  "start_all E addr [] = (None, [], [])"
| "start_all E addr ((name, topics) # rest) =
     (case startInstance E addr name topics of
        (Some e, tr) \<Rightarrow> (Some e, [], tr)
      | (None, tr) \<Rightarrow> (case start_all E addr rest of (e, insts, tr') \<Rightarrow> (e, (name, topics) # insts, tr @ tr')))"

definition fan_instances :: "nat \<Rightarrow> nat \<Rightarrow> (string \<times> string list) list" where
  "fan_instances n nTopics =
     map (\<lambda>i. (''inst-'' @ FormatUint i, inst_topics n nTopics i)) [0..<n] @ [(''idle'', [])]"

text \<open>The subscribers in the order of the three loops: instance, topic, number.\<close>

definition fan_subscribers :: "nat \<Rightarrow> (string \<times> string list) list \<Rightarrow> (string \<times> string \<times> string) list" where
  "fan_subscribers subsPer insts =
     concat (map (\<lambda>(name, topics). concat (map (\<lambda>topic.
       map (\<lambda>s. (name, name @ ''-'' @ topic @ ''-'' @ FormatUint s, topic)) [0..<subsPer]) topics)) insts)"

fun subscribe_all :: "fan_env \<Rightarrow> (string \<times> string \<times> string) list \<Rightarrow> goerr option \<times> string list \<times> fan_effect list" where
  "subscribe_all E [] = (None, [], [])"
| "subscribe_all E ((name, uk, topic) # rest) =
     (case dialAndSubscribe E name uk topic of
        (Some e, tr) \<Rightarrow> (Some (Wrap (name @ '' subscribe '' @ topic @ '': '') e []), [], tr)
      | (None, tr) \<Rightarrow> (case subscribe_all E rest of (e, conns, tr') \<Rightarrow> (e, uk # conns, tr @ tr')))"

fun publish_all :: "fan_env \<Rightarrow> string list \<Rightarrow> bool \<Rightarrow> nat list \<Rightarrow> goerr option \<times> fan_effect list" where
  "publish_all E names filler [] = (None, [])"
| "publish_all E names filler (i # is) =
     (case fe_publish E i of
        Some e \<Rightarrow> (Some (Wrap (''publish '' @ FormatUint i @ '': '') e []), [])
      | None \<Rightarrow> (case publish_all E names filler is of
          (e, tr) \<Rightarrow> (e, SentPublish (names ! (i mod length names)) i filler # tr)))"

text \<open>
  \<open>SentPublish\<close> carries the topic, the sequence number and whether the data has a filler. A negative
  payload size panics in \<^verbatim>\<open>strings.Repeat\<close>; a panic runs the deferred calls too.
\<close>

definition fan_publish :: "fan_env \<Rightarrow> string list \<Rightarrow> int \<Rightarrow> int \<Rightarrow> goerr option \<times> fan_effect list" where
  "fan_publish E names nMessages payloadBytes =
     (case fan_dial E ''inst-0'' ''publisher'' of
        (Some e, tr) \<Rightarrow> (Some (Wrap ''publisher: '' e []), tr)
      | (None, tr) \<Rightarrow>
          let (e, tr') = (if payloadBytes < 0 then (Some (Panic ''strings: negative Repeat count''), [])
                          else publish_all E names (payloadBytes > 0) [0..<nat nMessages])
          in (e, tr @ tr' @ [Closed ''publisher'']))"

definition fan_run :: "fan_env \<Rightarrow> string \<Rightarrow> int \<Rightarrow> int \<Rightarrow> int \<Rightarrow> int \<Rightarrow> int \<Rightarrow> goerr option \<times> fan_effect list" where
  "fan_run E redisAddr n nTopics nMessages subsPer payloadBytes =
     (if n < 1 then (Some (Err ''-instances must be at least 1''), [])
      else if nTopics < n then
        (Some (Err (''-topics ('' @ FormatInt nTopics @ '') must be at least -instances ('' @ FormatInt n @ '')'')), [])
      else
        let (e1, insts, tr1) = start_all E redisAddr (fan_instances (nat n) (nat nTopics));
            cancels = map (\<lambda>p. Cancelled (fst p)) insts
        in case e1 of
             Some e \<Rightarrow> (Some e, tr1 @ cancels)
           | None \<Rightarrow>
               (let (e2, conns, tr2) = subscribe_all E (fan_subscribers (nat subsPer) insts);
                    closes = map Closed conns
                in case e2 of
                     Some e \<Rightarrow> (Some e, tr1 @ tr2 @ closes @ cancels)
                   | None \<Rightarrow>
                       (let (e3, tr3) = fan_publish E (topicNames (nat nTopics)) nMessages payloadBytes in
                        (e3, tr1 @ tr2 @ tr3 @ closes @ cancels))))"

section \<open>Every way out releases what was opened\<close>

definition started :: "fan_effect list \<Rightarrow> string multiset" where
  "started tr = image_mset (\<lambda>f. case f of Started i ts \<Rightarrow> i | _ \<Rightarrow> []) (filter_mset (\<lambda>f. case f of Started i ts \<Rightarrow> True | _ \<Rightarrow> False) (mset tr))"

definition cancelled :: "fan_effect list \<Rightarrow> string multiset" where
  "cancelled tr = image_mset (\<lambda>f. case f of Cancelled i \<Rightarrow> i | _ \<Rightarrow> []) (filter_mset (\<lambda>f. case f of Cancelled i \<Rightarrow> True | _ \<Rightarrow> False) (mset tr))"

definition dialled :: "fan_effect list \<Rightarrow> string multiset" where
  "dialled tr = image_mset (\<lambda>f. case f of Dialled i uk \<Rightarrow> uk | _ \<Rightarrow> []) (filter_mset (\<lambda>f. case f of Dialled i uk \<Rightarrow> True | _ \<Rightarrow> False) (mset tr))"

definition closed :: "fan_effect list \<Rightarrow> string multiset" where
  "closed tr = image_mset (\<lambda>f. case f of Closed uk \<Rightarrow> uk | _ \<Rightarrow> []) (filter_mset (\<lambda>f. case f of Closed uk \<Rightarrow> True | _ \<Rightarrow> False) (mset tr))"

lemmas effect_defs = started_def cancelled_def dialled_def closed_def

lemma effects_append [simp]:
  "started (a @ b) = started a + started b" "cancelled (a @ b) = cancelled a + cancelled b"
  "dialled (a @ b) = dialled a + dialled b" "closed (a @ b) = closed a + closed b"
  by (simp_all add: effect_defs)

lemma effects_Nil [simp]: "started [] = {#}" "cancelled [] = {#}" "dialled [] = {#}" "closed [] = {#}"
  by (simp_all add: effect_defs)

lemma effects_Cons [simp]:
  "started (Started i ts # tr) = add_mset i (started tr)" "cancelled (Started i ts # tr) = cancelled tr"
  "dialled (Started i ts # tr) = dialled tr" "closed (Started i ts # tr) = closed tr"
  "started (Cancelled i # tr) = started tr" "cancelled (Cancelled i # tr) = add_mset i (cancelled tr)"
  "dialled (Cancelled i # tr) = dialled tr" "closed (Cancelled i # tr) = closed tr"
  "started (Dialled i uk # tr) = started tr" "cancelled (Dialled i uk # tr) = cancelled tr"
  "dialled (Dialled i uk # tr) = add_mset uk (dialled tr)" "closed (Dialled i uk # tr) = closed tr"
  "started (SentSubscribe uk t # tr) = started tr" "cancelled (SentSubscribe uk t # tr) = cancelled tr"
  "dialled (SentSubscribe uk t # tr) = dialled tr" "closed (SentSubscribe uk t # tr) = closed tr"
  "started (Closed uk # tr) = started tr" "cancelled (Closed uk # tr) = cancelled tr"
  "dialled (Closed uk # tr) = dialled tr" "closed (Closed uk # tr) = add_mset uk (closed tr)"
  "started (SentPublish t j b # tr) = started tr" "cancelled (SentPublish t j b # tr) = cancelled tr"
  "dialled (SentPublish t j b # tr) = dialled tr" "closed (SentPublish t j b # tr) = closed tr"
  by (simp_all add: effect_defs)

lemma effects_cancels [simp]:
  "started (map (\<lambda>p. Cancelled (fst p)) insts) = {#}" "cancelled (map (\<lambda>p. Cancelled (fst p)) insts) = mset (map fst insts)"
  "dialled (map (\<lambda>p. Cancelled (fst p)) insts) = {#}" "closed (map (\<lambda>p. Cancelled (fst p)) insts) = {#}"
  by (induction insts) simp_all

lemma effects_closes [simp]:
  "started (map Closed conns) = {#}" "cancelled (map Closed conns) = {#}"
  "dialled (map Closed conns) = {#}" "closed (map Closed conns) = mset conns"
  by (induction conns) simp_all

lemma start_all_effects:
  "start_all E addr l = (e, insts, tr) \<Longrightarrow>
     started tr = mset (map fst insts) \<and> cancelled tr = {#} \<and> dialled tr = {#} \<and> closed tr = {#}"
  by (induction E addr l arbitrary: e insts tr rule: start_all.induct)
    (auto simp: startInstance_def split: option.splits prod.splits)

lemma subscribe_all_effects:
  "subscribe_all E l = (e, conns, tr) \<Longrightarrow> started tr = {#} \<and> cancelled tr = {#} \<and> dialled tr = mset conns + closed tr"
  by (induction E l arbitrary: e conns tr rule: subscribe_all.induct)
    (auto simp: dialAndSubscribe_def fan_dial_def split: option.splits prod.splits)

lemma publish_all_effects:
  "publish_all E names b is = (e, tr) \<Longrightarrow> started tr = {#} \<and> cancelled tr = {#} \<and> dialled tr = {#} \<and> closed tr = {#}"
  by (induction E names b "is" arbitrary: e tr rule: publish_all.induct) (auto split: option.splits prod.splits)

lemma fan_publish_effects:
  assumes "fan_publish E names m pb = (e, tr)"
  shows "started tr = {#} \<and> cancelled tr = {#} \<and> dialled tr = closed tr"
proof -
  obtain e' tr' where p: "publish_all E names (pb > 0) [0..<nat m] = (e', tr')" by fastforce
  from publish_all_effects [OF p] p assms show ?thesis
    by (auto simp: fan_publish_def fan_dial_def Let_def split: option.splits prod.splits if_splits)
qed

text \<open>
  Every way out of a measurement releases what it opened. Whether the run succeeds, an instance does
  not start, a subscriber cannot connect or subscribe, the publisher fails or the arguments are
  wrong, every instance that was started is cancelled once, and every socket that was dialled is
  closed once.
\<close>

theorem fan_run_releases:
  "let tr = snd (fan_run E redisAddr n nTopics nMessages subsPer payloadBytes) in
     started tr = cancelled tr \<and> dialled tr = closed tr"
proof -
  obtain e1 insts tr1 where st: "start_all E redisAddr (fan_instances (nat n) (nat nTopics)) = (e1, insts, tr1)"
    by (metis prod_cases3)
  obtain e2 conns tr2 where sb: "subscribe_all E (fan_subscribers (nat subsPer) insts) = (e2, conns, tr2)"
    by (metis prod_cases3)
  obtain e3 tr3 where pb: "fan_publish E (topicNames (nat nTopics)) nMessages payloadBytes = (e3, tr3)" by fastforce
  from start_all_effects [OF st] subscribe_all_effects [OF sb] fan_publish_effects [OF pb] show ?thesis
    by (auto simp: fan_run_def st sb pb Let_def split: option.splits)
qed

section \<open>What a successful run measures\<close>

lemma parse_zeros: "parse_uint (replicate k (CHR ''0'') @ s) 0 = parse_uint s 0"
  by (induction k) (simp_all add: is_digit_def digit_val_def Let_def)

lemma topic_index_topicName:
  assumes "int i \<le> max_int64"
  shows "topic_index (topicName i) = int i"
proof -
  let ?s = "pad3 (FormatUint i)"
  have d: "\<forall>c \<in> set ?s. is_digit c" using FormatUint_digits [of _ i] by (auto simp: pad3_def is_digit_def)
  have ne: "?s \<noteq> []" by (simp add: pad3_def)
  then have h: "is_digit (hd ?s)" using d by (simp add: hd_in_set)
  then have "\<not> is_space (hd ?s)" by (auto simp: is_digit_def is_space_def Let_def)
  then have dw: "dropWhile is_space ?s = ?s" using ne by (cases ?s) auto
  have sg: "hd ?s \<noteq> CHR ''-''" "hd ?s \<noteq> CHR ''+''" using h not_digit_minus not_digit_plus by metis+
  have i: "i < 2 ^ 63" using assms by (simp add: max_int64_def)
  have "parse_uint ?s 0 = (i, None)" using i by (simp add: pad3_def parse_zeros parse_uint_FormatUint)
  then have "ParseInt ?s = (int i, None)" using ne sg i by (simp add: ParseInt_def ParseUint_def)
  moreover have tw: "takeWhile is_digit ?s = ?s" using d by (simp add: takeWhile_eq_all_conv)
  ultimately have "scan_int ?s = int i" using sg ne by (simp add: scan_int_def Let_def tw dw)
  moreover have "HasPrefix (topicName i) ''topic-''" "drop 6 (topicName i) = ?s"
    by (simp_all add: topicName_def HasPrefix_def)
  ultimately show ?thesis by (simp add: topic_index_def)
qed

lemma messagesForTopic_topicName:
  assumes "i < T" and "int T \<le> max_int64"
  shows "messagesForTopic (topicName i) (int T) (int M) = int (M div T + (if i < M mod T then 1 else 0))"
proof -
  from assms have "topic_index (topicName i) = int i" by (intro topic_index_topicName) simp
  moreover have "int M smod int T = int (M mod T)" "int M sdiv int T = int (M div T)"
    by (simp_all add: signed_modulo_int_def signed_divide_int_def zmod_int zdiv_int sgn_if)
  ultimately show ?thesis by (simp add: messagesForTopic_def Let_def)
qed

lemma topicNames_distinct: "int T \<le> max_int64 \<Longrightarrow> distinct (topicNames T)"
  unfolding topicNames_def distinct_map
  by (auto intro!: inj_onI dest: arg_cong [of _ _ topic_index] simp: topic_index_topicName)

text \<open>The number of messages a round-robin over \<open>T\<close> topics gives to one of them.\<close>

lemma round_robin:
  assumes "i < T"
  shows "length (filter (\<lambda>j. j mod T = i) [0..<M]) = M div T + (if i < M mod T then 1 else 0)"
proof (induction M)
  case 0
  then show ?case by simp
next
  case (Suc M)
  have "M mod T < T" using assms by simp
  then show ?case using Suc assms
    by (auto simp: mod_Suc div_Suc)
qed

lemma inst_topics_concat:
  assumes "0 < n"
  shows "concat (map (inst_topics n T) [0..<n]) = topicNames T"
proof -
  let ?per = "T div n"
  have sl: "inst_topics n T i = take ?per (drop (i * ?per) (topicNames T))" if "i < n - 1" for i
    using that by (simp add: inst_topics_def Let_def)
  have pre: "concat (map (inst_topics n T) [0..<k]) = take (k * ?per) (topicNames T)" if "k \<le> n - 1" for k
    using that by (induction k) (simp_all add: sl add.commute [of ?per] take_add)
  have "inst_topics n T (n - 1) = drop ((n - 1) * ?per) (topicNames T)"
    by (simp add: inst_topics_def Let_def topicNames_def)
  moreover have "[0..<n] = [0..<n - 1] @ [n - 1]" using assms by (metis Suc_pred' upt_Suc_append zero_le)
  ultimately show ?thesis using pre [of "n - 1"] by simp
qed

definition subs_to :: "string \<Rightarrow> fan_effect list \<Rightarrow> nat" where
  "subs_to t tr = length (filter (\<lambda>f. case f of SentSubscribe uk t' \<Rightarrow> t' = t | _ \<Rightarrow> False) tr)"

definition pubs_to :: "string \<Rightarrow> fan_effect list \<Rightarrow> nat" where
  "pubs_to t tr = length (filter (\<lambda>f. case f of SentPublish t' j b \<Rightarrow> t' = t | _ \<Rightarrow> False) tr)"

lemma to_simps [simp]:
  "subs_to t [] = 0" "pubs_to t [] = 0" "subs_to t (a @ b) = subs_to t a + subs_to t b" "pubs_to t (a @ b) = pubs_to t a + pubs_to t b"
  "subs_to t (SentSubscribe uk t' # tr) = (if t' = t then 1 else 0) + subs_to t tr" "pubs_to t (SentSubscribe uk t' # tr) = pubs_to t tr"
  "subs_to t (SentPublish t' j fl # tr) = subs_to t tr" "pubs_to t (SentPublish t' j fl # tr) = (if t' = t then 1 else 0) + pubs_to t tr"
  "subs_to t (Dialled i uk # tr) = subs_to t tr" "pubs_to t (Dialled i uk # tr) = pubs_to t tr"
  "subs_to t (Started i ts # tr) = subs_to t tr" "pubs_to t (Started i ts # tr) = pubs_to t tr"
  "subs_to t (Closed uk # tr) = subs_to t tr" "pubs_to t (Closed uk # tr) = pubs_to t tr"
  "subs_to t (map Closed conns) = 0" "pubs_to t (map Closed conns) = 0"
  "subs_to t (map (\<lambda>p. Cancelled (fst p)) insts) = 0" "pubs_to t (map (\<lambda>p. Cancelled (fst p)) insts) = 0"
  by (simp_all add: subs_to_def pubs_to_def filter_map o_def)

lemma start_all_ok:
  "start_all E addr l = (None, insts, tr) \<Longrightarrow> insts = l \<and> subs_to t tr = 0 \<and> pubs_to t tr = 0"
  by (induction E addr l arbitrary: insts tr rule: start_all.induct) (auto simp: startInstance_def split: option.splits prod.splits)

lemma subscribe_all_ok:
  "subscribe_all E l = (None, conns, tr) \<Longrightarrow>
     subs_to t tr = length (filter (\<lambda>p. snd (snd p) = t) l) \<and> pubs_to t tr = 0"
  by (induction E l arbitrary: conns tr rule: subscribe_all.induct)
    (auto simp: dialAndSubscribe_def fan_dial_def split: option.splits prod.splits)

lemma publish_all_ok:
  "publish_all E names b is = (None, tr) \<Longrightarrow>
     pubs_to t tr = length (filter (\<lambda>j. names ! (j mod length names) = t) is) \<and> subs_to t tr = 0"
  by (induction E names b "is" arbitrary: tr rule: publish_all.induct) (auto split: option.splits prod.splits)

lemma fan_publish_ok:
  assumes "fan_publish E names m pb = (None, tr)"
  shows "pubs_to t tr = length (filter (\<lambda>j. names ! (j mod length names) = t) [0..<nat m]) \<and> subs_to t tr = 0"
proof -
  obtain e' tr' where p: "publish_all E names (pb > 0) [0..<nat m] = (e', tr')" by fastforce
  from p assms publish_all_ok [of E names "pb > 0" "[0..<nat m]" tr' t] show ?thesis
    by (auto simp: fan_publish_def fan_dial_def Let_def split: option.splits prod.splits if_splits)
qed

lemma fan_subscribers_topics:
  "length (filter (\<lambda>p. snd (snd p) = t) (fan_subscribers sp insts)) = sp * length (filter (\<lambda>t'. t' = t) (concat (map snd insts)))"
proof (induction insts)
  case Nil
  then show ?case by (simp add: fan_subscribers_def)
next
  case (Cons p insts)
  obtain name topics where p: "p = (name, topics)" by (cases p)
  have "length (filter (\<lambda>p. snd (snd p) = t) (concat (map (\<lambda>topic. map (\<lambda>s. (name, name @ ''-'' @ topic @ ''-'' @ FormatUint s, topic)) [0..<sp]) topics)))
      = sp * length (filter (\<lambda>t'. t' = t) topics)"
    by (induction topics) (simp_all add: filter_map o_def)
  with Cons show ?case by (simp add: fan_subscribers_def p add_mult_distrib2)
qed

definition relevant :: "string list \<Rightarrow> int \<Rightarrow> int \<Rightarrow> int" where
  "relevant topics nTopics nMessages = sum_list (map (\<lambda>t. messagesForTopic t nTopics nMessages) topics)"

lemma relevant_concat: "relevant (concat tss) T M = sum_list (map (\<lambda>ts. relevant ts T M) tss)"
  by (induction tss) (simp_all add: relevant_def)

lemma sum_below: "r \<le> T \<Longrightarrow> (\<Sum>i<T. if i < r then 1 else (0::nat)) = r"
proof -
  assume "r \<le> T"
  then have "{..<T} \<inter> {i. i < r} = {..<r}" by auto
  then show ?thesis by (simp add: sum.If_cases)
qed

lemma relevant_topicNames:
  assumes "0 < T" and "int T \<le> max_int64"
  shows "relevant (topicNames T) (int T) (int M) = int M"
proof -
  have "relevant (topicNames T) (int T) (int M) = (\<Sum>i<T. messagesForTopic (topicName i) (int T) (int M))"
    by (simp add: relevant_def topicNames_def o_def interv_sum_list_conv_sum_set_nat lessThan_atLeast0)
  also have "\<dots> = (\<Sum>i<T. int (M div T + (if i < M mod T then 1 else 0)))"
    using messagesForTopic_topicName [OF _ assms(2)] by (intro sum.cong) simp_all
  also have "\<dots> = int (T * (M div T) + (\<Sum>i<T. if i < M mod T then 1 else 0))"
    unfolding of_nat_sum [symmetric] by (simp add: sum.distrib)
  also have "(\<Sum>i<T. if i < M mod T then 1 else 0) = M mod T"
    using sum_below [of "M mod T" T] mod_less_divisor [OF assms(1), of M] by simp
  finally show ?thesis by simp
qed

lemma filter_distinct: "distinct xs \<Longrightarrow> x \<in> set xs \<Longrightarrow> length (filter (\<lambda>t. t = x) xs) = 1"
  by (induction xs) (auto simp: filter_empty_conv)

text \<open>
  A measurement counts what it claims to count. When a run succeeds, every topic has been given to
  exactly one instance and has the requested number of subscribers there, every topic has been sent
  exactly the messages the report counts as meant for it, and these add up, over all instances, to
  the messages published; the idle instance has none.
\<close>

theorem fan_run_measures:
  assumes ok: "fan_run E redisAddr n nTopics nMessages subsPer payloadBytes = (None, tr)"
    and int64: "nTopics \<le> max_int64" and pos: "0 \<le> nMessages" and i: "i < nat nTopics"
  shows "concat (map snd (fan_instances (nat n) (nat nTopics))) = topicNames (nat nTopics) \<and> distinct (topicNames (nat nTopics))
    \<and> subs_to (topicName i) tr = nat subsPer
    \<and> int (pubs_to (topicName i) tr) = messagesForTopic (topicName i) nTopics nMessages
    \<and> sum_list (map (\<lambda>p. relevant (snd p) nTopics nMessages) (fan_instances (nat n) (nat nTopics))) = nMessages
    \<and> relevant [] nTopics nMessages = 0"
proof -
  define T M where "T = nat nTopics" and "M = nat nMessages"
  obtain e1 insts tr1 where st: "start_all E redisAddr (fan_instances (nat n) T) = (e1, insts, tr1)" by (metis prod_cases3)
  obtain e2 conns tr2 where sb: "subscribe_all E (fan_subscribers (nat subsPer) insts) = (e2, conns, tr2)" by (metis prod_cases3)
  obtain e3 tr3 where pb: "fan_publish E (topicNames T) nMessages payloadBytes = (e3, tr3)" by fastforce
  have lim: "\<not> n < 1" "\<not> nTopics < n" using ok by (auto simp: fan_run_def split: if_splits)
  then have n: "0 < nat n" "0 < T" "nTopics = int T" by (simp_all add: T_def)
  from lim ok have "(case e1 of Some e \<Rightarrow> (Some e, tr1 @ map (\<lambda>p. Cancelled (fst p)) insts)
      | None \<Rightarrow> case e2 of Some e \<Rightarrow> (Some e, tr1 @ tr2 @ map Closed conns @ map (\<lambda>p. Cancelled (fst p)) insts)
        | None \<Rightarrow> (e3, tr1 @ tr2 @ tr3 @ map Closed conns @ map (\<lambda>p. Cancelled (fst p)) insts)) = (None, tr)"
    by (cases e1; cases e2) (simp_all add: fan_run_def T_def [symmetric] st sb pb)
  then have e: "e1 = None" "e2 = None" "e3 = None"
    and tr: "tr = tr1 @ tr2 @ tr3 @ map Closed conns @ map (\<lambda>p. Cancelled (fst p)) insts"
    by (auto split: option.splits)
  have T: "int T \<le> max_int64" "nMessages = int M" using int64 n(3) pos by (simp, simp add: M_def)
  have i: "i < T" using i by (simp add: T_def)
  have cat: "concat (map snd (fan_instances (nat n) T)) = topicNames T"
    using inst_topics_concat [OF n(1), of T] by (simp add: fan_instances_def o_def)
  have dis: "distinct (topicNames T)" by (rule topicNames_distinct [OF T(1)])
  have nth: "topicNames T ! k = topicName k" if "k < T" for k using that by (simp add: topicNames_def)
  have len: "length (topicNames T) = T" by (simp add: topicNames_def)
  have in_names: "topicName i \<in> set (topicNames T)" using i by (simp add: topicNames_def)
  note st' = start_all_ok [OF st [unfolded e], of "topicName i"]
  note sb' = subscribe_all_ok [OF sb [unfolded e], of "topicName i"]
  note pb' = fan_publish_ok [OF pb [unfolded e], of "topicName i"]
  have "subs_to (topicName i) tr = nat subsPer"
    using st' sb' pb' fan_subscribers_topics [of "topicName i" "nat subsPer" insts] cat filter_distinct [OF dis in_names]
    by (simp add: tr)
  moreover have "pubs_to (topicName i) tr = length (filter (\<lambda>j. topicNames T ! (j mod T) = topicName i) [0..<M])"
    using st' sb' pb' by (simp add: tr len M_def)
  moreover have "topicNames T ! (j mod T) = topicName i \<longleftrightarrow> j mod T = i" for j
    using nth_eq_iff_index_eq [OF dis, of "j mod T" i] nth [of i] i n(2) by (simp add: len)
  ultimately show ?thesis
    using round_robin [of i T M] i messagesForTopic_topicName [of i T M] relevant_topicNames [OF n(2) T(1), of M] T n(3) cat dis
      relevant_concat [of "map snd (fan_instances (nat n) T)" "int T" "int M"]
    unfolding T_def [symmetric] by (simp add: o_def relevant_def del: of_nat_add)
qed

definition fine_env :: fan_env where
  "fine_env = \<lparr>fe_New = (\<lambda>_. None), fe_dial = (\<lambda>_ _. None), fe_subscribe = (\<lambda>_ _. None), fe_publish = (\<lambda>_. None)\<rparr>"

lemma fine_runs:
  "fst (start_all fine_env addr l) = None" "fst (subscribe_all fine_env m) = None" "fst (publish_all fine_env names b is) = None"
proof -
  show "fst (start_all fine_env addr l) = None"
    by (induction fine_env addr l rule: start_all.induct) (auto simp: startInstance_def fine_env_def split: prod.splits)
  show "fst (subscribe_all fine_env m) = None"
    by (induction fine_env m rule: subscribe_all.induct) (auto simp: dialAndSubscribe_def fan_dial_def fine_env_def split: prod.splits)
  show "fst (publish_all fine_env names b is) = None"
    by (induction fine_env names b "is" rule: publish_all.induct) (auto simp: fine_env_def split: prod.splits)
qed

lemma fine_run:
  assumes "1 \<le> n" "n \<le> T" "0 \<le> pb"
  shows "fst (fan_run fine_env addr n T M sp pb) = None"
proof -
  obtain insts tr1 where st: "start_all fine_env addr (fan_instances (nat n) (nat T)) = (None, insts, tr1)"
    using fine_runs(1) by (metis prod.collapse)
  obtain conns tr2 where sb: "subscribe_all fine_env (fan_subscribers (nat sp) insts) = (None, conns, tr2)"
    using fine_runs(2) by (metis prod.collapse)
  have "fst (fan_publish fine_env (topicNames (nat T)) M pb) = None"
    using fine_runs(3) [of "topicNames (nat T)" "pb > 0" "[0..<nat M]"] assms(3)
    by (auto simp: fan_publish_def fan_dial_def fine_env_def split: prod.splits)
  with st sb assms(1,2) show ?thesis by (auto simp: fan_run_def split: prod.splits)
qed

theorem fan_run_measures_witness:
  "let tr = snd (fan_run fine_env [] 2 3 5 4 0) in subs_to (topicName 0) tr = 4 \<and> pubs_to (topicName 0) tr = 2"
proof -
  let ?r = "fan_run fine_env [] 2 3 5 4 0"
  have "?r = (None, snd ?r)" using fine_run [of 2 3 0 "[]" 5 4] by (simp add: prod_eq_iff)
  moreover have "messagesForTopic (topicName 0) (int 3) (int 5) = 2"
    using messagesForTopic_topicName [of 0 3 5] by (simp add: max_int64_def)
  ultimately show ?thesis
    using fan_run_measures [of fine_env "[]" 2 3 5 4 0 "snd ?r" 0] by (simp add: max_int64_def Let_def)
qed

section \<open>The report\<close>

record fan_counters =
  fc_handled :: "64 word"
  fc_published :: "64 word"

text \<open>A metric of a gathered family: a histogram with its sample count, a counter with its value, or another kind.\<close>

datatype fan_metric = MHistogram "64 word" | MCounter nat | MOther

definition counterValue :: "fan_metric \<Rightarrow> nat" where
  "counterValue m = (case m of MCounter v \<Rightarrow> v | _ \<Rightarrow> 0)"

fun add_histograms :: "fan_metric list \<Rightarrow> 64 word \<Rightarrow> 64 word" where
  "add_histograms [] n = n"
| "add_histograms (MHistogram k # ms) n = add_histograms ms (n + k)"
| "add_histograms (_ # ms) n = add_histograms ms n"

text \<open>\<open>gather\<close> is what the registry of the instance returns; sums of seconds, which are only printed, are left out.\<close>

definition readCounters :: "(string \<times> fan_metric list) list result \<Rightarrow> fan_counters" where
  "readCounters gather =
     (case gather of
        Inl e \<Rightarrow> \<lparr>fc_handled = 0, fc_published = 0\<rparr>
      | Inr families \<Rightarrow> fold (\<lambda>(name, ms) c.
          if name = ''bus_fanout_duration_seconds'' then c\<lparr>fc_handled := add_histograms ms (fc_handled c)\<rparr>
          else if name = ''bus_publish_total'' then c\<lparr>fc_published := fc_published c + sum_list (map (\<lambda>m. of_nat (counterValue m)) ms)\<rparr>
          else c) families \<lparr>fc_handled = 0, fc_published = 0\<rparr>)"

record redisStats =
  outputBytes :: "64 word"
  commands :: "64 word"

definition stat_line :: "string \<Rightarrow> redisStats \<Rightarrow> redisStats" where
  "stat_line line s =
     (case Cut (TrimSpace line) (CHR '':'') of
        (key, value, ok) \<Rightarrow>
          if \<not> ok then s
          else if key = ''total_net_output_bytes'' then s\<lparr>outputBytes := scan_uint value\<rparr>
          else if key = ''total_commands_processed'' then s\<lparr>commands := scan_uint value\<rparr>
          else s)"

definition readRedisStats :: "string result \<Rightarrow> redisStats" where
  "readRedisStats info =
     (case info of
        Inl e \<Rightarrow> \<lparr>outputBytes = 0, commands = 0\<rparr>
      | Inr txt \<Rightarrow> fold stat_line (Split txt (char_of (10 :: nat))) \<lparr>outputBytes = 0, commands = 0\<rparr>)"

datatype waste = NoWaste | AllWaste | WasteRatio "64 word" int

record fan_row =
  row_name :: string
  row_topics :: nat
  row_handled :: "64 word"
  row_relevant :: int

definition fan_row_of :: "(string \<Rightarrow> fan_counters) \<Rightarrow> (string \<Rightarrow> fan_counters) \<Rightarrow> int \<Rightarrow> int \<Rightarrow> string \<times> string list \<Rightarrow> fan_row" where
  "fan_row_of base now nTopics nMessages p =
     \<lparr>row_name = fst p, row_topics = length (snd p), row_handled = fc_handled (now (fst p)) - fc_handled (base (fst p)),
      row_relevant = relevant (snd p) nTopics nMessages\<rparr>"

definition row_waste :: "fan_row \<Rightarrow> waste" where
  "row_waste r =
     (if row_relevant r > 0 then WasteRatio (row_handled r) (row_relevant r)
      else if row_handled r > 0 then AllWaste else NoWaste)"

text \<open>The totals of the report: handled, useful and discarded.\<close>

definition fan_totals :: "fan_row list \<Rightarrow> 64 word \<times> int \<times> 64 word" where
  "fan_totals rows =
     (let h = sum_list (map row_handled rows); u = sum_list (map row_relevant rows) in (h, u, h - word_of_int u))"

text \<open>
  The report of a complete measurement. When a run succeeded and every instance handled each published
  message once, the useful messages of the report are the published ones, the discarded ones are
  the instances minus one for each, and the idle instance's row says that all it handled was waste.
\<close>

theorem report_totals:
  fixes n nTopics :: nat
  assumes "0 < n" "n \<le> nTopics" "int nTopics \<le> max_int64" and rows: "rows = map (fan_row_of base now (int nTopics) (int M)) (fan_instances n nTopics)"
    and handled: "\<forall>p \<in> set (fan_instances n nTopics). fc_handled (now (fst p)) = fc_handled (base (fst p)) + of_nat M"
    and small: "0 < M" "(n + 1) * M < 2 ^ 64"
  shows "fan_totals rows = (of_nat ((n + 1) * M), int M, of_nat (n * M)) \<and> row_waste (last rows) = AllWaste"
proof -
  have h: "row_handled r = of_nat M" if "r \<in> set rows" for r
    using that handled by (auto simp: rows fan_row_of_def)
  have len: "length rows = n + 1" by (simp add: rows fan_instances_def)
  have "map row_handled rows = replicate (n + 1) (of_nat M)" using h len by (intro replicate_eqI) auto
  then have tot: "sum_list (map row_handled rows) = of_nat ((n + 1) * M)" by (simp add: sum_list_replicate)
  have "concat (map snd (fan_instances n nTopics)) = topicNames nTopics"
    using inst_topics_concat [OF assms(1), of nTopics] by (simp add: fan_instances_def o_def)
  then have use_: "sum_list (map row_relevant rows) = int M"
    using relevant_concat [of "map snd (fan_instances n nTopics)" "int nTopics" "int M"] relevant_topicNames [of nTopics M] assms(1-3)
    by (simp add: rows fan_row_of_def o_def)
  have "row_relevant (last rows) = 0" by (simp add: rows fan_instances_def fan_row_of_def relevant_def)
  moreover have "(of_nat M :: 64 word) \<noteq> 0" using small assms(1) by (auto simp: word_of_nat_eq_0_iff dest: dvd_imp_le)
  moreover have "last rows \<in> set rows" using len by (intro last_in_set) auto
  ultimately have "row_waste (last rows) = AllWaste"
    using h by (simp add: row_waste_def word_gt_0)
  with tot use_ show ?thesis by (simp add: fan_totals_def Let_def distrib_right)
qed

text \<open>
  A measurement that was read too early. When the instances had handled fewer messages than were meant
  for them by the time the counters are read, the discarded messages of the report wrap around to
  a number near \<open>2 ^ 64\<close>.
\<close>

theorem discarded_wraps:
  assumes "fan_totals rows = (h, u, d)" and "0 \<le> u" "u < 2 ^ 63" and "uint h < u"
  shows "uint d = 2 ^ 64 - (u - uint h)"
proof -
  from assms(1) have d: "d = h - word_of_int u" by (auto simp: fan_totals_def Let_def)
  have u: "uint (word_of_int u :: 64 word) = u" using assms(2,3) by (simp add: uint_word_of_int)
  show ?thesis using assms(2-4) uint_sub_if' [of h "word_of_int u"] by (simp add: d u)
qed

definition one_inst :: "string \<Rightarrow> fan_counters" where
  "one_inst name = \<lparr>fc_handled = 7, fc_published = 0\<rparr>"

theorem report_totals_witness:
  "fan_totals (map (fan_row_of (\<lambda>_. \<lparr>fc_handled = 2, fc_published = 0\<rparr>) one_inst (int 3) (int 5)) (fan_instances 2 3)) = (15, 5, 10)"
  using report_totals [of 2 3 _ "\<lambda>_. \<lparr>fc_handled = 2, fc_published = 0\<rparr>" one_inst 5, OF _ _ _ refl]
  by (simp add: one_inst_def max_int64_def)

theorem discarded_wraps_witness:
  "uint (snd (snd (fan_totals [\<lparr>row_name = ''inst-0'', row_topics = 1, row_handled = 3, row_relevant = 5\<rparr>]))) = 2 ^ 64 - 2"
proof -
  let ?rows = "[\<lparr>row_name = ''inst-0'', row_topics = 1, row_handled = 3, row_relevant = 5\<rparr>]"
  have "fan_totals ?rows = (3, 5, snd (snd (fan_totals ?rows)))" by (simp add: fan_totals_def Let_def)
  from discarded_wraps [OF this] show ?thesis by simp
qed

section \<open>Sizes\<close>

definition humanBytes :: "64 word \<Rightarrow> string" where
  "humanBytes n =
     (if n \<ge> 2 ^ 30 then two_decimals (unat n) 30 @ '' GiB''
      else if n \<ge> 2 ^ 20 then two_decimals (unat n) 20 @ '' MiB''
      else if n \<ge> 2 ^ 10 then two_decimals (unat n) 10 @ '' KiB''
      else FormatUint (unat n) @ '' B'')"

lemma humanBytes_exact:
  assumes "k < 2 ^ 10"
  shows "humanBytes (of_nat k) = FormatUint k @ '' B''"
    and "0 < k \<Longrightarrow> humanBytes (of_nat (k * 2 ^ 10)) = FormatUint k @ ''.00 KiB''"
proof -
  have u: "unat (of_nat m :: 64 word) = m" if "m < 2 ^ 64" for m using that by (simp add: unat_of_nat take_bit_nat_eq_self)
  have "k < 2 ^ 64" using assms by simp
  then show "humanBytes (of_nat k) = FormatUint k @ '' B''"
    using assms u [of k] by (simp add: humanBytes_def word_le_nat_alt)
  assume k: "0 < k"
  have b: "k * 2 ^ 10 < 2 ^ 20" "2 ^ 10 \<le> k * 2 ^ 10" using assms k by simp_all
  then have n: "unat (of_nat (k * 2 ^ 10) :: 64 word) = k * 2 ^ 10" by (intro u) simp
  have "round53 (k * 2 ^ 10) = k * 2 ^ 10" using b by (intro round53_exact) simp
  moreover have "half_even (100 * (k * 2 ^ 10)) (2 ^ 10) = 100 * k"
    using half_even_exact [of "2 ^ 10" "100 * k"] by (simp add: mult.assoc)
  moreover have "FormatUint 0 = ''0''" by (simp add: FormatUint.simps digit_char_eval)
  ultimately have "two_decimals (k * 2 ^ 10) 10 = FormatUint k @ ''.00''" by (simp add: two_decimals_def Let_def)
  then show "humanBytes (of_nat (k * 2 ^ 10)) = FormatUint k @ ''.00 KiB''"
    using b n unfolding humanBytes_def word_le_nat_alt by simp
qed

section \<open>The sections of the report\<close>

text \<open>
  What is printed, with the numbers the lines are made of: the rows by name, the totals, the view of
  Redis, the cost of a discard with its projection, the projected egress (bytes, messages and
  instances), and the verdict. The times of the fan-out and of the publishing, which only
  scale the printed numbers, are left out.
\<close>

datatype report_section =
    PerInstance "(fan_row \<times> waste) list"
  | Totals int "64 word" int "64 word"
  | RedisSide string string "64 word"
  | DiscardCost "64 word"
  | Egress "64 word" int nat
  | CpuVerdict

text \<open>The loop over the instances keeps the count of the one named \<^verbatim>\<open>idle\<close>.\<close>

definition idleHandled :: "fan_row list \<Rightarrow> 64 word" where
  "idleHandled rows = fold (\<lambda>r n. if row_name r = ''idle'' then row_handled r else n) rows 0"

definition fan_report ::
  "(string \<Rightarrow> fan_counters) \<Rightarrow> (string \<Rightarrow> fan_counters) \<Rightarrow> (string \<times> string list) list \<Rightarrow> int \<Rightarrow> int
    \<Rightarrow> redisStats \<Rightarrow> redisStats \<Rightarrow> report_section list" where
  "fan_report base now insts nTopics nMessages rBefore rAfter =
     (let rows = map (fan_row_of base now nTopics nMessages) insts;
          (handled, useful, discarded) = fan_totals rows;
          idle = idleHandled rows;
          out = outputBytes rAfter - outputBytes rBefore in
      [PerInstance (map (\<lambda>r. (r, row_waste r)) (sort_key row_name rows)), Totals nMessages handled useful discarded]
      @ (if out > 0 then [RedisSide (humanBytes out) (humanBytes (out div word_of_int (max nMessages 1))) (commands rAfter - commands rBefore)]
         else [])
      @ (if idle > 0 then [DiscardCost idle] else [])
      @ (if out > 0 \<and> nMessages > 0 then [Egress out nMessages (length insts)] else [])
      @ (if idle > 0 then [CpuVerdict] else []))"

lemma idleHandled_last: "\<forall>r \<in> set rows. row_name r = ''idle'' \<longrightarrow> row_handled r = k \<Longrightarrow> \<exists>r \<in> set rows. row_name r = ''idle'' \<Longrightarrow>
    idleHandled rows = k"
proof -
  have "fold (\<lambda>r n. if row_name r = ''idle'' then row_handled r else n) rows n = (if \<exists>r \<in> set rows. row_name r = ''idle'' then k else n)"
    if "\<forall>r \<in> set rows. row_name r = ''idle'' \<longrightarrow> row_handled r = k" for n
    using that by (induction rows arbitrary: n) auto
  then show "\<forall>r \<in> set rows. row_name r = ''idle'' \<longrightarrow> row_handled r = k \<Longrightarrow> \<exists>r \<in> set rows. row_name r = ''idle'' \<Longrightarrow>
      idleHandled rows = k" by (simp add: idleHandled_def)
qed

text \<open>
  The report of a complete measurement, section by section. When every instance handled each published
  message once, the report lists the row of every instance in the order of their names, gives the
  totals of the measurement, and judges the cost of a discard by all the messages of the idle instance.
\<close>

theorem report_of_measurement:
  fixes n nTopics :: nat
  assumes "0 < n" "n \<le> nTopics" "int nTopics \<le> max_int64"
    and handled: "\<forall>p \<in> set (fan_instances n nTopics). fc_handled (now (fst p)) = fc_handled (base (fst p)) + of_nat M"
    and small: "0 < M" "(n + 1) * M < 2 ^ 64"
  shows "\<exists>rs rest. fan_report base now (fan_instances n nTopics) (int nTopics) (int M) before after
      = PerInstance rs # Totals (int M) (of_nat ((n + 1) * M)) (int M) (of_nat (n * M)) # rest
    \<and> mset (map fst rs) = mset (map (fan_row_of base now (int nTopics) (int M)) (fan_instances n nTopics))
    \<and> sorted (map (\<lambda>p. row_name (fst p)) rs) \<and> DiscardCost (of_nat M) \<in> set rest"
proof -
  define rows where "rows = map (fan_row_of base now (int nTopics) (int M)) (fan_instances n nTopics)"
  let ?rs = "map (\<lambda>r. (r, row_waste r)) (sort_key row_name rows)"
  have tot: "fan_totals rows = (of_nat ((n + 1) * M), int M, of_nat (n * M))"
    using report_totals [OF assms(1-3) rows_def handled small] by blast
  have idle: "idleHandled rows = of_nat M"
    using handled by (intro idleHandled_last) (auto simp: rows_def fan_row_of_def fan_instances_def)
  moreover have "(of_nat M :: 64 word) > 0"
    using small assms(1) by (auto simp: word_gt_0 word_of_nat_eq_0_iff dest: dvd_imp_le)
  ultimately have "\<exists>rest. fan_report base now (fan_instances n nTopics) (int nTopics) (int M) before after
      = PerInstance ?rs # Totals (int M) (of_nat ((n + 1) * M)) (int M) (of_nat (n * M)) # rest \<and> DiscardCost (of_nat M) \<in> set rest"
    unfolding fan_report_def rows_def [symmetric] Let_def tot by simp
  moreover have "mset (map fst ?rs) = mset rows" "sorted (map (\<lambda>p. row_name (fst p)) ?rs)" by (simp_all add: o_def)
  ultimately show ?thesis unfolding rows_def [symmetric] by blast
qed

theorem report_of_measurement_witness:
  "\<exists>rs rest. fan_report (\<lambda>_. \<lparr>fc_handled = 2, fc_published = 0\<rparr>) one_inst (fan_instances 2 3) 3 5
      \<lparr>outputBytes = 0, commands = 0\<rparr> \<lparr>outputBytes = 0, commands = 0\<rparr> = PerInstance rs # Totals 5 15 5 10 # rest"
  using report_of_measurement [of 2 3 one_inst "\<lambda>_. \<lparr>fc_handled = 2, fc_published = 0\<rparr>" 5
      "\<lparr>outputBytes = 0, commands = 0\<rparr>" "\<lparr>outputBytes = 0, commands = 0\<rparr>"]
  by (auto simp: one_inst_def max_int64_def)

text \<open>
  Statistics that could not be read. When Redis does not answer the second \<^verbatim>\<open>INFO\<close>, its statistics count as
  zero and the bytes pushed out are reported as the wrapped difference.
\<close>

lemma failed_stats_wrap:
  assumes "outputBytes before > 0"
  shows "RedisSide (humanBytes (- outputBytes before)) (humanBytes ((- outputBytes before) div word_of_int (max nMessages 1)))
      (- commands before) \<in> set (fan_report base now insts nTopics nMessages before (readRedisStats (Inl e)))"
  using assms by (simp add: fan_report_def readRedisStats_def Let_def word_gt_0 case_prod_beta)

end
