(* ===== verification/LoadTest.thy ===== *)
theory LoadTest
  imports Protocol Floats "HOL-Library.AList"
begin

text \<open>
  The load generator \<^verbatim>\<open>cmd/wsload/main.go\<close> and the interactive client \<^verbatim>\<open>cmd/wsprobe/main.go\<close>. A run
  is a function of what the sockets, the clock and the signals do, to its error or report and the
  list of its effects. The theorems show that the generator understands the server's frames, that
  its accounting is right for a run that was not interrupted, and that its percentiles are
  elements of the measured latencies, in order.
\<close>

section \<open>Frames\<close>

text \<open>The address and the headers of a dial.\<close>

definition load_dial :: "string \<Rightarrow> string \<Rightarrow> string \<Rightarrow> string \<times> (string \<times> string list) list" where
  "load_dial url token uk =
     (url @ ''?userKey='' @ uk, if token = [] then [] else [(''Authorization'', [''Bearer '' @ token])])"

text \<open>\<open>sent\<close> is the clock in nanoseconds.\<close>

definition load_data :: "nat \<Rightarrow> int \<Rightarrow> string \<Rightarrow> json" where
  "load_data i sent filler = JObj [(''filler'', JStr filler), (''sent'', json_int sent), (''seq'', json_int (int i))]"

definition load_publish :: "string \<Rightarrow> json \<Rightarrow> json" where
  "load_publish topic dat = JObj [(''data'', dat), (''topic'', JStr topic), (''type'', JStr ''publish'')]"

definition load_subscribe :: "string \<Rightarrow> json" where
  "load_subscribe topic = JObj [(''topic'', JStr topic), (''type'', JStr ''subscribe'')]"

text \<open>The nested struct \<^verbatim>\<open>Data\<close> of \<^verbatim>\<open>readLoop\<close>: a later object overwrites the fields it has.\<close>

fun dec_sent :: "json list \<Rightarrow> int \<Rightarrow> int option" where
  "dec_sent [] acc = Some acc"
| "dec_sent (j # js) acc =
     (case j of
        JObj kvs \<Rightarrow> (case dec_int (matching ''sent'' kvs) acc of None \<Rightarrow> None | Some n \<Rightarrow> dec_sent js n)
      | JNull \<Rightarrow> dec_sent js acc
      | _ \<Rightarrow> None)"

text \<open>The time of sending in a frame, if it is a delivery with one.\<close>

definition delivery_sent :: "blob \<Rightarrow> int option" where
  "delivery_sent raw =
     (case object_fields raw of
        None \<Rightarrow> None
      | Some kvs \<Rightarrow>
          (case (dec_string (matching ''type'' kvs) [], dec_sent (matching ''data'' kvs) 0) of
             (Some ty, Some sent) \<Rightarrow> if ty \<noteq> ''publish'' \<or> sent = 0 then None else Some sent
           | _ \<Rightarrow> None))"

record load_result =
  latencies :: "int list"
  received :: int

definition load_record :: "int \<Rightarrow> load_result \<Rightarrow> load_result" where
  "load_record d r = r\<lparr>received := received r + 1, latencies := latencies r @ [d]\<rparr>"

text \<open>The reader of one subscriber over the frames until its socket ends, each with the clock at its arrival.\<close>

fun readLoop :: "(int \<times> blob) list \<Rightarrow> load_result \<Rightarrow> load_result" where
  "readLoop [] r = r"
| "readLoop ((now, raw) # fs) r =
     (case delivery_sent raw of None \<Rightarrow> readLoop fs r | Some sent \<Rightarrow> readLoop fs (load_record (now - sent) r))"

text \<open>The reader of the publisher's replies: the rejections and how often each reason was given.\<close>

definition reply_error :: "blob \<Rightarrow> string option" where
  "reply_error raw =
     (case object_fields raw of
        None \<Rightarrow> None
      | Some kvs \<Rightarrow>
          (case (dec_string (matching ''type'' kvs) [], dec_string (matching ''message'' kvs) []) of
             (Some ty, Some msg) \<Rightarrow> if ty = ''error'' then Some msg else None
           | _ \<Rightarrow> None))"

fun read_replies :: "blob list \<Rightarrow> int \<times> (string \<times> int) list \<Rightarrow> int \<times> (string \<times> int) list" where
  "read_replies [] p = p"
| "read_replies (raw # fs) (rejected, reasons) =
     (case reply_error raw of
        None \<Rightarrow> read_replies fs (rejected, reasons)
      | Some msg \<Rightarrow>
          read_replies fs (rejected + 1,
            AList.update msg ((case map_of reasons msg of None \<Rightarrow> 0 | Some k \<Rightarrow> k) + 1) reasons))"

section \<open>A run\<close>

record load_env =
  le_dial :: "string \<Rightarrow> goerr option"
  le_subscribe :: "string \<Rightarrow> goerr option"
  le_ctxErr :: "nat \<Rightarrow> bool"
  le_publish :: "nat \<Rightarrow> goerr option"
  le_replies :: "blob list"
  le_frames :: "(int \<times> blob) list"

datatype load_effect = LDialled string | LSubscribed string | LPublished nat | LClosed string

text \<open>
  The connect loop. Its calls to \<^verbatim>\<open>Close\<close> are deferred only after it, so an error here leaves the
  sockets open that were dialled before.
\<close>

fun connect_all :: "load_env \<Rightarrow> nat list \<Rightarrow> goerr option \<times> string list \<times> load_effect list" where
  "connect_all E [] = (None, [], [])"
| "connect_all E (i # is) =
     (let uk = ''sub-'' @ FormatUint i in
      case le_dial E uk of
        Some e \<Rightarrow> (Some (Wrap (''subscriber '' @ FormatUint i @ '': '') e []), [], [])
      | None \<Rightarrow>
          (case le_subscribe E uk of
             Some e \<Rightarrow> (Some (Wrap (''subscriber '' @ FormatUint i @ '' subscribe: '') e []), [uk], [LDialled uk])
           | None \<Rightarrow> (case connect_all E is of
               (e, conns, tr) \<Rightarrow> (e, uk # conns, LDialled uk # LSubscribed uk # tr))))"

text \<open>The publish loop: it breaks off when the context is cancelled.\<close>

fun publish_loop :: "load_env \<Rightarrow> nat list \<Rightarrow> goerr option \<times> load_effect list" where
  "publish_loop E [] = (None, [])"
| "publish_loop E (i # is) =
     (if le_ctxErr E i then (None, [])
      else case le_publish E i of
          Some e \<Rightarrow> (Some (Wrap (''publish '' @ FormatUint i @ '': '') e []), [])
        | None \<Rightarrow> (case publish_loop E is of (e, tr) \<Rightarrow> (e, LPublished i # tr)))"

record load_report =
  lr_messages :: int
  lr_accepted :: int
  lr_expected :: int
  lr_got :: int
  lr_lost :: int
  lr_latencies :: "int list"
  lr_reasons :: "(string \<times> int) list"

definition load_reporting :: "int \<Rightarrow> int \<Rightarrow> int \<times> (string \<times> int) list \<Rightarrow> load_result \<Rightarrow> load_report" where
  "load_reporting subscribers messages replies res =
     (let accepted = messages - fst replies; expected = wrap64 (subscribers * accepted) in
      \<lparr>lr_messages = messages, lr_accepted = accepted, lr_expected = expected, lr_got = received res,
       lr_lost = expected - received res, lr_latencies = sort (latencies res), lr_reasons = snd replies\<rparr>)"

text \<open>
  A negative number of subscribers or bytes panics in \<^verbatim>\<open>make\<close>, a rate above a billion per second in
  \<^verbatim>\<open>time.NewTicker\<close>, which refuses a period of zero.
\<close>

definition load_setup :: "int \<Rightarrow> int \<Rightarrow> goerr option" where
  "load_setup payloadBytes rate =
     (if payloadBytes < 0 then Some (Panic ''runtime error: makeslice: len out of range'')
      else if rate > 0 \<and> 1000000000 div rate = 0 then Some (Panic ''non-positive interval for NewTicker'')
      else None)"

definition load_run :: "load_env \<Rightarrow> int \<Rightarrow> int \<Rightarrow> int \<Rightarrow> int \<Rightarrow> load_report result \<times> load_effect list" where
  "load_run E subscribers messages rate payloadBytes =
     (if subscribers < 0 then (Inl (Panic ''runtime error: makeslice: cap out of range''), [])
      else
        let (e1, conns, tr1) = connect_all E [0..<nat subscribers]; closes = map LClosed conns in
        case e1 of
          Some e \<Rightarrow> (Inl e, tr1)
        | None \<Rightarrow>
            (case le_dial E ''publisher'' of
               Some e \<Rightarrow> (Inl (Wrap ''publisher: '' e []), tr1 @ closes)
             | None \<Rightarrow>
                 let tr2 = tr1 @ [LDialled ''publisher''] in
                 case load_setup payloadBytes rate of
                   Some e \<Rightarrow> (Inl e, tr2 @ [LClosed ''publisher''] @ closes)
                 | None \<Rightarrow>
                     let (e3, tr3) = publish_loop E [0..<nat messages] in
                     case e3 of
                       Some e \<Rightarrow> (Inl e, tr2 @ tr3 @ [LClosed ''publisher''] @ closes)
                     | None \<Rightarrow>
                         (Inr (load_reporting subscribers messages (read_replies (le_replies E) (0, []))
                            (readLoop (le_frames E) \<lparr>latencies = [], received = 0\<rparr>)),
                          tr2 @ tr3 @ [LClosed ''publisher''] @ closes @ [LClosed ''publisher''] @ closes)))"

section \<open>The generator and the server understand each other\<close>

text \<open>
  The frames fit. A message of the generator is a well-formed publish envelope for the server, with the
  payload as its data; the frame the server delivers for it, live or replayed, is recorded with the
  time it was sent; an error frame of the server is counted as a rejection with its message, and a
  success frame is neither.
\<close>

theorem load_frames_fit:
  assumes "0 < sent" "sent \<le> max_int64" and "filler = replicate k (CHR ''x'')"
  shows "(\<exists>env. unmarshal_Envelope (Json (load_publish topic (load_data i sent filler))) = Some env \<and> Type env = TypePublish
        \<and> Topic env = topic \<and> Data env = Some (load_data i sent filler))
    \<and> delivery_sent (Json (EncodePublish topic (Some (load_data i sent filler)) sid replayed)) = Some sent
    \<and> reply_error (Json (EncodeError rid msg)) = Some msg
    \<and> reply_error (Json (EncodeSuccess rid msg)) = None \<and> delivery_sent (Json (EncodeSuccess rid msg)) = None"
proof -
  have "FormatInt sent = FormatUint (nat sent)" "ParseInt (FormatUint (nat sent)) = (sent, None)"
    using assms(1,2) by (simp_all add: FormatInt_def ParseInt_FormatUint)
  then show ?thesis using assms(1)
    by (cases "sid = []"; cases replayed; cases "rid = []")
      (simp_all add: unmarshal_Envelope_def load_publish_def load_data_def object_fields_def delivery_sent_def EncodePublish_def
        reply_error_def EncodeError_def EncodeSuccess_def marshal_raw_def ToLower_def lower_char_def dec_raw_def Type_defs json_int_def Let_def)
qed

theorem load_frames_fit_witness:
  "delivery_sent (Json (EncodePublish ''t'' (Some (load_data 3 1700000000 ''xx'')) ''1-0'' False)) = Some 1700000000"
  using load_frames_fit [of 1700000000 "''xx''" 2 "''t''" 3 "''1-0''" False "[]" "[]"]
  by (simp add: max_int64_def numeral_2_eq_2)

section \<open>Accounting\<close>

lemma readLoop_counts:
  "received (readLoop fs r) = received r + int (length (filter (\<lambda>f. delivery_sent (snd f) \<noteq> None) fs))
   \<and> length (latencies (readLoop fs r)) = length (latencies r) + length (filter (\<lambda>f. delivery_sent (snd f) \<noteq> None) fs)"
  by (induction fs r rule: readLoop.induct) (auto simp: load_record_def split: option.splits)

lemma sum_values_update:
  "distinct (map fst xs) \<Longrightarrow>
     sum_list (map snd (AList.update k (v + (case map_of xs k of None \<Rightarrow> 0 | Some (n::int) \<Rightarrow> n)) xs)) = sum_list (map snd xs) + v"
  by (induction xs) (auto split: option.splits dest: map_of_SomeD)

lemma read_replies_counts:
  assumes "distinct (map fst (snd p))" and "sum_list (map snd (snd p)) = fst p"
  shows "distinct (map fst (snd (read_replies fs p)))
    \<and> sum_list (map snd (snd (read_replies fs p))) = fst (read_replies fs p)
    \<and> fst (read_replies fs p) = fst p + int (length (filter (\<lambda>raw. reply_error raw \<noteq> None) fs))"
  using assms
proof (induction fs p rule: read_replies.induct)
  case (1 p)
  then show ?case by simp
next
  case (2 raw fs rejected reasons)
  show ?case
  proof (cases "reply_error raw")
    case None
    with 2 show ?thesis by simp
  next
    case (Some msg)
    let ?r = "AList.update msg ((case map_of reasons msg of None \<Rightarrow> 0 | Some k \<Rightarrow> k) + 1) reasons"
    have "sum_list (map snd ?r) = rejected + 1"
      using sum_values_update [of reasons msg 1] 2(3,4) by (simp add: add.commute)
    with 2(2) [OF Some] 2(3) Some show ?thesis by (simp add: distinct_update)
  qed
qed

text \<open>What a run sees of its own messages.\<close>

definition load_published :: "load_effect list \<Rightarrow> nat" where
  "load_published tr = length (filter (\<lambda>f. case f of LPublished i \<Rightarrow> True | _ \<Rightarrow> False) tr)"

lemma load_published_simps [simp]:
  "load_published [] = 0" "load_published (a @ b) = load_published a + load_published b" "load_published (LPublished i # tr) = Suc (load_published tr)"
  "load_published (LDialled u # tr) = load_published tr" "load_published (LSubscribed u # tr) = load_published tr" "load_published (LClosed u # tr) = load_published tr"
  "load_published (map LClosed us) = 0"
  by (simp_all add: load_published_def filter_map o_def)

lemma connect_all_published: "connect_all E is = (e, conns, tr) \<Longrightarrow> load_published tr = 0"
  by (induction E "is" arbitrary: e conns tr rule: connect_all.induct)
    (auto simp: Let_def split: option.splits prod.splits)

text \<open>The messages before the context is cancelled.\<close>

lemma publish_loop_published:
  "publish_loop E is = (None, tr) \<Longrightarrow> load_published tr = length (takeWhile (\<lambda>i. \<not> le_ctxErr E i) is)"
  by (induction E "is" arbitrary: tr rule: publish_loop.induct) (auto split: option.splits prod.splits if_splits)

lemma load_run_Inr:
  assumes "load_run E subscribers messages rate payloadBytes = (Inr rep, tr)"
  shows "rep = load_reporting subscribers messages (read_replies (le_replies E) (0, []))
      (readLoop (le_frames E) \<lparr>latencies = [], received = 0\<rparr>)"
    and "load_published tr = length (takeWhile (\<lambda>i. \<not> le_ctxErr E i) [0..<nat messages])"
proof -
  obtain e1 conns tr1 where c: "connect_all E [0..<nat subscribers] = (e1, conns, tr1)" by (metis prod_cases3)
  obtain e3 tr3 where p: "publish_loop E [0..<nat messages] = (e3, tr3)" by fastforce
  from assms c p have e: "e1 = None" "le_dial E ''publisher'' = None" "load_setup payloadBytes rate = None" "e3 = None"
    by (auto simp: load_run_def Let_def split: if_splits option.splits)
  with assms c p show "rep = load_reporting subscribers messages (read_replies (le_replies E) (0, []))
      (readLoop (le_frames E) \<lparr>latencies = [], received = 0\<rparr>)"
    by (auto simp: load_run_def Let_def split: if_splits)
  from assms c p e have "tr = tr1 @ [LDialled ''publisher''] @ tr3 @ [LClosed ''publisher''] @ map LClosed conns @ [LClosed ''publisher''] @ map LClosed conns"
    by (auto simp: load_run_def Let_def split: if_splits)
  then show "load_published tr = length (takeWhile (\<lambda>i. \<not> le_ctxErr E i) [0..<nat messages])"
    using connect_all_published [OF c] publish_loop_published [of E _ tr3] p e by simp
qed

text \<open>
  The accounting of a load run. In the report of a run that returned one, the rejections add up over
  their reasons, the deliveries received are the measured latencies, and every message not rejected
  is expected at every subscriber. So the loss is zero when each subscriber received each message
  the server took, provided the run published all of its messages; a run that was interrupted
  counts every message it never published as lost at every subscriber.
\<close>

theorem load_accounting:
  assumes run: "load_run E subscribers messages rate payloadBytes = (Inr rep, tr)"
    and rej: "k = length (filter (\<lambda>raw. reply_error raw \<noteq> None) (le_replies E))"
    and all: "int (length (filter (\<lambda>f. delivery_sent (snd f) \<noteq> None) (le_frames E))) = subscribers * (int (load_published tr) - int k)"
    and small: "0 \<le> messages" "min_int64 \<le> subscribers * (messages - int k)" "subscribers * (messages - int k) \<le> max_int64"
  shows "sum_list (map snd (lr_reasons rep)) = int k \<and> lr_accepted rep = messages - int k
    \<and> int (length (lr_latencies rep)) = lr_got rep \<and> sorted (lr_latencies rep)
    \<and> lr_lost rep = subscribers * (messages - int (load_published tr))
    \<and> ((\<forall>i < nat messages. \<not> le_ctxErr E i) \<longrightarrow> lr_lost rep = 0)"
proof -
  note r = load_run_Inr [OF run]
  note rr = read_replies_counts [of "(0, [])" "le_replies E"]
  note rl = readLoop_counts [of "le_frames E" "\<lparr>latencies = [], received = 0\<rparr>"]
  have acc: "fst (read_replies (le_replies E) (0, [])) = int k" using rr rej by simp
  have lost: "lr_lost rep = subscribers * (messages - int (load_published tr))"
    using acc rl all wrap64_id [OF small(2,3)] by (simp add: r(1) load_reporting_def Let_def right_diff_distrib)
  have "load_published tr = nat messages" if "\<forall>i < nat messages. \<not> le_ctxErr E i"
  proof -
    have all: "takeWhile (\<lambda>i. \<not> le_ctxErr E i) [0..<nat messages] = [0..<nat messages]"
      using that by (simp add: takeWhile_eq_all_conv)
    show ?thesis unfolding r(2) all by simp
  qed
  then have "(\<forall>i < nat messages. \<not> le_ctxErr E i) \<longrightarrow> lr_lost rep = 0" using lost small(1) by auto
  then show ?thesis using lost acc rr rl by (simp add: r(1) load_reporting_def Let_def)
qed

definition quiet_env :: load_env where
  "quiet_env = \<lparr>le_dial = (\<lambda>_. None), le_subscribe = (\<lambda>_. None), le_ctxErr = (\<lambda>i. i \<ge> 1), le_publish = (\<lambda>_. None),
     le_replies = [], le_frames = [(5, Json (EncodePublish ''t'' (Some (load_data 0 3 [])) ''1-0'' False))]\<rparr>"

text \<open>One subscriber, two messages, interrupted after the first, which was delivered.\<close>

theorem load_accounting_witness:
  "\<exists>rep tr. load_run quiet_env 1 2 0 0 = (Inr rep, tr) \<and> load_published tr = 1 \<and> lr_lost rep = 1 \<and> lr_got rep = 1"
proof -
  let ?r = "load_run quiet_env 1 2 0 0"
  have up: "[0..<2] = [0, 1::nat]" by (simp add: upt_rec)
  have d: "delivery_sent (Json (EncodePublish ''t'' (Some (load_data 0 3 [])) ''1-0'' False)) = Some 3"
    using load_frames_fit [of 3 "[]" 0 "''t''" 0 "''1-0''" False] by (simp add: max_int64_def)
  have "\<exists>rep tr. ?r = (Inr rep, tr) \<and> load_published tr = 1"
    by (simp add: load_run_def load_setup_def quiet_env_def Let_def up)
  then obtain rep tr where r: "?r = (Inr rep, tr)" "load_published tr = 1" by blast
  have fr: "filter (\<lambda>f. delivery_sent (snd f) \<noteq> None) (le_frames quiet_env) = le_frames quiet_env"
    using d by (simp add: quiet_env_def)
  have "lr_lost rep = 1 \<and> int (length (lr_latencies rep)) = lr_got rep"
    using load_accounting [OF r(1) refl] r(2) fr by (simp add: quiet_env_def min_int64_def max_int64_def)
  moreover have "lr_got rep = 1"
    using load_run_Inr(1) [OF r(1)] readLoop_counts [of "le_frames quiet_env" "\<lparr>latencies = [], received = 0\<rparr>"] fr
    by (simp add: load_reporting_def Let_def quiet_env_def)
  ultimately show ?thesis using r by blast
qed

text \<open>
  A subscriber that cannot connect. When the dial of one subscriber fails the run returns the error, and
  none of the sockets opened before is closed.
\<close>

lemma connect_all_open:
  "connect_all E is = (e, conns, tr) \<Longrightarrow> LClosed u \<notin> set tr \<and> (\<forall>u \<in> set conns. LDialled u \<in> set tr)"
  by (induction E "is" arbitrary: e conns tr rule: connect_all.induct)
    (auto simp: Let_def split: option.splits prod.splits)

theorem failed_connect_leaves_sockets_open:
  assumes "load_run E subscribers messages rate payloadBytes = (Inl e, tr)" and "0 \<le> subscribers"
    and "connect_all E [0..<nat subscribers] = (Some e', conns, tr')"
  shows "e = e' \<and> (\<forall>u \<in> set conns. LDialled u \<in> set tr \<and> LClosed u \<notin> set tr)"
proof -
  have "e = e'" "tr = tr'" using assms by (simp_all add: load_run_def)
  with connect_all_open [OF assms(3)] show ?thesis by blast
qed

theorem failed_connect_leaves_sockets_open_witness:
  "let tr = snd (load_run (quiet_env\<lparr>le_dial := (\<lambda>u. if u = ''sub-1'' then Some (Err ''refused'') else None)\<rparr>) 2 1 0 0)
   in LDialled ''sub-0'' \<in> set tr \<and> LClosed ''sub-0'' \<notin> set tr"
proof -
  let ?E = "quiet_env\<lparr>le_dial := (\<lambda>u. if u = ''sub-1'' then Some (Err ''refused'') else None)\<rparr>"
  have c: "connect_all ?E [0..<nat 2] = (Some (Wrap ''subscriber 1: '' (Err ''refused'') []), [''sub-0''], [LDialled ''sub-0'', LSubscribed ''sub-0''])"
    by (simp add: upt_rec quiet_env_def FormatUint.simps digit_char_eval Let_def)
  then have "load_run ?E 2 1 0 0 = (Inl (Wrap ''subscriber 1: '' (Err ''refused'') []), snd (load_run ?E 2 1 0 0))"
    by (simp add: load_run_def)
  from failed_connect_leaves_sockets_open [OF this _ c] show ?thesis by simp
qed

section \<open>Percentiles\<close>

text \<open>The constants 0.50, 0.90, 0.99, 0.999 and 1.0 as \<^verbatim>\<open>float64\<close>, in units of \<open>2 ^ -53\<close>.\<close>

definition quantiles :: "(string \<times> nat) list" where
  "quantiles = [(''p50'', 4503599627370496), (''p90'', 8106479329266893), (''p99'', 8917127262193582),
     (''p999'', 8998192055486251), (''max'', 9007199254740992)]"

text \<open>An index out of range panics.\<close>

definition percentile :: "int list \<Rightarrow> nat \<Rightarrow> int result" where
  "percentile lat q =
     (let i = trunc_mul q (length lat - 1) in
      if i < length lat then Inr (lat ! i) else Inl (Panic ''runtime error: index out of range''))"

definition percentiles :: "int list \<Rightarrow> (string \<times> int result) list" where
  "percentiles lat = (if lat = [] then [] else map (\<lambda>(name, q). (name, percentile lat q)) quantiles)"

lemma percentile_ok:
  assumes "lat \<noteq> []" "length lat \<le> 2 ^ 53" "q \<le> 2 ^ 53"
  shows "percentile lat q = Inr (lat ! trunc_mul q (length lat - 1))" and "trunc_mul q (length lat - 1) < length lat"
proof -
  have "length lat - 1 < 2 ^ 53" using assms(1,2) by (cases lat) simp_all
  from trunc_mul_le [OF assms(3) this] assms(1) show "trunc_mul q (length lat - 1) < length lat"
    by (cases lat) simp_all
  then show "percentile lat q = Inr (lat ! trunc_mul q (length lat - 1))" by (simp add: percentile_def)
qed

text \<open>
  The percentiles of a report (C40). For up to \<open>2 ^ 53\<close> latencies, with the rounding of the floating-point
  product, no index is out of range, every percentile is one of the latencies, they grow from the
  median to the maximum, and the last one is the greatest latency.
\<close>

theorem percentiles_in_order:
  assumes ne: "res \<noteq> []" and len: "length res \<le> 2 ^ 53"
  shows "\<exists>p50 p90 p99 p999. percentiles (sort res) = [(''p50'', Inr p50), (''p90'', Inr p90), (''p99'', Inr p99),
        (''p999'', Inr p999), (''max'', Inr (Max (set res)))]
      \<and> p50 \<le> p90 \<and> p90 \<le> p99 \<and> p99 \<le> p999 \<and> p999 \<le> Max (set res) \<and> {p50, p90, p99, p999} \<subseteq> set res"
proof -
  let ?l = "sort res" and ?i = "\<lambda>q. trunc_mul q (length res - 1)"
  have eq: "length ?l = length res" by simp
  then have l: "?l \<noteq> []" "length ?l \<le> 2 ^ 53" using ne by (metis length_0_conv) (simp only: eq len)
  have p: "percentile ?l q = Inr (?l ! ?i q)" "?i q < length res" if "q \<le> 2 ^ 53" for q
    using percentile_ok [OF l that] by simp_all
  have mono: "?l ! ?i q \<le> ?l ! ?i q'" if "q \<le> q'" "q' \<le> 2 ^ 53" for q q'
    using trunc_mul_mono [OF that(1)] p(2) [OF that(2)] by (intro sorted_nth_mono) simp_all
  have mem: "?l ! ?i q \<in> set res" if "q \<le> 2 ^ 53" for q
    using nth_mem [of "?i q" ?l] p(2) [OF that] by simp
  have top: "?i (2 ^ 53) = length res - 1" using len ne by (intro trunc_mul_one) (cases res, simp_all)
  have "?l ! (length res - 1) = Max (set res)"
  proof (rule Max_eqI [symmetric])
    show "x \<le> ?l ! (length res - 1)" if "x \<in> set res" for x
    proof -
      from that obtain j where j: "j < length ?l" "x = ?l ! j" by (metis in_set_conv_nth set_sort)
      then show ?thesis using ne by (auto intro!: sorted_nth_mono)
    qed
    show "?l ! (length res - 1) \<in> set res" using nth_mem [of "length res - 1" ?l] ne by simp
  qed simp
  with top p(1) [of "2 ^ 53"] have mx: "percentile ?l 9007199254740992 = Inr (Max (set res))" "?l ! ?i 9007199254740992 = Max (set res)"
    by simp_all
  show ?thesis
    using l(1) p(1) mx mono [of 4503599627370496 8106479329266893] mono [of 8106479329266893 8917127262193582]
      mono [of 8917127262193582 8998192055486251] mono [of 8998192055486251 9007199254740992] mem
    by (simp add: percentiles_def quantiles_def)
qed

theorem percentiles_in_order_witness: "\<exists>p50 p90 p99 p999. percentiles (sort [7, 3, 5]) =
    [(''p50'', Inr p50), (''p90'', Inr p90), (''p99'', Inr p99), (''p999'', Inr p999), (''max'', Inr 7)]"
proof -
  have "Max (set [7, 3, 5::int]) = 7" by simp
  with percentiles_in_order [of "[7, 3, 5]"] show ?thesis by auto
qed

section \<open>The probe\<close>

text \<open>The flags that are set replace what the URL's query says.\<close>

definition probe_query :: "string \<Rightarrow> string \<Rightarrow> bool \<Rightarrow> (string \<times> string list) list \<Rightarrow> (string \<times> string list) list" where
  "probe_query uk token keepAlive q =
     (let q1 = (if uk \<noteq> [] then AList.update ''userKey'' [uk] q else q);
          q2 = (if token \<noteq> [] then AList.update ''token'' [token] q1 else q1)
      in if keepAlive then AList.update ''keepAlive'' [''true''] q2 else q2)"

datatype probe_frame = PText string | PClose int string

text \<open>
  \<^verbatim>\<open>bufio.Scanner\<close> drops one carriage return at the end of a line and gives up on a line that does not fit
  into its buffer of \<open>2 ^ 20\<close> bytes.
\<close>

definition dropCR :: "string \<Rightarrow> string" where
  "dropCR line = (if line \<noteq> [] \<and> last line = char_of (13 :: nat) then butlast line else line)"

text \<open>The loop over the lines of the input: whether a write failed, and the frames written.\<close>

fun probe_stdin :: "(probe_frame \<Rightarrow> bool) \<Rightarrow> string list \<Rightarrow> bool \<times> probe_frame list" where
  "probe_stdin ok [] = (False, [])"
| "probe_stdin ok (line # ls) =
     (if length line \<ge> 2 ^ 20 then (False, [])
      else let t = dropCR line in
        if t = [] then probe_stdin ok ls
        else if \<not> ok (PText t) then (True, [])
        else case probe_stdin ok ls of (failed, fs) \<Rightarrow> (failed, PText t # fs))"

text \<open>\<open>parse\<close> and \<open>dial\<close> are the outcomes of \<^verbatim>\<open>url.Parse\<close> and of the dial: the exit code and the frames written.\<close>

definition probe_main :: "goerr option \<Rightarrow> goerr option \<Rightarrow> (probe_frame \<Rightarrow> bool) \<Rightarrow> string list \<Rightarrow> int \<times> probe_frame list" where
  "probe_main parse dial ok input =
     (if parse \<noteq> None then (2, [])
      else if dial \<noteq> None then (1, [])
      else case probe_stdin ok input of
          (True, fs) \<Rightarrow> (0, fs)
        | (False, fs) \<Rightarrow> (0, fs @ (if ok (PClose 1000 ''bye'') then [PClose 1000 ''bye''] else [])))"

text \<open>
  The probe sends what is typed. On a socket that accepts the writes, with lines that fit the buffer, the
  probe sends every line that is not empty, in order and without its carriage return, and then a
  close frame; the flags are what the server reads from the query.
\<close>

theorem probe_sends_lines:
  assumes "\<forall>line \<in> set input. length line < 2 ^ 20" and "\<forall>f. ok f"
  shows "probe_main None None ok input = (0, map PText (filter (\<lambda>t. t \<noteq> []) (map dropCR input)) @ [PClose 1000 ''bye''])
    \<and> (uk \<noteq> [] \<longrightarrow> map_of (probe_query uk token keepAlive q) ''userKey'' = Some [uk])
    \<and> (token \<noteq> [] \<longrightarrow> map_of (probe_query uk token keepAlive q) ''token'' = Some [token])
    \<and> (keepAlive \<longrightarrow> map_of (probe_query uk token keepAlive q) ''keepAlive'' = Some [''true''])"
proof -
  have "probe_stdin ok input = (False, map PText (filter (\<lambda>t. t \<noteq> []) (map dropCR input)))"
    using assms by (induction input) (simp_all add: Let_def)
  then show ?thesis using assms(2) by (simp add: probe_main_def probe_query_def update_conv' Let_def)
qed

theorem probe_sends_lines_witness:
  "snd (probe_main None None (\<lambda>_. True) [''a'', [], ''b'']) = [PText ''a'', PText ''b'', PClose 1000 ''bye'']"
proof -
  have "dropCR ''a'' = ''a''" "dropCR ''b'' = ''b''" "dropCR [] = []" by (simp_all add: dropCR_def char_of_def)
  with probe_sends_lines [of "[''a'', [], ''b'']" "\<lambda>_. True"] show ?thesis by simp
qed

end
