(* ===== verification/Spec2Isabelle.thy ===== *)
theory Spec2Isabelle
  imports AppRun Resume Acks RateLimit Locks SchedProps EndToEnd BusRun ConnMetrics Logger RedisHook Outbound StreamOrder Metrics Fanout LoadTest
begin

text \<open>
  \<^bold>\<open>A verification development of go-ws-server\<close>

  The program is a WebSocket server in Go. Any number of instances share one Redis; a client is
  connected to one of them, subscribes to topics, publishes, locks topics, acknowledges positions
  and schedules HTTP jobs. This root theory imports the whole development and holds no definitions
  of its own; the properties stand beside the definitions they are about.

  \<^bold>\<open>The parts and where they are modelled\<close>

  \<^item> \<open>Systems\<close>: the contracts several components share, as locales. A state machine with an invariant
    (interpreted by the connection, the bus, the instance, its metrics, the job store, the race of
    a replay and \<^verbatim>\<open>App.Run\<close>), an implementation that simulates a specification (the hub a set of sockets,
    the limiter its reference), and a task that is taken once (a due job).
  \<^item> \<open>Interleave\<close>: an operation of several Redis commands as a sequence of commands that other clients
    may interrupt anywhere. Two locales state what survives this: operations one after the other, each within
    an environment that respects a relation, simulate a specification (connection counts); and a pool
    of overlapping operations keeps an invariant that every single command keeps (locks, ack cursors).
  \<^item> \<open>Prelude\<close>, \<open>Json\<close>: Go errors as values with \<^verbatim>\<open>errors.Is\<close>, 64-bit wrap-around, the functions of
    \<^verbatim>\<open>strings\<close> and \<^verbatim>\<open>strconv\<close> the sources use, and JSON values with the decoding rules of
    \<^verbatim>\<open>encoding/json\<close> for the structs of the sources. A Go string is its bytes, on ASCII text.
  \<^item> \<open>Redis\<close>, \<open>RedisRef\<close>: the server as the sources see it. Redis is not part of the repository, so it
    is a parameter: a record of commands over a state \<open>'s\<close>, with a view of that state as a keyspace.
    The hypothesis \<open>documented net R v\<close> says that every command has its documented effect on the view;
    with \<open>net\<close> a command may also fail without an effect. \<open>RedisRef\<close> is a concrete server that
    satisfies it, on which the witnesses run.
  \<^item> \<open>StreamId\<close>, \<open>StreamOrder\<close> (\<^verbatim>\<open>bus/bus.go\<close>, \<^verbatim>\<open>internal/redisx/client.go\<close>): positions in a stream, \<^verbatim>\<open>since\<close>
    cursors, and the linear order of positions that both comparisons of the sources compute.
  \<^item> \<open>Locks\<close> (\<^verbatim>\<open>internal/redisx/locks.go\<close>): topic locks, as operations and as the sequences of
    their commands, which any number of holders interleave.
  \<^item> \<open>RateLimit\<close> (\<^verbatim>\<open>internal/ratelimit\<close>): the Lua script and its caller, against a reference
    sliding-window limiter.
  \<^item> \<open>Client\<close> (\<^verbatim>\<open>internal/redisx/client.go\<close>): connection counts, topic membership, ack cursors,
    the counts and cursors also as sequences of commands.
  \<^item> \<open>Protocol\<close>, \<open>Outbound\<close> (\<^verbatim>\<open>protocol/protocol.go\<close>): the inbound envelope, its validation, the outbound
    frames, and a client that decodes them.
  \<^item> \<open>Conn\<close>, \<open>Hub\<close> (\<^verbatim>\<open>internal/connection/hub.go\<close>): one connection with its queue, writer, reader and
    watchers, as methods and as a step relation that interleaves them; the table of connections, with
    connections in a heap because they are shared by pointer.
  \<^item> \<open>Subscriber\<close>, \<open>Judging\<close>, \<open>Bus\<close>, \<open>BusDelivery\<close>, \<open>ReplayRace\<close>, \<open>Resume\<close>, \<open>BusRun\<close> (\<^verbatim>\<open>bus/judge.go\<close>, \<^verbatim>\<open>bus/bus.go\<close>): the locales of
    what the bus needs of its subscribers and of the target of broadcasts, interpreted by the hub; routing decisions; publishing,
    fan-out, replay and trimming; the critical sections of a subscribe with replay as the steps of a
    relation, interleaved with publishes and announcements, and what a client can resume from; the listener and the trim loop over the
    events their selects take.
  \<^item> \<open>PathMatch\<close>, \<open>Authz\<close> (\<^verbatim>\<open>authz/authz.go\<close>): Go's \<^verbatim>\<open>path.Match\<close> and the rules on topics.
  \<^item> \<open>Ssrf\<close> (\<^verbatim>\<open>internal/ssrf/ssrf.go\<close>): the address parsers of package \<^verbatim>\<open>net\<close> on bytes as \<open>8 word\<close>, the
    blocked ranges, the check of a URL and the hook at dial time.
  \<^item> \<open>SchedStore\<close>, \<open>Scheduler\<close>, \<open>SchedProps\<close> (\<^verbatim>\<open>internal/redisx/scheduler_store.go\<close>,
    \<^verbatim>\<open>internal/scheduler/scheduler.go\<close>): the sorted set of jobs and the claims, the execution of a due job
    with its retries, the tick and the loop.
  \<^item> \<open>HandlerReg\<close>, \<open>Dispatch\<close>, \<open>DispatchProps\<close>, \<open>Acks\<close> (\<^verbatim>\<open>handler/handler.go\<close>, \<^verbatim>\<open>internal/connection/handler.go\<close>):
    middleware and custom verbs, every handler of an inbound frame, the dispatch of a frame, presence
    and the cleanup after a disconnect. This is where the components above meet.
  \<^item> \<open>Auth\<close> (\<^verbatim>\<open>auth/auth.go\<close>), \<open>Config\<close> (\<^verbatim>\<open>internal/config/config.go\<close>), \<open>Wsserver\<close> (\<^verbatim>\<open>wsserver/wsserver.go\<close>),
    \<open>AppServer\<close>, \<open>Session\<close>, \<open>AppRun\<close> (\<^verbatim>\<open>internal/app/app.go\<close>, \<^verbatim>\<open>main.go\<close>): authentication, the configuration from
    the environment, the options of an embedder, the construction of the application, the life of a
    connection from its upgrade to its cleanup, shutdown, and \<^verbatim>\<open>Run\<close> with the goroutines of the bus, the
    scheduler and the servers, the error channel, the select and the wait for them as interleaved steps.
  \<^item> \<open>ServerRun\<close>, \<open>ConnMetrics\<close>, \<open>EndToEnd\<close>: the composition. A step relation interleaves the connects,
    frames and disconnects of any number of sockets of an instance with the messages of the bus, the
    steps of single connections and the changes others make in Redis; the same with the metrics of
    the connections; and the way of a message from the publisher's socket on one instance to a
    subscriber's socket on another.
  \<^item> \<open>Logger\<close> (\<^verbatim>\<open>internal/logger/logger.go\<close>, the log value of a job) and \<open>RedisHook\<close>
    (\<^verbatim>\<open>metrics/redishook.go\<close>).
  \<^item> \<open>Metrics\<close> (\<^verbatim>\<open>metrics/metrics.go\<close>): the collectors, their labels and their registration.
  \<^item> \<open>Floats\<close>, \<open>Fanout\<close>, \<open>LoadTest\<close> (\<^verbatim>\<open>cmd/wsfanout\<close>, \<^verbatim>\<open>cmd/wsload\<close>, \<^verbatim>\<open>cmd/wsprobe\<close>): the load tools, as
    functions from what servers, sockets and signals do to an error or report and a list of
    effects, with the rounding of \<^verbatim>\<open>float64\<close> on natural numbers.

  \<^bold>\<open>How the code is modelled\<close>

  A struct is a record, an enumeration a datatype, a Go map an association list where its order or
  its updates matter. Mutable state is passed and returned; a method that blocks returns an option.
  Operations that are several Redis commands and that others can overlap with have a variant \<open>_cmds\<close>, the
  sequence of their commands, which run alone is the operation; some have a variant \<open>_between\<close> with one
  step of the rest of the cluster between two commands, for the lemmas that show a race. Errors are the left side of a sum, a run-time panic is one of them.
  Durations are milliseconds, nanoseconds in \<open>Config\<close>; arithmetic on them wraps at 64 bits where the
  source can overflow. Loops over data are structural recursions; the others (the writer, retries,
  \<^verbatim>\<open>path.Match\<close>, address parsing, redaction) are functions with a termination proof, and no fuel is used.
  A loop that runs until it is stopped is a recursion over the list of its turns, so that a statement
  for all lists is one about every finite prefix of a run.

  Besides Redis, the parameters are the clock, \<^verbatim>\<open>time.Parse\<close>, the rendering of JSON, fresh identifiers,
  the resolver and the transport of the scheduler, the JWT parser, the \<^verbatim>\<open>.env\<close> loader, gorilla's
  upgrader, the Prometheus registry and the operating system's listen and TLS calls. A theorem that needs something of them says so
  in its hypotheses and has a witness with concrete functions for them.

  \<^bold>\<open>What is shown\<close>

  \<^item> Delivery: no message is lost between replay and live delivery under any interleaving, each is sent
    at most once either way, a publish reaches exactly the admitted subscribers, with a judge
    exactly the ones it chose, queues are first-in first-out and within their bounds, a shutdown flushes what was
    accepted by the connections that can be drained. From end to end, an
    accepted publish frame is put on the wire of every live subscriber of every instance that hears the
    announcement, and a whole run of the listener sends each connection exactly what is for it.
    A client that resumes from a message it received misses nothing as long as messages are
    announced in the order of the stream and the listener does not overtake the flush of a subscribe, and one that acknowledged a position and subscribes from it,
    on whatever instance, is replayed exactly what the stream holds behind it.
  \<^item> Shared state: a lock stays with its owner under any interleaving of calls begun later, until it is
    unlocked or expires; the limiter equals its reference; counts of connections refine a number, ack cursors
    do not move back and the identifiers of jobs are unique, as long as the calls for one user, cursor or identifier do
    not overlap each other, and overlapping acks invent no position. Under any interleaving
    of an instance's events hub, subscription tables and queues stay consistent, the gauge of
    connections is exact and the last socket leaves no subscription behind.
  \<^item> Jobs: a due job is executed by one instance, makes a bounded number of requests, all of them to
    public addresses, and returns after its interval.
  \<^item> Admission and policy: a configured secret guards every socket, origins are checked, refused and
    invalid frames have no effect, an identity in a pattern is matched literally up to its separators, a
    locked operation on a topic is refused to others, a callout passes the check only to listed
    hosts and public addresses, a session leaves no trace in hub and bus, and the last
    disconnect of a user releases the locks its index names.
  \<^item> Configuration and logging: a loaded configuration is well formed and reaches the server, and
    values of sensitive keys are redacted in the log; every collector registers, with labels from a closed set.
  \<^item> Protocol and tools: a client reads back every outbound frame, the two comparisons of positions are
    one order, a measurement counts what it claims, the accounting of a load run is exact when it was
    not interrupted, and its percentiles stay in range under floating-point rounding.
  \<^item> Flaws of the code, each as a theorem or lemma with a concrete run: an eviction at a full queue
    that never closes the socket, a message lost to a client that acknowledged a later one which was
    announced first, a \<^verbatim>\<open>Run\<close> that after the error of a subsystem waits until its caller cancels, a job without
    payload that ends the process, a job before 1970 that keeps the scheduler busy, a message sent both
    as replay and live, a routing decision that the history forgets, a lock stranded by the
    release of the other kind, the races of renewing a lock, of disconnecting and of acknowledging, a log group
    named after a secret that is written out, tenants whose names differ only in separators, colliding keys, and
    in the load tools an interrupt counted as loss, sockets left open and two wrapped differences.

  \<^bold>\<open>What is not modelled\<close>

  Of the load tools the text of the report's sections, the projections and verdicts from wall-clock
  times, the flags, and the probe's signal handler and printing are left out, and so are log texts, trivial accessors, socket options,
  compression, the \<^verbatim>\<open>/metrics\<close> handler and the HTTP servers themselves. A method of a connection and a
  subscribe outside \<open>ReplayRace\<close> are one step each, and \<open>ReplayRace\<close> has no judge. Text that is not ASCII is outside
  the models of \<^verbatim>\<open>strings\<close> and JSON.
\<close>

end
